(* ===== verification/Rust_Prelude.thy ===== *)
theory Rust_Prelude
  imports Main "HOL-Library.Char_ord" "HOL-Library.List_Lexorder" "HOL-Library.Word"
begin

text \<open>
  What the components share: the parts of the Rust language and of its standard library that the
  modelled code uses.  \<open>Result\<close> with the \<open>?\<close> operator, \<open>Ordering\<close>, byte strings, decimal printing
  and parsing of \<open>usize\<close>, and the generic lemmas about them.

  A Rust \<open>String\<close> or \<open>&str\<close> is its UTF-8 byte sequence, a \<^typ>\<open>string\<close> whose characters are bytes.
  Rust compares strings by these bytes, which is the lexicographic order of \<open>List_Lexorder\<close> over
  \<open>Char_ord\<close>.  A \<open>Vec<u8>\<close> is a list of 8-bit words.  A \<open>usize\<close> that counts or indexes a slice held in
  memory is a \<^typ>\<open>nat\<close>; where the code parses one from text, the bound \<open>2^64\<close> is written out.
\<close>

named_theorems res_simps \<open>rewriting of \<open>Result\<close> computations\<close>
named_theorems str_simps \<open>facts on byte strings\<close>

type_synonym u8 = "8 word"
type_synonym ('a, 'e) result = "'e + 'a"

subsection \<open>Result and the question mark operator\<close>

definition bind_r :: "'e + 'a \<Rightarrow> ('a \<Rightarrow> 'e + 'b) \<Rightarrow> 'e + 'b" where
  "bind_r x f = (case x of Inl e \<Rightarrow> Inl e | Inr a \<Rightarrow> f a)"

lemma bind_r_simps [simp]:
  "bind_r (Inl e) f = Inl e"
  "bind_r (Inr a) f = f a"
  by (simp_all add: bind_r_def)

lemma bind_r_cong [fundef_cong]:
  "x = y \<Longrightarrow> (\<And>a. y = Inr a \<Longrightarrow> f a = g a) \<Longrightarrow> bind_r x f = bind_r y g"
  by (simp add: bind_r_def split: sum.split)

lemma bind_r_Inr_iff [res_simps]:
  "bind_r x f = Inr b \<longleftrightarrow> (\<exists>a. x = Inr a \<and> f a = Inr b)"
  by (cases x) simp_all

lemma bind_r_Inl_iff [res_simps]:
  "bind_r x f = Inl e \<longleftrightarrow> x = Inl e \<or> (\<exists>a. x = Inr a \<and> f a = Inl e)"
  by (cases x) simp_all

lemma bind_r_InrE [elim!]:
  assumes "bind_r x f = Inr b"
  obtains a where "x = Inr a" "f a = Inr b"
  using assms by (auto simp: res_simps)

lemma bind_r_InlE:
  assumes "bind_r x f = Inl e"
  obtains "x = Inl e" | a where "x = Inr a" "f a = Inl e"
  using assms by (cases x) auto

lemma bind_r_assoc: "bind_r (bind_r x f) g = bind_r x (\<lambda>a. bind_r (f a) g)"
  by (cases x) simp_all

text \<open>Every error a computation can end with satisfies \<open>P\<close>.\<close>

definition errs_in :: "('e \<Rightarrow> bool) \<Rightarrow> 'e + 'a \<Rightarrow> bool" where
  "errs_in P r \<longleftrightarrow> (\<forall>e. r = Inl e \<longrightarrow> P e)"

lemma errs_in_simps [simp]:
  "errs_in P (Inr a)"
  "errs_in P (Inl e) \<longleftrightarrow> P e"
  "errs_in P (bind_r x f) \<longleftrightarrow> errs_in P x \<and> (\<forall>a. x = Inr a \<longrightarrow> errs_in P (f a))"
  by (cases x; auto simp: errs_in_def)+

lemma errs_inD: "errs_in P r \<Longrightarrow> r = Inl e \<Longrightarrow> P e"
  by (simp add: errs_in_def)

lemma errs_in_mono: "errs_in P r \<Longrightarrow> (\<And>e. P e \<Longrightarrow> Q e) \<Longrightarrow> errs_in Q r"
  by (simp add: errs_in_def)

definition map_err :: "('e \<Rightarrow> 'f) \<Rightarrow> 'e + 'a \<Rightarrow> 'f + 'a" where
  "map_err f x = (case x of Inl e \<Rightarrow> Inl (f e) | Inr a \<Rightarrow> Inr a)"

lemma map_err_simps [simp]:
  "map_err f (Inl e) = Inl (f e)"
  "map_err f (Inr a) = Inr a"
  by (simp_all add: map_err_def)

lemma map_err_Inr_iff [simp]: "map_err f x = Inr a \<longleftrightarrow> x = Inr a"
  by (cases x) simp_all

definition ok_or :: "'a option \<Rightarrow> 'e \<Rightarrow> 'e + 'a" where
  "ok_or x e = (case x of None \<Rightarrow> Inl e | Some a \<Rightarrow> Inr a)"

lemma ok_or_simps [simp]:
  "ok_or None e = Inl e"
  "ok_or (Some a) e = Inr a"
  by (simp_all add: ok_or_def)

lemma ok_or_Inr_iff [simp]: "ok_or x e = Inr a \<longleftrightarrow> x = Some a"
  by (cases x) simp_all

primrec isOk :: "'e + 'a \<Rightarrow> bool" where
  "isOk (Inl e) = False"
| "isOk (Inr a) = True"

lemma isOk_iff: "isOk x \<longleftrightarrow> (\<exists>a. x = Inr a)"
  by (cases x) simp_all

text \<open>A \<open>for\<close> loop whose body may return early with an error: \<open>for x in xs { f(x)?; }\<close>.\<close>

fun try_each :: "('a \<Rightarrow> 'e + unit) \<Rightarrow> 'a list \<Rightarrow> 'e + unit" where
  "try_each f [] = Inr ()"
| "try_each f (x # xs) = bind_r (f x) (\<lambda>_. try_each f xs)"

text \<open>A \<open>for\<close> loop that mutates an accumulator and may return early.\<close>

fun try_fold :: "('s \<Rightarrow> 'a \<Rightarrow> 'e + 's) \<Rightarrow> 's \<Rightarrow> 'a list \<Rightarrow> 'e + 's" where
  "try_fold f s [] = Inr s"
| "try_fold f s (x # xs) = bind_r (f s x) (\<lambda>s'. try_fold f s' xs)"

text \<open>\<open>iter().map(f).collect::<Result<Vec<_>, _>>()\<close>: the first error stops the iteration.\<close>

fun try_map :: "('a \<Rightarrow> 'e + 'b) \<Rightarrow> 'a list \<Rightarrow> 'e + 'b list" where
  "try_map f [] = Inr []"
| "try_map f (x # xs) = bind_r (f x) (\<lambda>y. bind_r (try_map f xs) (\<lambda>ys. Inr (y # ys)))"

lemma try_each_Inr_iff: "try_each f xs = Inr u \<longleftrightarrow> (\<forall>x \<in> set xs. f x = Inr ())"
  by (induction xs) (auto simp: res_simps)

lemma try_each_cong [fundef_cong]:
  "xs = ys \<Longrightarrow> (\<And>x. x \<in> set ys \<Longrightarrow> f x = g x) \<Longrightarrow> try_each f xs = try_each g ys"
  by (induction xs arbitrary: ys) (auto intro!: bind_r_cong)

lemma try_map_cong [fundef_cong]:
  "xs = ys \<Longrightarrow> (\<And>x. x \<in> set ys \<Longrightarrow> f x = g x) \<Longrightarrow> try_map f xs = try_map g ys"
  by (induction xs arbitrary: ys) (auto intro!: bind_r_cong)

lemma try_map_Inr_iff: "try_map f xs = Inr ys \<longleftrightarrow> list_all2 (\<lambda>x y. f x = Inr y) xs ys"
proof (induction xs arbitrary: ys)
  case (Cons x xs)
  then show ?case by (cases ys) (auto simp: res_simps)
qed auto

lemma try_fold_append:
  "try_fold f s (xs @ ys) = bind_r (try_fold f s xs) (\<lambda>s'. try_fold f s' ys)"
  by (induction xs arbitrary: s) (simp_all add: bind_r_assoc)

lemma try_fold_invariant:
  assumes "try_fold f s xs = Inr s'" and "P s"
    and "\<And>s x t. x \<in> set xs \<Longrightarrow> P s \<Longrightarrow> f s x = Inr t \<Longrightarrow> P t"
  shows "P s'"
  using assms
proof (induction xs arbitrary: s)
  case (Cons x xs)
  then obtain t where t: "f s x = Inr t" "try_fold f t xs = Inr s'" by auto
  have "P t" using Cons.prems(2,3) t(1) by (meson list.set_intros(1))
  with t Cons.prems show ?case by (intro Cons.IH [of t]) auto
qed simp

subsection \<open>Ordering\<close>

datatype Ordering = Less | Equal | Greater

definition cmp_ord :: "'a::linorder \<Rightarrow> 'a \<Rightarrow> Ordering" where
  "cmp_ord x y = (if x < y then Less else if x = y then Equal else Greater)"

lemma cmp_ord_eq_iff [simp]:
  "cmp_ord x y = Equal \<longleftrightarrow> x = y"
  "cmp_ord x y = Less \<longleftrightarrow> x < y"
  "cmp_ord x y = Greater \<longleftrightarrow> y < x"
  by (auto simp: cmp_ord_def)

lemma cmp_ord_self [simp]: "cmp_ord x x = Equal"
  by simp

primrec reverse_ord :: "Ordering \<Rightarrow> Ordering" where
  "reverse_ord Less = Greater"
| "reverse_ord Equal = Equal"
| "reverse_ord Greater = Less"

lemma cmp_ord_swap: "cmp_ord y x = reverse_ord (cmp_ord x y)"
  by (auto simp: cmp_ord_def)

subsection \<open>Bytes and byte strings\<close>

text \<open>The ASCII classes of \<open>u8\<close> and \<open>char\<close> in the standard library.\<close>

definition is_ascii_digit :: "char \<Rightarrow> bool" where
  "is_ascii_digit c \<longleftrightarrow> CHR ''0'' \<le> c \<and> c \<le> CHR ''9''"

definition is_ascii_lowercase :: "char \<Rightarrow> bool" where
  "is_ascii_lowercase c \<longleftrightarrow> CHR ''a'' \<le> c \<and> c \<le> CHR ''z''"

definition is_ascii_uppercase :: "char \<Rightarrow> bool" where
  "is_ascii_uppercase c \<longleftrightarrow> CHR ''A'' \<le> c \<and> c \<le> CHR ''Z''"

definition is_ascii_alphabetic :: "char \<Rightarrow> bool" where
  "is_ascii_alphabetic c \<longleftrightarrow> is_ascii_lowercase c \<or> is_ascii_uppercase c"

definition is_ascii_alphanumeric :: "char \<Rightarrow> bool" where
  "is_ascii_alphanumeric c \<longleftrightarrow> is_ascii_alphabetic c \<or> is_ascii_digit c"

definition is_ascii_byte :: "char \<Rightarrow> bool" where
  "is_ascii_byte c \<longleftrightarrow> of_char c < (128 :: nat)"

definition is_ascii :: "string \<Rightarrow> bool" where
  "is_ascii s \<longleftrightarrow> list_all is_ascii_byte s"

definition ascii_lower :: "char \<Rightarrow> char" where
  "ascii_lower c = (if is_ascii_uppercase c then char_of (of_char c + (32 :: nat)) else c)"

definition ascii_upper :: "char \<Rightarrow> char" where
  "ascii_upper c = (if is_ascii_lowercase c then char_of (of_char c - (32 :: nat)) else c)"

definition to_ascii_lowercase :: "string \<Rightarrow> string" where
  "to_ascii_lowercase s = map ascii_lower s"

definition to_ascii_uppercase :: "string \<Rightarrow> string" where
  "to_ascii_uppercase s = map ascii_upper s"

definition eq_ignore_ascii_case :: "string \<Rightarrow> string \<Rightarrow> bool" where
  "eq_ignore_ascii_case s t \<longleftrightarrow> to_ascii_lowercase s = to_ascii_lowercase t"

text \<open>\<open>str::starts_with\<close>, \<open>str::strip_prefix\<close>, \<open>str::contains\<close> and \<open>str::find\<close> with a string pattern.\<close>

fun starts_with :: "'a list \<Rightarrow> 'a list \<Rightarrow> bool" where
  "starts_with s [] = True"
| "starts_with [] (p # ps) = False"
| "starts_with (c # cs) (p # ps) = (c = p \<and> starts_with cs ps)"

definition strip_prefix :: "'a list \<Rightarrow> 'a list \<Rightarrow> 'a list option" where
  "strip_prefix s p = (if starts_with s p then Some (drop (length p) s) else None)"

fun find_sub :: "'a list \<Rightarrow> 'a list \<Rightarrow> nat option" where
  "find_sub [] p = (if p = [] then Some 0 else None)"
| "find_sub (c # cs) p = (if starts_with (c # cs) p then Some 0 else map_option Suc (find_sub cs p))"

definition contains_sub :: "'a list \<Rightarrow> 'a list \<Rightarrow> bool" where
  "contains_sub s p \<longleftrightarrow> find_sub s p \<noteq> None"

lemma starts_with_iff: "starts_with s p \<longleftrightarrow> (\<exists>t. s = p @ t)"
  by (induction s p rule: starts_with.induct) auto

lemma starts_with_append [simp]: "starts_with (p @ t) p"
  by (auto simp: starts_with_iff)

lemma strip_prefix_Some_iff: "strip_prefix s p = Some t \<longleftrightarrow> s = p @ t"
  by (auto simp: strip_prefix_def starts_with_iff)

lemma strip_prefix_append [simp]: "strip_prefix (p @ t) p = Some t"
  by (simp add: strip_prefix_Some_iff)

lemma contains_sub_iff: "contains_sub s p \<longleftrightarrow> (\<exists>u t. s = u @ p @ t)"
proof (induction s)
  case Nil
  then show ?case by (simp add: contains_sub_def)
next
  case (Cons c cs)
  have "contains_sub (c # cs) p \<longleftrightarrow> starts_with (c # cs) p \<or> contains_sub cs p"
    by (simp add: contains_sub_def)
  also have "\<dots> \<longleftrightarrow> (\<exists>u t. c # cs = u @ p @ t)"
    unfolding Cons.IH starts_with_iff
    by (metis append_Cons append_Nil list.exhaust list.inject)
  finally show ?case .
qed

text \<open>\<open>str::split_once\<close> with a character predicate: the parts around the first matching byte.\<close>

definition split_once :: "('a \<Rightarrow> bool) \<Rightarrow> 'a list \<Rightarrow> ('a list \<times> 'a list) option" where
  "split_once P s = (case dropWhile (\<lambda>c. \<not> P c) s of
     [] \<Rightarrow> None | _ # rest \<Rightarrow> Some (takeWhile (\<lambda>c. \<not> P c) s, rest))"

lemma split_once_SomeD:
  "split_once P s = Some (a, b) \<Longrightarrow> \<exists>c. s = a @ c # b \<and> P c \<and> (\<forall>x \<in> set a. \<not> P x)"
proof -
  assume "split_once P s = Some (a, b)"
  then obtain c where d: "dropWhile (\<lambda>c. \<not> P c) s = c # b" and a: "a = takeWhile (\<lambda>c. \<not> P c) s"
    by (auto simp: split_once_def split: list.splits)
  have "P c" using d by (metis hd_dropWhile list.distinct(1) list.sel(1))
  moreover have "s = a @ c # b" using a d takeWhile_dropWhile_id [of "\<lambda>c. \<not> P c" s] by simp
  moreover have "\<forall>x \<in> set a. \<not> P x" using a by (auto dest: set_takeWhileD)
  ultimately show ?thesis by blast
qed

lemma split_once_None_iff: "split_once P s = None \<longleftrightarrow> (\<forall>x \<in> set s. \<not> P x)"
  by (simp add: split_once_def split: list.split) (metis dropWhile_eq_Nil_conv list.distinct(1))

text \<open>The quotation marks of the message texts.\<close>

definition dquote :: string where
  "dquote = [CHR 0x22]"

definition squote :: string where
  "squote = [CHR 0x27]"

text \<open>\<open>[String]::join\<close>.\<close>

fun join :: "'a list list \<Rightarrow> 'a list \<Rightarrow> 'a list" where
  "join [] sep = []"
| "join [x] sep = x"
| "join (x # y # xs) sep = x @ sep @ join (y # xs) sep"

subsection \<open>UTF-8\<close>

text \<open>
  A continuation byte is \<open>0b10xxxxxx\<close>; \<open>str::is_char_boundary\<close> says that an index does not point at
  one.  \<open>utf8_width\<close> reads the length of a character from its first byte.
\<close>

definition is_cont_byte :: "char \<Rightarrow> bool" where
  "is_cont_byte c \<longleftrightarrow> (128 :: nat) \<le> of_char c \<and> of_char c < (192 :: nat)"

definition is_char_boundary :: "string \<Rightarrow> nat \<Rightarrow> bool" where
  "is_char_boundary s i \<longleftrightarrow>
     i = 0 \<or> i = length s \<or> (i < length s \<and> \<not> is_cont_byte (s ! i))"

definition utf8_width :: "char \<Rightarrow> nat" where
  "utf8_width c = (let b = of_char c :: nat in
     if b < 128 then 1 else if b < 224 then 2 else if b < 240 then 3 else 4)"

text \<open>\<open>str::encode_utf16().count()\<close>: one unit per character, two for a four-byte character.\<close>

definition encode_utf16_count :: "string \<Rightarrow> nat" where
  "encode_utf16_count s =
     length (filter (\<lambda>c. \<not> is_cont_byte c) s) + length (filter (\<lambda>c. (240 :: nat) \<le> of_char c) s)"

lemma encode_utf16_count_ascii: "is_ascii s \<Longrightarrow> encode_utf16_count s = length s"
  by (induction s) (auto simp: encode_utf16_count_def is_ascii_def is_ascii_byte_def is_cont_byte_def)

subsection \<open>Decimal numbers\<close>

definition digit_char :: "nat \<Rightarrow> char" where
  "digit_char d = char_of (48 + d)"

definition digit_val :: "char \<Rightarrow> nat" where
  "digit_val c = of_char c - 48"

text \<open>\<open>usize::to_string\<close>.\<close>

fun show_nat :: "nat \<Rightarrow> string" where
  "show_nat n = (if n < 10 then [digit_char n] else show_nat (n div 10) @ [digit_char (n mod 10)])"

declare show_nat.simps [simp del]

definition digits_val :: "string \<Rightarrow> nat" where
  "digits_val s = foldl (\<lambda>acc c. 10 * acc + digit_val c) 0 s"

text \<open>\<open>str::parse::<usize>()\<close>: an optional plus sign, at least one digit, and no overflow.\<close>

definition parse_usize :: "string \<Rightarrow> nat option" where
  "parse_usize s =
     (let d = (case s of [] \<Rightarrow> s | c # r \<Rightarrow> if c = CHR ''+'' then r else s)
      in if d \<noteq> [] \<and> list_all is_ascii_digit d \<and> digits_val d < 2 ^ 64 then Some (digits_val d)
         else None)"

lemma of_char_digit [simp]: "d < 10 \<Longrightarrow> of_char (digit_char d) = 48 + d"
  by (simp add: digit_char_def)

lemma is_ascii_digit_of_char: "is_ascii_digit c \<longleftrightarrow> 48 \<le> (of_char c :: nat) \<and> (of_char c :: nat) \<le> 57"
  by (simp add: is_ascii_digit_def less_eq_char_def)

lemma is_ascii_digit_digit_char [simp]: "d < 10 \<Longrightarrow> is_ascii_digit (digit_char d)"
  by (simp add: is_ascii_digit_of_char)

lemma digit_val_digit_char [simp]: "d < 10 \<Longrightarrow> digit_val (digit_char d) = d"
  by (simp add: digit_val_def)

lemma digit_char_digit_val [simp]: "is_ascii_digit c \<Longrightarrow> digit_char (digit_val c) = c"
  by (simp add: is_ascii_digit_of_char digit_char_def digit_val_def)

lemma digit_val_less [simp]: "is_ascii_digit c \<Longrightarrow> digit_val c < 10"
  unfolding is_ascii_digit_of_char digit_val_def by linarith

lemma digits_val_Nil [simp]: "digits_val [] = 0"
  by (simp add: digits_val_def)

lemma digits_val_snoc [simp]: "digits_val (s @ [c]) = 10 * digits_val s + digit_val c"
  by (simp add: digits_val_def)

lemma digits_val_append: "digits_val (s @ t) = digits_val s * 10 ^ length t + digits_val t"
proof (induction t rule: rev_induct)
  case (snoc c t)
  have "digits_val (s @ t @ [c]) = 10 * digits_val (s @ t) + digit_val c"
    using digits_val_snoc [of "s @ t" c] by simp
  with snoc show ?case by (simp add: algebra_simps)
qed simp

lemma digits_val_Cons: "digits_val (c # s) = digit_val c * 10 ^ length s + digits_val s"
  using digits_val_append [of "[c]" s] by (simp add: digits_val_def)

lemma show_nat_digits [simp]: "list_all is_ascii_digit (show_nat n)"
proof (induction n rule: show_nat.induct)
  case (1 n)
  then show ?case by (subst show_nat.simps) simp
qed

lemma show_nat_nonempty [simp]: "show_nat n \<noteq> []"
  by (subst show_nat.simps) simp

lemma digits_val_show_nat [simp]: "digits_val (show_nat n) = n"
proof (induction n rule: show_nat.induct)
  case (1 n)
  show ?case
  proof (cases "n < 10")
    case True
    then show ?thesis by (subst show_nat.simps) (simp add: digits_val_Cons)
  next
    case False
    with 1 have "digits_val (show_nat (n div 10)) = n div 10" by simp
    with False show ?thesis by (subst show_nat.simps) simp
  qed
qed

lemma show_nat_inject [simp]: "show_nat m = show_nat n \<longleftrightarrow> m = n"
  by (metis digits_val_show_nat)

lemma is_ascii_digit_not_plus: "is_ascii_digit c \<Longrightarrow> c \<noteq> CHR ''+''"
  by (auto simp: is_ascii_digit_of_char)

lemma show_nat_hd_digit: "show_nat n = c # s \<Longrightarrow> is_ascii_digit c"
  using show_nat_digits [of n] by simp

lemma parse_usize_show_nat: "n < 2 ^ 64 \<Longrightarrow> parse_usize (show_nat n) = Some n"
proof -
  assume n: "n < 2 ^ 64"
  obtain c s where cs: "show_nat n = c # s" by (cases "show_nat n") auto
  have "c \<noteq> CHR ''+''" using is_ascii_digit_not_plus [OF show_nat_hd_digit [OF cs]] .
  then have "(case show_nat n of [] \<Rightarrow> show_nat n | c # r \<Rightarrow> if c = CHR ''+'' then r else show_nat n) = show_nat n"
    by (simp add: cs)
  with n show ?thesis by (simp add: parse_usize_def)
qed

end
