(* ===== verification/BTree.thy ===== *)
theory BTree
  imports Rust_Prelude
begin

text \<open>
  The ordered containers of the Rust standard library.  A \<open>BTreeMap\<close> is its sequence of entries in
  ascending key order, a \<open>BTreeSet\<close> its ascending sequence of elements; iteration follows that
  sequence and \<open>==\<close> compares it.  The locales state the contract the components rely on, the
  interpretations discharge it for the entry sequences.
\<close>

type_synonym ('k, 'v) btree_map = "('k \<times> 'v) list"
type_synonym 'a btree_set = "'a list"

subsection \<open>Maps\<close>

definition bt_wf :: "('k::linorder, 'v) btree_map \<Rightarrow> bool" where
  "bt_wf m \<longleftrightarrow> sorted_wrt (<) (map fst m)"

definition bt_get :: "('k, 'v) btree_map \<Rightarrow> 'k \<Rightarrow> 'v option" where
  "bt_get m k = map_of m k"

definition bt_contains_key :: "('k, 'v) btree_map \<Rightarrow> 'k \<Rightarrow> bool" where
  "bt_contains_key m k \<longleftrightarrow> bt_get m k \<noteq> None"

fun bt_insert :: "'k::linorder \<Rightarrow> 'v \<Rightarrow> ('k, 'v) btree_map \<Rightarrow> ('k, 'v) btree_map" where
  "bt_insert k v [] = [(k, v)]"
| "bt_insert k v ((k', v') # m) =
     (if k < k' then (k, v) # (k', v') # m
      else if k = k' then (k, v) # m
      else (k', v') # bt_insert k v m)"

definition bt_remove :: "'k \<Rightarrow> ('k, 'v) btree_map \<Rightarrow> ('k, 'v) btree_map" where
  "bt_remove k m = filter (\<lambda>e. fst e \<noteq> k) m"

text \<open>Collecting an iterator of entries: later entries replace earlier ones.\<close>

definition bt_collect :: "('k::linorder \<times> 'v) list \<Rightarrow> ('k, 'v) btree_map" where
  "bt_collect es = fold (\<lambda>(k, v) m. bt_insert k v m) es []"

text \<open>
  The contract of an ordered map.  \<open>ext\<close> says that the representation is canonical: two well-formed
  maps with the same lookups are the same map, so that structural equality is equality of contents.
\<close>

locale ordered_map =
  fixes inv :: "'m \<Rightarrow> bool"
    and emp :: "'m"
    and get :: "'m \<Rightarrow> 'k \<Rightarrow> 'v option"
    and ins :: "'k \<Rightarrow> 'v \<Rightarrow> 'm \<Rightarrow> 'm"
    and rem :: "'k \<Rightarrow> 'm \<Rightarrow> 'm"
  assumes inv_emp: "inv emp"
    and inv_ins: "inv m \<Longrightarrow> inv (ins k v m)"
    and inv_rem: "inv m \<Longrightarrow> inv (rem k m)"
    and get_emp: "get emp k = None"
    and get_ins: "inv m \<Longrightarrow> get (ins k v m) = (get m)(k := Some v)"
    and get_rem: "inv m \<Longrightarrow> get (rem k m) = (get m)(k := None)"
    and ext: "inv m \<Longrightarrow> inv n \<Longrightarrow> get m = get n \<Longrightarrow> m = n"
begin

lemmas laws = inv_emp inv_ins inv_rem get_emp get_ins get_rem

lemma get_ins_same: "inv m \<Longrightarrow> get (ins k v m) k = Some v"
  by (simp add: laws)

lemma get_ins_other: "inv m \<Longrightarrow> k' \<noteq> k \<Longrightarrow> get (ins k v m) k' = get m k'"
  by (simp add: laws)

lemma get_rem_same: "inv m \<Longrightarrow> get (rem k m) k = None"
  by (simp add: laws)

lemma get_rem_other: "inv m \<Longrightarrow> k' \<noteq> k \<Longrightarrow> get (rem k m) k' = get m k'"
  by (simp add: laws)

lemma ins_same: "inv m \<Longrightarrow> get m k = Some v \<Longrightarrow> ins k v m = m"
  by (rule ext) (auto simp: laws)

lemma ins_overwrite: "inv m \<Longrightarrow> ins k v (ins k w m) = ins k v m"
  by (rule ext) (auto simp: laws)

lemma ins_commute: "inv m \<Longrightarrow> k \<noteq> k' \<Longrightarrow> ins k v (ins k' v' m) = ins k' v' (ins k v m)"
  by (rule ext) (auto simp: laws)

lemma rem_absent: "inv m \<Longrightarrow> get m k = None \<Longrightarrow> rem k m = m"
  by (rule ext) (auto simp: laws)

lemma rem_ins: "inv m \<Longrightarrow> rem k (ins k v m) = rem k m"
  by (rule ext) (auto simp: laws)

lemma rem_ins_fresh: "inv m \<Longrightarrow> get m k = None \<Longrightarrow> rem k (ins k v m) = m"
  by (simp add: rem_ins rem_absent)

lemma rem_ins_other: "inv m \<Longrightarrow> k \<noteq> k' \<Longrightarrow> rem k (ins k' v m) = ins k' v (rem k m)"
  by (rule ext) (auto simp: laws)

end

lemma bt_wf_Nil [simp]: "bt_wf []"
  by (simp add: bt_wf_def)

lemma bt_wf_Cons [simp]: "bt_wf ((k, v) # m) \<longleftrightarrow> (\<forall>k' \<in> fst ` set m. k < k') \<and> bt_wf m"
  by (auto simp: bt_wf_def)

lemma bt_wf_distinct: "bt_wf m \<Longrightarrow> distinct (map fst m)"
  by (simp add: bt_wf_def strict_sorted_iff)

lemma bt_get_Nil [simp]: "bt_get [] k = None"
  by (simp add: bt_get_def)

lemma bt_get_Cons [simp]: "bt_get ((k, v) # m) k' = (if k' = k then Some v else bt_get m k')"
  by (simp add: bt_get_def)

lemma bt_get_SomeD: "bt_get m k = Some v \<Longrightarrow> (k, v) \<in> set m"
  by (simp add: bt_get_def map_of_SomeD)

lemma bt_get_Some_iff: "bt_wf m \<Longrightarrow> bt_get m k = Some v \<longleftrightarrow> (k, v) \<in> set m"
  by (simp add: bt_get_def bt_wf_distinct)

lemma bt_get_None_iff: "bt_get m k = None \<longleftrightarrow> k \<notin> fst ` set m"
  by (simp add: bt_get_def map_of_eq_None_iff)

lemma keys_bt_insert [simp]: "fst ` set (bt_insert k v m) = insert k (fst ` set m)"
  by (induction k v m rule: bt_insert.induct) auto

lemma set_bt_insert_subset: "set (bt_insert k v m) \<subseteq> insert (k, v) (set m)"
  by (induction k v m rule: bt_insert.induct) auto

lemma snd_set_bt_insert: "w \<in> snd ` set (bt_insert k v m) \<Longrightarrow> w = v \<or> w \<in> snd ` set m"
  using set_bt_insert_subset [of k v m] by fastforce

lemma bt_wf_insert [simp]: "bt_wf m \<Longrightarrow> bt_wf (bt_insert k v m)"
  by (induction k v m rule: bt_insert.induct) (auto dest: order.strict_trans)

lemma bt_get_insert: "bt_get (bt_insert k v m) = (bt_get m)(k := Some v)"
  by (induction k v m rule: bt_insert.induct) (auto simp: fun_eq_iff)

lemma bt_wf_filter [simp]: "bt_wf m \<Longrightarrow> bt_wf (filter P m)"
  by (induction m) auto

lemma bt_wf_remove [simp]: "bt_wf m \<Longrightarrow> bt_wf (bt_remove k m)"
  by (simp add: bt_remove_def)

lemma bt_get_remove: "bt_get (bt_remove k m) = (bt_get m)(k := None)"
  by (induction m) (auto simp: bt_remove_def fun_eq_iff)

lemma set_bt_remove [simp]: "set (bt_remove k m) = {e \<in> set m. fst e \<noteq> k}"
  by (simp add: bt_remove_def)

lemma bt_wf_ext: "bt_wf m \<Longrightarrow> bt_wf n \<Longrightarrow> bt_get m = bt_get n \<Longrightarrow> m = n"
proof -
  assume m: "bt_wf m" and n: "bt_wf n" and eq: "bt_get m = bt_get n"
  have "set m = set n"
    using m n eq by (auto simp flip: bt_get_Some_iff)
  moreover have "sorted (map fst m)" "sorted (map fst n)"
    using m n by (simp_all add: bt_wf_def strict_sorted_iff)
  moreover have "distinct (map fst m)" "distinct (map fst n)"
    using m n by (simp_all add: bt_wf_distinct)
  moreover have "inj_on fst (set m \<union> set n)"
    using calculation by (simp add: distinct_map)
  ultimately show ?thesis by (intro map_sorted_distinct_set_unique [of fst])
qed

interpretation btm: ordered_map "bt_wf :: ('k::linorder, 'v) btree_map \<Rightarrow> bool" "[]" bt_get bt_insert bt_remove
  by unfold_locales (auto simp: bt_get_insert bt_get_remove intro: bt_wf_ext)

lemmas bt_laws [simp] = btm.get_ins_same btm.get_ins_other btm.get_rem_same btm.get_rem_other

lemma bt_wf_fold_insert: "bt_wf m \<Longrightarrow> bt_wf (fold (\<lambda>(k, v) m. bt_insert k v m) es m)"
  by (induction es arbitrary: m) auto

lemma bt_wf_collect [simp]: "bt_wf (bt_collect es)"
  by (simp add: bt_collect_def bt_wf_fold_insert)

lemma bt_get_fold_insert:
  "bt_get (fold (\<lambda>(k, v) m. bt_insert k v m) es m) k =
     (case map_of (rev es) k of None \<Rightarrow> bt_get m k | Some v \<Rightarrow> Some v)"
  by (induction es arbitrary: m) (auto simp: bt_get_insert map_add_def split: option.splits)

lemma bt_get_collect: "bt_get (bt_collect es) k = map_of (rev es) k"
  by (auto simp: bt_collect_def bt_get_fold_insert split: option.splits)

lemma bt_collect_wf_id: "bt_wf m \<Longrightarrow> bt_collect m = m"
proof (rule bt_wf_ext)
  assume m: "bt_wf m"
  then have "distinct (map fst (rev m))" by (simp add: bt_wf_distinct rev_map [symmetric])
  then have "map_of (rev m) k = Some v \<longleftrightarrow> bt_get m k = Some v" for k v
    using m by (simp add: bt_get_Some_iff)
  then have "map_of (rev m) k = bt_get m k" for k
    by (metis option.exhaust)
  then show "bt_get (bt_collect m) = bt_get m" by (simp add: fun_eq_iff bt_get_collect)
qed simp_all

subsection \<open>Sets\<close>

definition bs_wf :: "'a::linorder btree_set \<Rightarrow> bool" where
  "bs_wf s \<longleftrightarrow> sorted_wrt (<) s"

definition bs_contains :: "'a btree_set \<Rightarrow> 'a \<Rightarrow> bool" where
  "bs_contains s x \<longleftrightarrow> x \<in> set s"

fun bs_insert :: "'a::linorder \<Rightarrow> 'a btree_set \<Rightarrow> 'a btree_set" where
  "bs_insert x [] = [x]"
| "bs_insert x (y # s) = (if x < y then x # y # s else if x = y then y # s else y # bs_insert x s)"

definition bs_extend :: "'a::linorder btree_set \<Rightarrow> 'a list \<Rightarrow> 'a btree_set" where
  "bs_extend s xs = fold bs_insert xs s"

definition bs_collect :: "'a::linorder list \<Rightarrow> 'a btree_set" where
  "bs_collect xs = bs_extend [] xs"

definition bs_difference :: "'a btree_set \<Rightarrow> 'a btree_set \<Rightarrow> 'a btree_set" where
  "bs_difference s t = filter (\<lambda>x. x \<notin> set t) s"

text \<open>The contract of an ordered set, again with a canonical representation.\<close>

locale ordered_set =
  fixes inv :: "'s \<Rightarrow> bool"
    and els :: "'s \<Rightarrow> 'a set"
    and ins :: "'a \<Rightarrow> 's \<Rightarrow> 's"
    and dif :: "'s \<Rightarrow> 's \<Rightarrow> 's"
  assumes inv_ins: "inv s \<Longrightarrow> inv (ins x s)"
    and inv_dif: "inv s \<Longrightarrow> inv (dif s t)"
    and els_ins: "inv s \<Longrightarrow> els (ins x s) = insert x (els s)"
    and els_dif: "els (dif s t) = els s - els t"
    and set_ext: "inv s \<Longrightarrow> inv t \<Longrightarrow> els s = els t \<Longrightarrow> s = t"
begin

lemma ins_member: "inv s \<Longrightarrow> x \<in> els s \<Longrightarrow> ins x s = s"
  by (rule set_ext) (auto simp: inv_ins els_ins)

lemma ins_commute: "inv s \<Longrightarrow> ins x (ins y s) = ins y (ins x s)"
  by (rule set_ext) (auto simp: inv_ins els_ins)

lemma dif_disjoint: "inv s \<Longrightarrow> els s \<inter> els t = {} \<Longrightarrow> dif s t = s"
  by (rule set_ext) (auto simp: inv_dif els_dif)

lemma dif_dif: "inv s \<Longrightarrow> dif (dif s t) u = dif (dif s u) t"
  by (rule set_ext) (auto simp: inv_dif els_dif)

end

lemma bs_wf_Nil [simp]: "bs_wf []"
  by (simp add: bs_wf_def)

lemma bs_wf_Cons [simp]: "bs_wf (x # s) \<longleftrightarrow> (\<forall>y \<in> set s. x < y) \<and> bs_wf s"
  by (simp add: bs_wf_def)

lemma set_bs_insert [simp]: "set (bs_insert x s) = insert x (set s)"
  by (induction x s rule: bs_insert.induct) auto

lemma bs_wf_insert [simp]: "bs_wf s \<Longrightarrow> bs_wf (bs_insert x s)"
  by (induction x s rule: bs_insert.induct) (auto dest: order.strict_trans)

lemma bs_wf_difference [simp]: "bs_wf s \<Longrightarrow> bs_wf (bs_difference s t)"
  by (simp add: bs_wf_def bs_difference_def sorted_wrt_filter)

lemma set_bs_difference [simp]: "set (bs_difference s t) = set s - set t"
  by (auto simp: bs_difference_def)

lemma bs_wf_ext: "bs_wf s \<Longrightarrow> bs_wf t \<Longrightarrow> set s = set t \<Longrightarrow> s = t"
  by (simp add: bs_wf_def strict_sorted_iff sorted_distinct_set_unique)

interpretation bts: ordered_set "bs_wf :: 'a::linorder btree_set \<Rightarrow> bool" set bs_insert bs_difference
  by unfold_locales (auto intro: bs_wf_ext)

lemma set_bs_extend [simp]: "set (bs_extend s xs) = set s \<union> set xs"
  by (induction xs arbitrary: s) (auto simp: bs_extend_def)

lemma bs_wf_extend [simp]: "bs_wf s \<Longrightarrow> bs_wf (bs_extend s xs)"
  by (induction xs arbitrary: s) (auto simp: bs_extend_def)

lemma set_bs_collect [simp]: "set (bs_collect xs) = set xs"
  by (simp add: bs_collect_def)

lemma bs_wf_collect [simp]: "bs_wf (bs_collect xs)"
  by (simp add: bs_collect_def)

lemma bs_extend_idem: "bs_wf s \<Longrightarrow> set xs \<subseteq> set s \<Longrightarrow> bs_extend s xs = s"
  by (rule bs_wf_ext) auto

lemma bs_extend_nonempty: "xs \<noteq> [] \<or> s \<noteq> [] \<Longrightarrow> bs_extend s xs \<noteq> []"
  by (metis set_bs_extend Un_empty set_empty)

lemma bs_collect_wf_id: "bs_wf s \<Longrightarrow> bs_collect s = s"
  by (rule bs_wf_ext) auto

end
