(* ===== verification/Attr_Value.thy ===== *)
theory Attr_Value
  imports BTree
begin

text \<open>
  The data model of \<open>crates/core/src/types\<close>: attribute values, items and key schemas, with the
  well-formedness that the Rust types guarantee by construction (ordered maps and sets) and the one
  that the wire decoder and the update evaluator keep (no empty set).
\<close>

datatype AttributeValue =
    AV_S string
  | AV_N string
  | AV_B "u8 list"
  | AV_SS "string btree_set"
  | AV_NS "string btree_set"
  | AV_BS "u8 list btree_set"
  | AV_Bool bool
  | AV_Null
  | AV_L "AttributeValue list"
  | AV_M "(string \<times> AttributeValue) list"

type_synonym Item = "(string, AttributeValue) btree_map"

text \<open>\<open>attribute_type_code\<close> of the resolver.\<close>

fun attribute_type_code :: "AttributeValue \<Rightarrow> string" where
  "attribute_type_code (AV_S _) = ''S''"
| "attribute_type_code (AV_N _) = ''N''"
| "attribute_type_code (AV_B _) = ''B''"
| "attribute_type_code (AV_Bool _) = ''BOOL''"
| "attribute_type_code AV_Null = ''NULL''"
| "attribute_type_code (AV_L _) = ''L''"
| "attribute_type_code (AV_M _) = ''M''"
| "attribute_type_code (AV_SS _) = ''SS''"
| "attribute_type_code (AV_NS _) = ''NS''"
| "attribute_type_code (AV_BS _) = ''BS''"

text \<open>
  Well-formed values: every set is a non-empty ordered set, every map an ordered map, at every level.
\<close>

fun av_wf :: "AttributeValue \<Rightarrow> bool" where
  "av_wf (AV_SS s) \<longleftrightarrow> bs_wf s \<and> s \<noteq> []"
| "av_wf (AV_NS s) \<longleftrightarrow> bs_wf s \<and> s \<noteq> []"
| "av_wf (AV_BS s) \<longleftrightarrow> bs_wf s \<and> s \<noteq> []"
| "av_wf (AV_L l) \<longleftrightarrow> (\<forall>v \<in> set l. av_wf v)"
| "av_wf (AV_M m) \<longleftrightarrow> bt_wf m \<and> (\<forall>e \<in> set m. av_wf (snd e))"
| "av_wf _ \<longleftrightarrow> True"

definition item_wf :: "Item \<Rightarrow> bool" where
  "item_wf m \<longleftrightarrow> bt_wf m \<and> (\<forall>e \<in> set m. av_wf (snd e))"

lemma av_wf_M [simp]: "av_wf (AV_M m) \<longleftrightarrow> item_wf m"
  by (simp add: item_wf_def)

declare av_wf.simps(5) [simp del]

lemma item_wf_bt: "item_wf m \<Longrightarrow> bt_wf m"
  by (simp add: item_wf_def)

lemma item_wf_Nil [simp]: "item_wf []"
  by (simp add: item_wf_def)

lemma item_wf_get: "item_wf m \<Longrightarrow> bt_get m k = Some v \<Longrightarrow> av_wf v"
  by (force simp: item_wf_def dest: bt_get_SomeD)

lemma item_wf_insert [intro]: "item_wf m \<Longrightarrow> av_wf v \<Longrightarrow> item_wf (bt_insert k v m)"
  using set_bt_insert_subset [of k v m] by (auto simp: item_wf_def)

lemma item_wf_remove [intro]: "item_wf m \<Longrightarrow> item_wf (bt_remove k m)"
  by (auto simp: item_wf_def)

lemma av_wf_list_update: "av_wf (AV_L l) \<Longrightarrow> av_wf v \<Longrightarrow> av_wf (AV_L (l[i := v]))"
  by (auto dest: set_update_subset_insert [THEN subsetD])

subsection \<open>Key schemas\<close>

datatype KeyType = Hash | Range

record KeySchemaElement =
  ks_attribute_name :: string
  ks_key_type :: KeyType

datatype ScalarAttributeType = Scalar_S | Scalar_N | Scalar_B

record AttributeDefinition =
  ad_attribute_name :: string
  ad_attribute_type :: ScalarAttributeType

definition hash_key_elements :: "KeySchemaElement list \<Rightarrow> KeySchemaElement list" where
  "hash_key_elements key_schema = filter (\<lambda>ks. ks_key_type ks = Hash) key_schema"

definition range_key_elements :: "KeySchemaElement list \<Rightarrow> KeySchemaElement list" where
  "range_key_elements key_schema = filter (\<lambda>ks. ks_key_type ks = Range) key_schema"

definition is_multipart_key_schema :: "KeySchemaElement list \<Rightarrow> bool" where
  "is_multipart_key_schema key_schema \<longleftrightarrow>
     (let hash_count = length (filter (\<lambda>ks. ks_key_type ks = Hash) key_schema);
          range_count = length (filter (\<lambda>ks. ks_key_type ks = Range) key_schema)
      in hash_count > 1 \<or> range_count > 1)"

end
