(* ===== verification/DynamoDb_Error.thy ===== *)
theory DynamoDb_Error
  imports Attr_Value
begin

text \<open>
  The error values of \<open>crates/core/src/error/mod.rs\<close> and their wire projections: HTTP status code,
  \<open>__type\<close> string and message.
\<close>

record CancellationReason =
  cr_code :: string
  cr_message :: "string option"
  cr_item :: "Item option"

datatype DynamoDbError =
    ValidationException string
  | ResourceNotFoundException string
  | BackupNotFoundException string
  | BackupInUseException string
  | ResourceInUseException string
  | TableAlreadyExistsException string
  | TableInUseException string
  | TableNotFoundException string
  | LimitExceededException string
  | ConditionalCheckFailedException string "Item option"
  | TransactionCanceledException string "CancellationReason list"
  | IdempotentParameterMismatchException string
  | SerializationException string
  | UnknownOperationException string
  | InternalServerError string
  | AccessDeniedException string
  | MissingAuthenticationToken string
  | IncompleteSignature string
  | UnrecognizedClientException string
  | ExpiredTokenException string
  | ExpiredIteratorException string
  | ContinuousBackupsUnavailableException string
  | PointInTimeRecoveryUnavailableException string
  | ServiceUnavailable string
  | TransactionConflictException string
  | ProvisionedThroughputExceededException string
  | ThrottlingException string
  | RequestLimitExceeded string
  | RequestEntityTooLargeException string
  | MalformedHttpRequestException string
  | TransactionInProgressException string
  | ItemCollectionSizeLimitExceededException string
  | RequestTimeoutException string
  | InvalidSignatureException string

definition status_code :: "DynamoDbError \<Rightarrow> nat" where
  "status_code e = (case e of
     ValidationException _ \<Rightarrow> 400
   | ResourceNotFoundException _ \<Rightarrow> 400
   | BackupNotFoundException _ \<Rightarrow> 400
   | BackupInUseException _ \<Rightarrow> 400
   | ResourceInUseException _ \<Rightarrow> 400
   | TableAlreadyExistsException _ \<Rightarrow> 400
   | TableInUseException _ \<Rightarrow> 400
   | TableNotFoundException _ \<Rightarrow> 400
   | LimitExceededException _ \<Rightarrow> 400
   | ConditionalCheckFailedException _ _ \<Rightarrow> 400
   | TransactionCanceledException _ _ \<Rightarrow> 400
   | IdempotentParameterMismatchException _ \<Rightarrow> 400
   | SerializationException _ \<Rightarrow> 400
   | UnknownOperationException _ \<Rightarrow> 400
   | InternalServerError _ \<Rightarrow> 500
   | AccessDeniedException _ \<Rightarrow> 400
   | MissingAuthenticationToken _ \<Rightarrow> 400
   | IncompleteSignature _ \<Rightarrow> 400
   | UnrecognizedClientException _ \<Rightarrow> 400
   | ExpiredTokenException _ \<Rightarrow> 400
   | ExpiredIteratorException _ \<Rightarrow> 400
   | ContinuousBackupsUnavailableException _ \<Rightarrow> 400
   | PointInTimeRecoveryUnavailableException _ \<Rightarrow> 400
   | ServiceUnavailable _ \<Rightarrow> 503
   | TransactionConflictException _ \<Rightarrow> 400
   | ProvisionedThroughputExceededException _ \<Rightarrow> 400
   | ThrottlingException _ \<Rightarrow> 400
   | RequestLimitExceeded _ \<Rightarrow> 400
   | RequestEntityTooLargeException _ \<Rightarrow> 413
   | MalformedHttpRequestException _ \<Rightarrow> 400
   | TransactionInProgressException _ \<Rightarrow> 400
   | ItemCollectionSizeLimitExceededException _ \<Rightarrow> 400
   | RequestTimeoutException _ \<Rightarrow> 408
   | InvalidSignatureException _ \<Rightarrow> 400)"

definition error_type :: "DynamoDbError \<Rightarrow> string" where
  "error_type e = (case e of
     ValidationException _ \<Rightarrow> ''ValidationException''
   | ResourceNotFoundException _ \<Rightarrow> ''ResourceNotFoundException''
   | BackupNotFoundException _ \<Rightarrow> ''BackupNotFoundException''
   | BackupInUseException _ \<Rightarrow> ''BackupInUseException''
   | ResourceInUseException _ \<Rightarrow> ''ResourceInUseException''
   | TableAlreadyExistsException _ \<Rightarrow> ''TableAlreadyExistsException''
   | TableInUseException _ \<Rightarrow> ''TableInUseException''
   | TableNotFoundException _ \<Rightarrow> ''TableNotFoundException''
   | LimitExceededException _ \<Rightarrow> ''LimitExceededException''
   | ConditionalCheckFailedException _ _ \<Rightarrow> ''ConditionalCheckFailedException''
   | TransactionCanceledException _ _ \<Rightarrow> ''TransactionCanceledException''
   | IdempotentParameterMismatchException _ \<Rightarrow> ''IdempotentParameterMismatchException''
   | SerializationException _ \<Rightarrow> ''SerializationException''
   | UnknownOperationException _ \<Rightarrow> ''UnknownOperationException''
   | InternalServerError _ \<Rightarrow> ''InternalServerError''
   | AccessDeniedException _ \<Rightarrow> ''AccessDeniedException''
   | MissingAuthenticationToken _ \<Rightarrow> ''MissingAuthenticationToken''
   | IncompleteSignature _ \<Rightarrow> ''IncompleteSignature''
   | UnrecognizedClientException _ \<Rightarrow> ''UnrecognizedClientException''
   | ExpiredTokenException _ \<Rightarrow> ''ExpiredTokenException''
   | ExpiredIteratorException _ \<Rightarrow> ''ExpiredIteratorException''
   | ContinuousBackupsUnavailableException _ \<Rightarrow> ''ContinuousBackupsUnavailableException''
   | PointInTimeRecoveryUnavailableException _ \<Rightarrow> ''PointInTimeRecoveryUnavailableException''
   | ServiceUnavailable _ \<Rightarrow> ''ServiceUnavailable''
   | TransactionConflictException _ \<Rightarrow> ''TransactionConflictException''
   | ProvisionedThroughputExceededException _ \<Rightarrow> ''ProvisionedThroughputExceededException''
   | ThrottlingException _ \<Rightarrow> ''ThrottlingException''
   | RequestLimitExceeded _ \<Rightarrow> ''RequestLimitExceeded''
   | RequestEntityTooLargeException _ \<Rightarrow> ''RequestEntityTooLargeException''
   | MalformedHttpRequestException _ \<Rightarrow> ''MalformedHttpRequestException''
   | TransactionInProgressException _ \<Rightarrow> ''TransactionInProgressException''
   | ItemCollectionSizeLimitExceededException _ \<Rightarrow> ''ItemCollectionSizeLimitExceededException''
   | RequestTimeoutException _ \<Rightarrow> ''RequestTimeoutException''
   | InvalidSignatureException _ \<Rightarrow> ''InvalidSignatureException'')"

definition full_error_type :: "DynamoDbError \<Rightarrow> string" where
  "full_error_type e =
     (case e of
        ValidationException _ \<Rightarrow> ''com.amazon.coral.validate#''
      | SerializationException _ \<Rightarrow> ''com.amazon.coral.service#''
      | UnknownOperationException _ \<Rightarrow> ''com.amazon.coral.service#''
      | MissingAuthenticationToken _ \<Rightarrow> ''com.amazon.coral.service#''
      | IncompleteSignature _ \<Rightarrow> ''com.amazon.coral.service#''
      | InvalidSignatureException _ \<Rightarrow> ''com.amazon.coral.service#''
      | _ \<Rightarrow> ''com.amazonaws.dynamodb.v20120810#'') @ error_type e"

definition error_message_of :: "DynamoDbError \<Rightarrow> string" where
  "error_message_of e = (case e of
     ValidationException m \<Rightarrow> m
   | ResourceNotFoundException m \<Rightarrow> m
   | BackupNotFoundException m \<Rightarrow> m
   | BackupInUseException m \<Rightarrow> m
   | ResourceInUseException m \<Rightarrow> m
   | TableAlreadyExistsException m \<Rightarrow> m
   | TableInUseException m \<Rightarrow> m
   | TableNotFoundException m \<Rightarrow> m
   | LimitExceededException m \<Rightarrow> m
   | ConditionalCheckFailedException m _ \<Rightarrow> m
   | TransactionCanceledException m _ \<Rightarrow> m
   | IdempotentParameterMismatchException m \<Rightarrow> m
   | SerializationException m \<Rightarrow> m
   | UnknownOperationException m \<Rightarrow> m
   | InternalServerError m \<Rightarrow> m
   | AccessDeniedException m \<Rightarrow> m
   | MissingAuthenticationToken m \<Rightarrow> m
   | IncompleteSignature m \<Rightarrow> m
   | UnrecognizedClientException m \<Rightarrow> m
   | ExpiredTokenException m \<Rightarrow> m
   | ExpiredIteratorException m \<Rightarrow> m
   | ContinuousBackupsUnavailableException m \<Rightarrow> m
   | PointInTimeRecoveryUnavailableException m \<Rightarrow> m
   | ServiceUnavailable m \<Rightarrow> m
   | TransactionConflictException m \<Rightarrow> m
   | ProvisionedThroughputExceededException m \<Rightarrow> m
   | ThrottlingException m \<Rightarrow> m
   | RequestLimitExceeded m \<Rightarrow> m
   | RequestEntityTooLargeException m \<Rightarrow> m
   | MalformedHttpRequestException m \<Rightarrow> m
   | TransactionInProgressException m \<Rightarrow> m
   | ItemCollectionSizeLimitExceededException m \<Rightarrow> m
   | RequestTimeoutException m \<Rightarrow> m
   | InvalidSignatureException m \<Rightarrow> m)"

definition cancellation_reasons :: "DynamoDbError \<Rightarrow> CancellationReason list option" where
  "cancellation_reasons e = (case e of TransactionCanceledException _ rs \<Rightarrow> Some rs | _ \<Rightarrow> None)"

definition condition_check_item :: "DynamoDbError \<Rightarrow> Item option" where
  "condition_check_item e = (case e of ConditionalCheckFailedException _ item \<Rightarrow> item | _ \<Rightarrow> None)"

text \<open>The result type of the fallible operations of the core crate.\<close>

type_synonym 'a ddb_result = "DynamoDbError + 'a"

abbreviation validation_err :: "string \<Rightarrow> DynamoDbError" where
  "validation_err msg \<equiv> ValidationException msg"

text \<open>\<open>__type\<close> names the variant: an SDK that strips the prefix at the hash sign can tell them apart.\<close>

lemma hash_not_in_error_type: "CHR ''#'' \<notin> set (error_type e)"
  by (cases e) (simp_all add: error_type_def)

lemma status_code_server_error:
  "500 \<le> status_code e \<longleftrightarrow> (\<exists>m. e = InternalServerError m \<or> e = ServiceUnavailable m)"
  by (cases e) (simp_all add: status_code_def)

end
