(* ===== verification/Expr_Ast.thy ===== *)
theory Expr_Ast
  imports DynamoDb_Error
begin

text \<open>
  The abstract syntax of \<open>crates/core/src/expression/ast.rs\<close> and the expression kinds of \<open>kind.rs\<close>.
\<close>

datatype PathElement = P_Attribute string | P_Index nat

datatype CompareOp = Op_Eq | Op_Ne | Op_Lt | Op_Le | Op_Gt | Op_Ge

datatype ArithOp = Arith_Add | Arith_Sub

datatype Expr =
    E_Path "PathElement list"
  | E_Placeholder string
  | E_Compare Expr CompareOp Expr
  | E_And Expr Expr
  | E_Or Expr Expr
  | E_Not Expr
  | E_Function string "Expr list"
  | E_Arithmetic Expr ArithOp Expr
  | E_Between Expr Expr Expr
  | E_In Expr "Expr list"

datatype UpdateAction =
    U_Set "PathElement list" Expr
  | U_Remove "PathElement list"
  | U_Add "PathElement list" Expr
  | U_Delete "PathElement list" Expr

fun action_removes_only :: "UpdateAction \<Rightarrow> bool" where
  "action_removes_only (U_Remove _) = True"
| "action_removes_only (U_Delete _ _) = True"
| "action_removes_only _ = False"

definition removes_only :: "UpdateAction list \<Rightarrow> bool" where
  "removes_only actions \<longleftrightarrow> actions \<noteq> [] \<and> list_all action_removes_only actions"

datatype ExpressionKind = K_Projection | K_Condition | K_Filter | K_KeyCondition | K_Update

fun kind_as_str :: "ExpressionKind \<Rightarrow> string" where
  "kind_as_str K_Projection = ''ProjectionExpression''"
| "kind_as_str K_Condition = ''ConditionExpression''"
| "kind_as_str K_Filter = ''FilterExpression''"
| "kind_as_str K_KeyCondition = ''KeyConditionExpression''"
| "kind_as_str K_Update = ''UpdateExpression''"

fun size_error_includes_length :: "ExpressionKind \<Rightarrow> bool" where
  "size_error_includes_length K_Filter = True"
| "size_error_includes_length K_Condition = True"
| "size_error_includes_length _ = False"

end
