(* ===== verification/Tokenizer.thy ===== *)
theory Tokenizer
  imports Expr_Ast
begin

text \<open>
  \<open>crates/core/src/expression/tokenizer.rs\<close>: the lexer of all expression kinds.  The byte index \<open>i\<close> of
  the Rust loop is represented by the unread suffix \<open>input[i..]\<close>; where an error message needs the
  index, it is the difference of the lengths.  \<open>tokenize_with_limit\<close> and \<open>tokenize_for\<close> have the same
  loop and differ in three error messages, which are the \<open>lex_errors\<close> argument here.
\<close>

datatype Token =
    T_Ident string
  | T_NameRef string
  | T_Placeholder string
  | T_Eq | T_Ne | T_Lt | T_Le | T_Gt | T_Ge | T_Plus | T_Minus | T_Comma | T_Dot
  | T_LBracket | T_RBracket | T_LParen | T_RParen
  | T_And | T_Or | T_Not | T_Between | T_In | T_Set | T_Remove | T_Add | T_Delete

definition is_ident_start :: "char \<Rightarrow> bool" where
  "is_ident_start c \<longleftrightarrow> is_ascii_alphabetic c \<or> c = CHR ''_''"

definition is_ident_char :: "char \<Rightarrow> bool" where
  "is_ident_char c \<longleftrightarrow> is_ascii_alphanumeric c \<or> c = CHR ''_''"

definition keyword_or_ident :: "string \<Rightarrow> Token" where
  "keyword_or_ident word =
     (let w = to_ascii_uppercase word in
      if w = ''AND'' then T_And
      else if w = ''OR'' then T_Or
      else if w = ''NOT'' then T_Not
      else if w = ''SET'' then T_Set
      else if w = ''REMOVE'' then T_Remove
      else if w = ''BETWEEN'' then T_Between
      else if w = ''IN'' then T_In
      else if w = ''ADD'' then T_Add
      else if w = ''DELETE'' then T_Delete
      else T_Ident word)"

definition push_token :: "Token list \<Rightarrow> Token \<Rightarrow> nat \<Rightarrow> Token list ddb_result" where
  "push_token tokens token max_tokens =
     (if length tokens \<ge> max_tokens
      then Inl (validation_err (''Expression exceeds maximum token count ('' @ show_nat max_tokens @ '')''))
      else Inr (tokens @ [token]))"

record lex_errors =
  le_hash :: DynamoDbError
  le_colon :: DynamoDbError
  le_other :: "string \<Rightarrow> DynamoDbError"

definition is_ws :: "char \<Rightarrow> bool" where
  "is_ws c \<longleftrightarrow> c = CHR '' '' \<or> c = CHR 0x09 \<or> c = CHR 0x0A \<or> c = CHR 0x0D"

text \<open>The arms of the \<open>match\<close> that push one fixed token and advance by one byte.\<close>

definition single_char_token :: "char \<Rightarrow> Token option" where
  "single_char_token c =
     (if c = CHR ''('' then Some T_LParen
      else if c = CHR '')'' then Some T_RParen
      else if c = CHR ''['' then Some T_LBracket
      else if c = CHR '']'' then Some T_RBracket
      else if c = CHR '','' then Some T_Comma
      else if c = CHR ''.'' then Some T_Dot
      else if c = CHR ''+'' then Some T_Plus
      else if c = CHR ''-'' then Some T_Minus
      else if c = CHR ''='' then Some T_Eq
      else None)"

text \<open>
  The other arms of the \<open>match\<close>: the token that starts at the byte \<open>c\<close> and the unread suffix after it.
\<close>

definition lex_lt :: "string \<Rightarrow> Token \<times> string" where
  "lex_lt cs = (case cs of
     [] \<Rightarrow> (T_Lt, cs)
   | d # ds \<Rightarrow> if d = CHR ''>'' then (T_Ne, ds) else if d = CHR ''='' then (T_Le, ds) else (T_Lt, cs))"

definition lex_gt :: "string \<Rightarrow> Token \<times> string" where
  "lex_gt cs = (case cs of
     [] \<Rightarrow> (T_Gt, cs)
   | d # ds \<Rightarrow> if d = CHR ''='' then (T_Ge, ds) else (T_Gt, cs))"

definition lex_name :: "(string \<Rightarrow> Token) \<Rightarrow> DynamoDbError \<Rightarrow> string \<Rightarrow> (Token \<times> string) ddb_result" where
  "lex_name mk err cs =
     (let name = takeWhile is_ident_char cs
      in if name = [] then Inl err else Inr (mk name, dropWhile is_ident_char cs))"

definition next_token :: "lex_errors \<Rightarrow> char \<Rightarrow> string \<Rightarrow> (Token \<times> string) ddb_result" where
  "next_token E c cs =
     (case single_char_token c of
        Some t \<Rightarrow> Inr (t, cs)
      | None \<Rightarrow>
        if c = CHR ''<'' then Inr (lex_lt cs)
        else if c = CHR ''>'' then Inr (lex_gt cs)
        else if c = CHR ''#'' then lex_name T_NameRef (le_hash E) cs
        else if c = CHR '':'' then lex_name T_Placeholder (le_colon E) cs
        else if is_ident_start c then
          Inr (keyword_or_ident (c # takeWhile is_ident_char cs), dropWhile is_ident_char cs)
        else if is_ascii_digit c then
          Inr (T_Ident (c # takeWhile is_ascii_digit cs), dropWhile is_ascii_digit cs)
        else Inl (le_other E (c # cs)))"

lemma lex_lengths:
  "length (snd (lex_lt cs)) \<le> length cs"
  "length (snd (lex_gt cs)) \<le> length cs"
  "lex_name mk err cs = Inr (t, rest) \<Longrightarrow> length rest \<le> length cs"
  by (auto simp: lex_lt_def lex_gt_def lex_name_def Let_def length_dropWhile_le
      split: list.split if_splits)

lemma next_token_length: "next_token E c cs = Inr (t, rest) \<Longrightarrow> length rest \<le> length cs"
  using lex_lengths(1,2) [of cs] lex_lengths(3) [of _ _ cs t rest]
  unfolding next_token_def
  by (simp split: option.split_asm if_split_asm) (metis snd_conv length_dropWhile_le)+

function tokenize_loop :: "lex_errors \<Rightarrow> nat \<Rightarrow> Token list \<Rightarrow> string \<Rightarrow> Token list ddb_result" where
  "tokenize_loop E max_tokens tokens [] = Inr tokens"
| "tokenize_loop E max_tokens tokens (c # cs) =
     (if is_ws c then tokenize_loop E max_tokens tokens cs
      else bind_r (next_token E c cs) (\<lambda>(t, rest).
           bind_r (push_token tokens t max_tokens) (\<lambda>ts.
           tokenize_loop E max_tokens ts rest)))"
  by pat_completeness auto
termination
  by (relation "measure (\<lambda>(E, m, ts, s). length s)") (auto dest: next_token_length)

text \<open>Moving an index out to a character boundary, down for the start and up for the end.\<close>

fun floor_boundary :: "string \<Rightarrow> nat \<Rightarrow> nat" where
  "floor_boundary s 0 = 0"
| "floor_boundary s (Suc i) = (if is_char_boundary s (Suc i) then Suc i else floor_boundary s i)"

function ceil_boundary :: "string \<Rightarrow> nat \<Rightarrow> nat" where
  "ceil_boundary s i =
     (if length s \<le> i \<or> is_char_boundary s i then i else ceil_boundary s (Suc i))"
  by pat_completeness auto
termination
  by (relation "measure (\<lambda>(s, i). length s - i)") auto

declare ceil_boundary.simps [simp del]

text \<open>\<open>u8 as char\<close>, in UTF-8: the bytes from 128 on are the two-byte characters U+0080 to U+00FF.\<close>

definition latin1_char :: "char \<Rightarrow> string" where
  "latin1_char c = (let b = of_char c :: nat in
     if b < 128 then [c] else [char_of (192 + b div 64), char_of (128 + b mod 64)])"

definition invalid_char_err :: "string \<Rightarrow> string \<Rightarrow> DynamoDbError" where
  "invalid_char_err input rest =
     (let i = length input - length rest;
          ch = (if is_char_boundary input i then take (utf8_width (hd rest)) rest
                else latin1_char (hd rest));
          near_start = floor_boundary input (i - 5);
          near_end = ceil_boundary input (min (i + 5) (length input));
          near = take (near_end - near_start) (drop near_start input)
      in validation_err (''Syntax error; token: '' @ dquote @ ch @ dquote @ '', near: '' @ dquote @ near @ dquote))"

definition tokenize_with_limit :: "string \<Rightarrow> nat \<Rightarrow> Token list ddb_result" where
  "tokenize_with_limit input max_tokens =
     tokenize_loop
       \<lparr>le_hash = validation_err (''Invalid expression: empty name reference '' @ squote @ ''#'' @ squote),
        le_colon = validation_err (''Invalid expression: empty value placeholder '' @ squote @ '':'' @ squote),
        le_other = invalid_char_err input\<rparr> max_tokens [] input"

definition tokenize :: "string \<Rightarrow> Token list ddb_result" where
  "tokenize input = tokenize_with_limit input 4096"

definition invalid_char_err_for :: "ExpressionKind \<Rightarrow> string \<Rightarrow> string \<Rightarrow> DynamoDbError" where
  "invalid_char_err_for kind input rest =
     (let i = length input - length rest;
          ch_len = utf8_width (hd rest);
          ch = take ch_len rest;
          near_end = ceil_boundary input (min (i + ch_len + 1) (length input));
          near = take (near_end - i) rest
      in validation_err (''Invalid '' @ kind_as_str kind @ '': Syntax error; token: '' @ dquote @ ch @ dquote @
           '', near: '' @ dquote @ near @ dquote))"

definition tokenize_for :: "string \<Rightarrow> nat \<Rightarrow> ExpressionKind \<Rightarrow> Token list ddb_result" where
  "tokenize_for input max_tokens kind =
     (if input = [] then
        Inl (validation_err (''Invalid '' @ kind_as_str kind @ '': The expression can not be empty;''))
      else
        tokenize_loop
          \<lparr>le_hash = validation_err (''Invalid '' @ kind_as_str kind @ '': Syntax error; token: '' @ dquote @ ''#'' @
             dquote @ '', near: '' @ dquote @ ''#'' @ dquote),
           le_colon = validation_err (''Invalid '' @ kind_as_str kind @ '': Syntax error; token: '' @ dquote @ '':'' @
             dquote @ '', near: '' @ dquote @ '':'' @ dquote),
           le_other = invalid_char_err_for kind input\<rparr> max_tokens [] input)"

text \<open>\<open>token_display_text\<close> of \<open>update_parser.rs\<close>: the text of a token.\<close>

fun token_display_text :: "Token \<Rightarrow> string" where
  "token_display_text (T_Ident s) = s"
| "token_display_text (T_NameRef s) = ''#'' @ s"
| "token_display_text (T_Placeholder s) = '':'' @ s"
| "token_display_text T_Eq = ''=''"
| "token_display_text T_Ne = ''<>''"
| "token_display_text T_Lt = ''<''"
| "token_display_text T_Le = ''<=''"
| "token_display_text T_Gt = ''>''"
| "token_display_text T_Ge = ''>=''"
| "token_display_text T_Plus = ''+''"
| "token_display_text T_Minus = ''-''"
| "token_display_text T_Comma = '',''"
| "token_display_text T_Dot = ''.''"
| "token_display_text T_LBracket = ''[''"
| "token_display_text T_RBracket = '']''"
| "token_display_text T_LParen = ''(''"
| "token_display_text T_RParen = '')''"
| "token_display_text T_And = ''AND''"
| "token_display_text T_Or = ''OR''"
| "token_display_text T_Not = ''NOT''"
| "token_display_text T_Between = ''BETWEEN''"
| "token_display_text T_In = ''IN''"
| "token_display_text T_Set = ''SET''"
| "token_display_text T_Remove = ''REMOVE''"
| "token_display_text T_Add = ''ADD''"
| "token_display_text T_Delete = ''DELETE''"


subsection \<open>Tokens the lexer produces\<close>

definition ident_text :: "string \<Rightarrow> bool" where
  "ident_text s \<longleftrightarrow> s \<noteq> [] \<and> list_all is_ident_char s"

text \<open>
  The tokens that can come out of the lexer: an identifier is a run of digits, or a word that is no
  keyword; references and placeholders have a non-empty name.
\<close>

fun tok_ok :: "Token \<Rightarrow> bool" where
  "tok_ok (T_Ident s) \<longleftrightarrow> s \<noteq> [] \<and> (list_all is_ascii_digit s \<or>
     (is_ident_start (hd s) \<and> list_all is_ident_char s \<and> keyword_or_ident s = T_Ident s))"
| "tok_ok (T_NameRef s) \<longleftrightarrow> ident_text s"
| "tok_ok (T_Placeholder s) \<longleftrightarrow> ident_text s"
| "tok_ok _ \<longleftrightarrow> True"

lemma list_all_takeWhile [simp]: "list_all P (takeWhile P xs)"
  by (induction xs) auto

lemma is_ident_start_char: "is_ident_start c \<Longrightarrow> is_ident_char c"
  by (auto simp: is_ident_start_def is_ident_char_def is_ascii_alphanumeric_def)

lemma keyword_or_ident_cases:
  "keyword_or_ident w = T_Ident w \<or> (\<forall>s. keyword_or_ident w \<noteq> T_Ident s) \<and> tok_ok (keyword_or_ident w)"
  by (auto simp: keyword_or_ident_def Let_def)

lemma tok_ok_keyword_or_ident:
  "is_ident_start c \<Longrightarrow> list_all is_ident_char cs \<Longrightarrow> tok_ok (keyword_or_ident (c # cs))"
  using keyword_or_ident_cases [of "c # cs"] by (auto simp: is_ident_start_char)

lemma lex_ok:
  "tok_ok (fst (lex_lt cs))" "tok_ok (fst (lex_gt cs))"
  "lex_name T_NameRef err cs = Inr (t, rest) \<Longrightarrow> tok_ok t"
  "lex_name T_Placeholder err cs = Inr (t, rest) \<Longrightarrow> tok_ok t"
  by (auto simp: lex_lt_def lex_gt_def lex_name_def Let_def ident_text_def split: list.split if_splits)

lemma single_char_token_ok: "single_char_token c = Some t \<Longrightarrow> tok_ok t"
  by (auto simp: single_char_token_def split: if_splits)

lemma next_token_ok: "next_token E c cs = Inr (t, rest) \<Longrightarrow> tok_ok t"
  using lex_ok(1,2) [of cs] lex_ok(3,4) [of _ cs t rest]
  unfolding next_token_def
  by (simp split: option.split_asm if_split_asm)
    (auto simp: single_char_token_ok tok_ok_keyword_or_ident)

lemma push_token_Inr: "push_token ts t n = Inr us \<longleftrightarrow> length ts < n \<and> us = ts @ [t]"
  by (auto simp: push_token_def)

lemma tokenize_loop_extends:
  "tokenize_loop E n ts s = Inr us \<Longrightarrow> length ts \<le> n \<Longrightarrow>
     \<exists>vs. us = ts @ vs \<and> length us \<le> n \<and> list_all tok_ok vs"
proof (induction E n ts s arbitrary: us rule: tokenize_loop.induct)
  case (2 E n ts c cs)
  show ?case
  proof (cases "is_ws c")
    case True
    with 2 show ?thesis by simp
  next
    case False
    with "2.prems" obtain t rest where t: "next_token E c cs = Inr (t, rest)" "length ts < n"
      "tokenize_loop E n (ts @ [t]) rest = Inr us"
      by (auto simp: push_token_Inr)
    have push: "push_token ts t n = Inr (ts @ [t])" using t(2) by (simp add: push_token_def)
    obtain vs where "us = (ts @ [t]) @ vs" "length us \<le> n" "list_all tok_ok vs"
      using "2.IH"(2) [OF False t(1) refl push t(3)] t(2) by auto
    with t(1) show ?thesis by (auto dest: next_token_ok)
  qed
qed auto

lemma next_token_error_free: "next_token E c cs = Inr p \<Longrightarrow> next_token E' c cs = Inr p"
proof -
  have "lex_name mk err cs = Inr p \<Longrightarrow> lex_name mk err' cs = Inr p" for mk err err'
    by (auto simp: lex_name_def Let_def split: if_splits)
  then show "next_token E c cs = Inr p \<Longrightarrow> next_token E' c cs = Inr p"
    unfolding next_token_def by (cases "single_char_token c") (simp_all split: if_split_asm)
qed

lemma tokenize_loop_error_free:
  "tokenize_loop E n ts s = Inr us \<Longrightarrow> tokenize_loop E' n ts s = Inr us"
proof (induction E n ts s arbitrary: us rule: tokenize_loop.induct)
  case (2 E n ts c cs)
  show ?case
  proof (cases "is_ws c")
    case True
    with 2 show ?thesis by simp
  next
    case False
    with "2.prems" obtain t rest where t: "next_token E c cs = Inr (t, rest)" "length ts < n"
      "tokenize_loop E n (ts @ [t]) rest = Inr us"
      by (auto simp: push_token_Inr)
    have push: "push_token ts t n = Inr (ts @ [t])" using t(2) by (simp add: push_token_def)
    have "tokenize_loop E' n (ts @ [t]) rest = Inr us"
      using "2.IH"(2) [OF False t(1) refl push t(3)] .
    with next_token_error_free [OF t(1), of E'] False push show ?thesis by simp
  qed
qed simp


subsection \<open>Rendering and lexing again\<close>

lemma is_ascii_alphabetic_of_char:
  "is_ascii_alphabetic c \<longleftrightarrow> (65 \<le> (of_char c :: nat) \<and> (of_char c :: nat) \<le> 90) \<or>
     (97 \<le> (of_char c :: nat) \<and> (of_char c :: nat) \<le> 122)"
  by (auto simp: is_ascii_alphabetic_def is_ascii_lowercase_def is_ascii_uppercase_def less_eq_char_def)

lemma is_ident_start_of_char:
  "is_ident_start c \<longleftrightarrow> (65 \<le> (of_char c :: nat) \<and> (of_char c :: nat) \<le> 90) \<or>
     (97 \<le> (of_char c :: nat) \<and> (of_char c :: nat) \<le> 122) \<or> c = CHR ''_''"
  by (simp add: is_ident_start_def is_ascii_alphabetic_of_char)

lemma is_ident_char_eq: "is_ident_char c \<longleftrightarrow> is_ident_start c \<or> is_ascii_digit c"
  by (auto simp: is_ident_char_def is_ident_start_def is_ascii_alphanumeric_def)

lemma special_no_ident:
  "\<forall>x \<in> set (CHR 0x09 # CHR 0x0A # CHR 0x0D # '' ()[],.+-=<>#:''). \<not> is_ident_char x"
  by (simp add: is_ident_char_eq is_ident_start_of_char is_ascii_digit_of_char)

lemma single_char_token_None: "c \<notin> set ''()[],.+-='' \<Longrightarrow> single_char_token c = None"
  by (simp add: single_char_token_def)

lemma ident_char_no_special:
  assumes "is_ident_char c"
  shows "single_char_token c = None" "\<not> is_ws c" "c \<noteq> CHR ''<''" "c \<noteq> CHR ''>''" "c \<noteq> CHR ''#''" "c \<noteq> CHR '':''"
proof -
  have c: "c \<notin> set (CHR 0x09 # CHR 0x0A # CHR 0x0D # '' ()[],.+-=<>#:'')"
    using assms special_no_ident by blast
  then show "single_char_token c = None" by (intro single_char_token_None) simp
  from c show "\<not> is_ws c" "c \<noteq> CHR ''<''" "c \<noteq> CHR ''>''" "c \<noteq> CHR ''#''" "c \<noteq> CHR '':''"
    by (simp_all add: is_ws_def)
qed

lemma digit_no_ident_start: "is_ascii_digit c \<Longrightarrow> \<not> is_ident_start c"
  by (auto simp: is_ident_start_of_char is_ascii_digit_of_char)

text \<open>What may follow a token's text: nothing, or a blank.\<close>

definition at_gap :: "string \<Rightarrow> bool" where
  "at_gap r \<longleftrightarrow> r = [] \<or> hd r = CHR '' ''"

lemma space_no_ident: "\<not> is_ident_char (CHR '' '')" "\<not> is_ascii_digit (CHR '' '')"
  by (simp_all add: is_ident_char_eq is_ident_start_of_char is_ascii_digit_of_char)

lemma takeWhile_gap:
  assumes "list_all P s" and "at_gap r" and "\<not> P (CHR '' '')"
  shows "takeWhile P (s @ r) = s" and "dropWhile P (s @ r) = r"
proof -
  have r: "takeWhile P r = []" "dropWhile P r = r"
    using assms(2,3) by (cases r; simp add: at_gap_def)+
  show "takeWhile P (s @ r) = s" "dropWhile P (s @ r) = r"
    using assms(1) r by (induction s) auto
qed

lemmas take_ident = takeWhile_gap [where P = is_ident_char, OF _ _ space_no_ident(1)]
lemmas take_digit = takeWhile_gap [where P = is_ascii_digit, OF _ _ space_no_ident(2)]

lemma next_token_word:
  assumes "is_ident_start c" and "list_all is_ident_char cs" and "at_gap r"
  shows "next_token E c (cs @ r) = Inr (keyword_or_ident (c # cs), r)"
  using ident_char_no_special [OF is_ident_start_char [OF assms(1)]] assms
  by (simp add: next_token_def take_ident)

lemma next_token_digits:
  assumes "is_ascii_digit c" and "list_all is_ascii_digit cs" and "at_gap r"
  shows "next_token E c (cs @ r) = Inr (T_Ident (c # cs), r)"
  using ident_char_no_special [of c] digit_no_ident_start [OF assms(1)] assms
  by (simp add: next_token_def take_digit is_ident_char_eq)

lemma next_token_ref:
  assumes "ident_text s" and "at_gap r"
  shows "next_token E (CHR ''#'') (s @ r) = Inr (T_NameRef s, r)"
    and "next_token E (CHR '':'') (s @ r) = Inr (T_Placeholder s, r)"
  using assms by (simp_all add: next_token_def single_char_token_def lex_name_def ident_text_def take_ident)

lemma next_token_display_ident:
  assumes "tok_ok (T_Ident s)" and "at_gap r"
  shows "\<exists>c cs. s = c # cs \<and> \<not> is_ws c \<and> next_token E c (cs @ r) = Inr (T_Ident s, r)"
proof -
  obtain c cs where s: "s = c # cs" using assms(1) by (cases s) auto
  show ?thesis
  proof (cases "list_all is_ascii_digit s")
    case True
    with s assms(2) show ?thesis
      by (auto simp: next_token_digits ident_char_no_special is_ident_char_eq)
  next
    case False
    with s assms show ?thesis
      by (auto simp: next_token_word ident_char_no_special is_ident_start_char)
  qed
qed

lemma keyword_display:
  "keyword_or_ident ''AND'' = T_And" "keyword_or_ident ''OR'' = T_Or" "keyword_or_ident ''NOT'' = T_Not"
  "keyword_or_ident ''BETWEEN'' = T_Between" "keyword_or_ident ''IN'' = T_In" "keyword_or_ident ''SET'' = T_Set"
  "keyword_or_ident ''REMOVE'' = T_Remove" "keyword_or_ident ''ADD'' = T_Add"
  "keyword_or_ident ''DELETE'' = T_Delete"
  by code_simp+

lemma next_token_keyword:
  assumes "w = c # cs" and "is_ident_start c" and "list_all is_ident_char cs" and "keyword_or_ident w = t"
    and "at_gap r"
  shows "\<exists>c cs. w = c # cs \<and> \<not> is_ws c \<and> next_token E c (cs @ r) = Inr (t, r)"
  using assms next_token_word [OF assms(2,3,5)] ident_char_no_special(2) [OF is_ident_start_char [OF assms(2)]]
  by auto

lemma next_token_symbol:
  "next_token E (CHR ''='') r = Inr (T_Eq, r)" "next_token E (CHR ''+'') r = Inr (T_Plus, r)"
  "next_token E (CHR ''-'') r = Inr (T_Minus, r)" "next_token E (CHR '','') r = Inr (T_Comma, r)"
  "next_token E (CHR ''.'') r = Inr (T_Dot, r)" "next_token E (CHR ''['') r = Inr (T_LBracket, r)"
  "next_token E (CHR '']'') r = Inr (T_RBracket, r)" "next_token E (CHR ''('') r = Inr (T_LParen, r)"
  "next_token E (CHR '')'') r = Inr (T_RParen, r)"
  "next_token E (CHR ''<'') (CHR ''>'' # r) = Inr (T_Ne, r)" "next_token E (CHR ''<'') (CHR ''='' # r) = Inr (T_Le, r)"
  "next_token E (CHR ''>'') (CHR ''='' # r) = Inr (T_Ge, r)"
  by (simp_all add: next_token_def single_char_token_def lex_lt_def lex_gt_def)

lemma next_token_symbol_gap:
  assumes "at_gap r"
  shows "next_token E (CHR ''<'') r = Inr (T_Lt, r)" and "next_token E (CHR ''>'') r = Inr (T_Gt, r)"
  using assms by (auto simp: next_token_def single_char_token_def lex_lt_def lex_gt_def at_gap_def split: list.split)

definition display_ok :: "lex_errors \<Rightarrow> Token \<Rightarrow> string \<Rightarrow> bool" where
  "display_ok E t r \<longleftrightarrow>
     (\<exists>c cs. token_display_text t = c # cs \<and> \<not> is_ws c \<and> next_token E c (cs @ r) = Inr (t, r))"

lemma display_ok_symbol:
  assumes "at_gap r" and "t \<in> {T_Eq, T_Ne, T_Lt, T_Le, T_Gt, T_Ge, T_Plus, T_Minus, T_Comma, T_Dot, T_LBracket,
    T_RBracket, T_LParen, T_RParen}"
  shows "display_ok E t r"
  using assms(2)
  by (auto simp: display_ok_def is_ws_def next_token_symbol next_token_symbol_gap [OF assms(1)])

lemma display_ok_keyword:
  assumes "at_gap r" and "t \<in> {T_And, T_Or, T_Not, T_Between, T_In, T_Set, T_Remove, T_Add, T_Delete}"
  shows "display_ok E t r"
proof -
  have up: "is_ident_start c \<and> is_ident_char c" if "c \<in> set ''ABDEILMNORSTVW''" for c
    using that by (auto simp: is_ident_char_eq is_ident_start_of_char)
  have "token_display_text t \<noteq> [] \<and> set (token_display_text t) \<subseteq> set ''ABDEILMNORSTVW'' \<and>
      keyword_or_ident (token_display_text t) = t"
    using assms(2) by (elim insertE emptyE) (simp_all add: keyword_display)
  moreover then obtain c cs where w: "token_display_text t = c # cs" by (cases "token_display_text t") auto
  ultimately have "is_ident_start c" "list_all is_ident_char cs" "keyword_or_ident (c # cs) = t"
    using up unfolding list_all_iff by auto
  from next_token_keyword [OF w this(1,2) _ assms(1), of t] this(3) w show ?thesis
    by (simp add: display_ok_def)
qed

lemma next_token_display: "tok_ok t \<Longrightarrow> at_gap r \<Longrightarrow> display_ok E t r"
proof (cases t)
  case (T_Ident s)
  assume "tok_ok t" and r: "at_gap r"
  then show ?thesis using next_token_display_ident [OF _ r, of s E] T_Ident by (simp add: display_ok_def)
next
  case (T_NameRef s)
  assume "tok_ok t" and r: "at_gap r"
  then show ?thesis using next_token_ref(1) [OF _ r] T_NameRef by (simp add: display_ok_def is_ws_def)
next
  case (T_Placeholder s)
  assume "tok_ok t" and r: "at_gap r"
  then show ?thesis using next_token_ref(2) [OF _ r] T_Placeholder by (simp add: display_ok_def is_ws_def)
qed (simp_all add: display_ok_symbol display_ok_keyword)

lemma tokenize_loop_render:
  assumes "list_all tok_ok vs" and "length (ts @ vs) \<le> n"
  shows "tokenize_loop E n ts (join (map token_display_text vs) '' '') = Inr (ts @ vs)"
  using assms
proof (induction vs arbitrary: ts rule: induct_list012)
  case 1
  then show ?case by simp
next
  case (2 t)
  have "display_ok E t []" using 2 by (intro next_token_display) (auto simp: at_gap_def)
  then show ?case using 2 by (auto simp: display_ok_def push_token_def)
next
  case (3 t u vs)
  let ?r = "CHR '' '' # join (map token_display_text (u # vs)) '' ''"
  have "display_ok E t ?r" using 3 by (intro next_token_display) (auto simp: at_gap_def)
  then obtain c cs where c: "token_display_text t = c # cs" "\<not> is_ws c"
      "next_token E c (cs @ ?r) = Inr (t, ?r)"
    by (auto simp: display_ok_def)
  have "is_ws (CHR '' '')" by (simp add: is_ws_def)
  moreover have "tokenize_loop E n (ts @ [t]) (join (map token_display_text (u # vs)) '' '') = Inr (ts @ t # u # vs)"
    using "3.IH"(2) [of "ts @ [t]"] "3.prems" by simp
  ultimately show ?case using c "3.prems" by (simp add: push_token_def)
qed


subsection \<open>What the lexer accepts\<close>

lemma is_ascii_append [simp]: "is_ascii (s @ t) \<longleftrightarrow> is_ascii s \<and> is_ascii t"
  by (simp add: is_ascii_def)

lemma is_ascii_Cons [simp]: "is_ascii (c # s) \<longleftrightarrow> is_ascii_byte c \<and> is_ascii s"
  by (simp add: is_ascii_def)

lemma is_ascii_Nil [simp]: "is_ascii []"
  by (simp add: is_ascii_def)

lemma ident_char_ascii: "is_ident_char c \<Longrightarrow> is_ascii_byte c"
  by (auto simp: is_ident_char_eq is_ident_start_of_char is_ascii_digit_of_char is_ascii_byte_def)

lemma takeWhile_ascii:
  "is_ascii (takeWhile is_ident_char s)" "is_ascii (takeWhile is_ascii_digit s)"
  by (auto simp: is_ascii_def list_all_iff ident_char_ascii is_ident_char_eq dest!: set_takeWhileD)

lemma single_char_token_ascii: "single_char_token c = Some t \<Longrightarrow> is_ascii_byte c"
  by (auto simp: single_char_token_def is_ascii_byte_def split: if_splits)

lemma lex_consumes_ascii:
  "\<exists>u. cs = u @ snd (lex_lt cs) \<and> is_ascii u" "\<exists>u. cs = u @ snd (lex_gt cs) \<and> is_ascii u"
  "lex_name mk err cs = Inr (t, rest) \<Longrightarrow> \<exists>u. cs = u @ rest \<and> is_ascii u"
proof -
  show "\<exists>u. cs = u @ snd (lex_lt cs) \<and> is_ascii u" "\<exists>u. cs = u @ snd (lex_gt cs) \<and> is_ascii u"
    by (auto simp: lex_lt_def lex_gt_def is_ascii_byte_def Cons_eq_append_conv split: list.split)
  assume "lex_name mk err cs = Inr (t, rest)"
  then have "rest = dropWhile is_ident_char cs" by (auto simp: lex_name_def Let_def split: if_splits)
  then show "\<exists>u. cs = u @ rest \<and> is_ascii u"
    by (intro exI [of _ "takeWhile is_ident_char cs"]) (simp add: takeWhile_ascii)
qed

lemma next_token_consumes_ascii:
  assumes "next_token E c cs = Inr (t, rest)"
  shows "is_ascii_byte c \<and> (\<exists>u. cs = u @ rest \<and> is_ascii u)"
proof (cases "single_char_token c")
  case (Some t')
  with assms show ?thesis by (auto simp: next_token_def single_char_token_ascii intro: exI [of _ "[]"])
next
  case None
  have c: "is_ascii_byte c"
    using assms None unfolding next_token_def
    by (simp split: if_split_asm)
      (auto simp: ident_char_ascii is_ident_char_eq, simp_all add: is_ascii_byte_def)
  have dw: "\<exists>u. cs = u @ dropWhile P cs \<and> is_ascii u" if "is_ascii (takeWhile P cs)" for P
    using that takeWhile_dropWhile_id [of P cs] by metis
  note facts = lex_consumes_ascii(1,2) [of cs] lex_consumes_ascii(3) dw [OF takeWhile_ascii(1)] dw [OF takeWhile_ascii(2)]
  have "\<exists>u. cs = u @ rest \<and> is_ascii u"
    using assms None facts unfolding next_token_def by (simp split: if_split_asm)
  with c show ?thesis by blast
qed

lemma tokenize_loop_ascii: "tokenize_loop E n ts s = Inr us \<Longrightarrow> is_ascii s"
proof (induction E n ts s arbitrary: us rule: tokenize_loop.induct)
  case (2 E n ts c cs)
  show ?case
  proof (cases "is_ws c")
    case True
    with 2 show ?thesis by (auto simp: is_ws_def is_ascii_byte_def)
  next
    case False
    with "2.prems" obtain t rest vs where t: "next_token E c cs = Inr (t, rest)"
      "push_token ts t n = Inr vs" "tokenize_loop E n vs rest = Inr us"
      by auto
    have "is_ascii rest" using "2.IH"(2) [OF False t(1) refl t(2,3)] .
    with next_token_consumes_ascii [OF t(1)] show ?thesis by auto
  qed
qed simp

subsection \<open>Properties\<close>

text \<open>
  C11: the token stream of an accepted expression is within the token limit, and writing the tokens out
  again, separated by blanks, lexes to the same stream: \<open>token_display_text\<close> and the lexer agree on
  every token, keywords and digit runs included.
\<close>

theorem tokenize_render_roundtrip:
  assumes "tokenize_with_limit s n = Inr ts"
  shows "length ts \<le> n \<and> tokenize_with_limit (join (map token_display_text ts) '' '') n = Inr ts"
proof -
  have "length ts \<le> n" "list_all tok_ok ts"
    using assms tokenize_loop_extends [of _ n "[]" s ts] by (auto simp: tokenize_with_limit_def)
  then show ?thesis by (simp add: tokenize_with_limit_def tokenize_loop_render)
qed

theorem tokenize_render_roundtrip_witness:
  "tokenize_with_limit ''a.b[0]<>:v AND#n'' 20 =
     Inr [T_Ident ''a'', T_Dot, T_Ident ''b'', T_LBracket, T_Ident ''0'', T_RBracket, T_Ne, T_Placeholder ''v'',
          T_And, T_NameRef ''n''] \<and>
   tokenize_with_limit ''a . b [ 0 ] <> :v AND #n'' 20 = tokenize_with_limit ''a.b[0]<>:v AND#n'' 20"
proof -
  have h: "tokenize_with_limit ''a.b[0]<>:v AND#n'' 20 =
     Inr [T_Ident ''a'', T_Dot, T_Ident ''b'', T_LBracket, T_Ident ''0'', T_RBracket, T_Ne, T_Placeholder ''v'',
          T_And, T_NameRef ''n'']"
    by code_simp
  from tokenize_render_roundtrip [OF h] h show ?thesis by simp
qed

text \<open>
  A byte outside ASCII is never part of a token, so an accepted expression is ASCII and every
  later byte-index slice of it is at a character boundary.
\<close>

theorem tokenize_accepts_ascii_only:
  assumes "tokenize_with_limit s n = Inr ts"
  shows "is_ascii s \<and> (\<forall>i \<le> length s. is_char_boundary s i)"
proof -
  have a: "is_ascii s" using assms tokenize_loop_ascii by (simp add: tokenize_with_limit_def)
  then have "i < length s \<Longrightarrow> \<not> is_cont_byte (s ! i)" for i
    by (force simp: is_ascii_def list_all_length is_ascii_byte_def is_cont_byte_def)
  with a show ?thesis by (auto simp: is_char_boundary_def)
qed

theorem tokenize_accepts_ascii_only_witness:
  "tokenize_with_limit ''a = :v'' 3 = Inr [T_Ident ''a'', T_Eq, T_Placeholder ''v''] \<and> is_ascii ''a = :v''"
proof -
  have h: "tokenize_with_limit ''a = :v'' 3 = Inr [T_Ident ''a'', T_Eq, T_Placeholder ''v'']"
    by code_simp
  from tokenize_accepts_ascii_only [OF h] h show ?thesis by simp
qed

text \<open>
  The labelled lexer \<open>tokenize_for\<close> and \<open>tokenize_with_limit\<close> accept the same non-empty
  expressions with the same tokens; they differ in their messages only.
\<close>

theorem tokenize_for_agrees:
  assumes "s \<noteq> []"
  shows "tokenize_for s n kind = Inr ts \<longleftrightarrow> tokenize_with_limit s n = Inr ts"
  using assms unfolding tokenize_for_def tokenize_with_limit_def
  by (auto intro: tokenize_loop_error_free)

theorem tokenize_for_agrees_witness:
  "tokenize_for ''a'' 1 K_Filter = Inr [T_Ident ''a'']"
proof -
  have "tokenize_with_limit ''a'' 1 = Inr [T_Ident ''a'']" by code_simp
  then show ?thesis using tokenize_for_agrees [of "''a''" 1 K_Filter] by simp
qed

end
