(* ===== verification/Parser.thy ===== *)
theory Parser
  imports Tokenizer
begin

text \<open>
  \<open>parser_common.rs\<close> and \<open>parser.rs\<close> of \<open>crates/core/src/expression\<close>: document paths, the redundant
  parenthesis check and the recursive descent parser of condition expressions.

  The cursor \<open>pos: &mut usize\<close> over the token slice is represented by the unread suffix
  \<open>tokens[pos..]\<close>: a parse function takes the suffix and returns its value with the suffix after it.
  The \<open>depth\<close> counter is incremented before and decremented after a nested parse, and on an error the
  whole parse stops, so it is an argument.

  The loops \<open>while tokens[pos] == SEP { pos += 1; x = p(tokens, pos)?; ... }\<close> are \<open>sep_loop\<close>.  Its bound
  \<open>n\<close> and the test \<open>length r < n\<close> make the recursion well-founded before anything is known of \<open>p\<close>; the
  locale \<open>progress_parser\<close> shows that for a parser that consumes a token on success they never stop a
  loop that the Rust code would continue.
\<close>

subsection \<open>Loops over separated items\<close>

fun sep_loop :: "Token \<Rightarrow> (Token list \<Rightarrow> ('a \<times> Token list) ddb_result) \<Rightarrow> ('s \<Rightarrow> 'a \<Rightarrow> 's) \<Rightarrow> nat \<Rightarrow> 's \<Rightarrow>
    Token list \<Rightarrow> ('s \<times> Token list) ddb_result" where
  "sep_loop sep p f 0 acc rest = Inr (acc, rest)"
| "sep_loop sep p f (Suc n) acc rest =
     (case rest of
        [] \<Rightarrow> Inr (acc, rest)
      | t # r \<Rightarrow>
          if t = sep \<and> length r \<le> n
          then bind_r (p r) (\<lambda>(x, r'). sep_loop sep p f n (f acc x) r')
          else Inr (acc, rest))"

lemma sep_loop_cong [fundef_cong]:
  assumes "sep = sep'" "f = f'" "n = n'" "acc = acc'" "rest = rest'"
    and "\<And>r. length r < n' \<Longrightarrow> p r = q r"
  shows "sep_loop sep p f n acc rest = sep_loop sep' q f' n' acc' rest'"
proof -
  have "(\<And>r. length r < n \<Longrightarrow> p r = q r) \<Longrightarrow> sep_loop sep p f n acc rest = sep_loop sep q f n acc rest"
    by (induction n arbitrary: acc rest) (auto intro!: bind_r_cong split: list.split)
  with assms show ?thesis by simp
qed

locale progress_parser =
  fixes p :: "Token list \<Rightarrow> ('a \<times> Token list) ddb_result"
  assumes progress: "p r = Inr (x, r') \<Longrightarrow> length r' < length r"
begin

lemma loop_fuel:
  "length rest \<le> n \<Longrightarrow> length rest \<le> m \<Longrightarrow> sep_loop sep p f n acc rest = sep_loop sep p f m acc rest"
proof (induction n arbitrary: m acc rest)
  case 0
  then show ?case by (cases m) simp_all
next
  case (Suc n)
  show ?case
  proof (cases rest)
    case Nil
    then show ?thesis by (cases m) simp_all
  next
    case (Cons t r)
    with Suc.prems obtain k where m: "m = Suc k" "length r \<le> k" "length r \<le> n" by (cases m) auto
    have "p r = Inr (x, r') \<Longrightarrow> sep_loop sep p f n (f acc x) r' = sep_loop sep p f k (f acc x) r'" for x r'
      using progress [of r x r'] m by (intro Suc.IH) auto
    with m Cons show ?thesis by (auto intro!: bind_r_cong)
  qed
qed

text \<open>The loop of the Rust code, with no bound.\<close>

lemma loop_unfold:
  "sep_loop sep p f (length rest) acc rest =
     (case rest of
        [] \<Rightarrow> Inr (acc, rest)
      | t # r \<Rightarrow>
          if t = sep then bind_r (p r) (\<lambda>(x, r'). sep_loop sep p f (length r') (f acc x) r')
          else Inr (acc, rest))"
proof (cases rest)
  case (Cons t r)
  have "p r = Inr (x, r') \<Longrightarrow>
      sep_loop sep p f (length r) (f acc x) r' = sep_loop sep p f (length r') (f acc x) r'" for x r'
    using progress [of r x r'] by (intro loop_fuel) auto
  with Cons show ?thesis by (auto intro!: bind_r_cong)
qed simp

lemma loop_step:
  "p r = Inr (x, r') \<Longrightarrow>
     sep_loop sep p f (length (sep # r)) acc (sep # r) = sep_loop sep p f (length r') (f acc x) r'"
  by (subst loop_unfold) simp

lemma loop_length: "sep_loop sep p f n acc rest = Inr (acc', rest') \<Longrightarrow> length rest' \<le> length rest"
proof (induction n arbitrary: acc rest)
  case (Suc n)
  show ?case
  proof (cases rest)
    case Nil
    with Suc.prems show ?thesis by simp
  next
    case (Cons t r)
    show ?thesis
    proof (cases "t = sep \<and> length r \<le> n")
      case True
      with Suc.prems Cons obtain x r' where "p r = Inr (x, r')" "sep_loop sep p f n (f acc x) r' = Inr (acc', rest')"
        by auto
      with Suc.IH [of "f acc x" r'] progress [of r x r'] Cons show ?thesis by auto
    next
      case False
      with Suc.prems Cons show ?thesis by auto
    qed
  qed
qed simp

end

subsection \<open>Paths, expected tokens, redundant parentheses\<close>

definition expect_token :: "Token list \<Rightarrow> Token \<Rightarrow> string \<Rightarrow> string \<Rightarrow> Token list ddb_result" where
  "expect_token rest expected label context =
     (case rest of
        [] \<Rightarrow> Inl (validation_err (''Invalid '' @ context @ '': expected '' @ squote @ label @ squote))
      | t # r \<Rightarrow> if t \<noteq> expected
          then Inl (validation_err (''Invalid '' @ context @ '': expected '' @ squote @ label @ squote))
          else Inr r)"

lemma expect_token_Inr [simp]: "expect_token rest t l c = Inr r \<longleftrightarrow> rest = t # r"
  by (auto simp: expect_token_def split: list.splits)

text \<open>The name a token contributes to a path: \<open>ident\<close>, or \<open>#name\<close> with its hash sign kept.\<close>

fun attr_elem :: "Token \<Rightarrow> PathElement option" where
  "attr_elem (T_Ident name) = Some (P_Attribute name)"
| "attr_elem (T_NameRef name) = Some (P_Attribute (''#'' @ name))"
| "attr_elem _ = None"

fun ident_tok :: "Token \<Rightarrow> string option" where
  "ident_tok (T_Ident name) = Some name"
| "ident_tok _ = None"

definition path_err :: "string \<Rightarrow> DynamoDbError" where
  "path_err msg = validation_err (''Invalid expression: '' @ msg)"

function parse_path_loop :: "PathElement list \<Rightarrow> Token list \<Rightarrow> (PathElement list \<times> Token list) ddb_result" where
  "parse_path_loop elements [] = Inr (elements, [])"
| "parse_path_loop elements (t # r) =
     (if t = T_Dot then
        (case r of
           [] \<Rightarrow> Inl (path_err (''expected attribute name after '' @ squote @ ''.'' @ squote))
         | t2 # r2 \<Rightarrow>
            (case attr_elem t2 of
               Some e \<Rightarrow> parse_path_loop (elements @ [e]) r2
             | None \<Rightarrow> Inl (path_err (''expected attribute name after '' @ squote @ ''.'' @ squote))))
      else if t = T_LBracket then
        (case r of
           [] \<Rightarrow> Inl (path_err ''expected numeric index in brackets'')
         | t2 # r2 \<Rightarrow>
            (case ident_tok t2 of
               Some idx_str \<Rightarrow>
                 bind_r (ok_or (parse_usize idx_str) (path_err ''expected numeric index in brackets'')) (\<lambda>idx.
                 bind_r (expect_token r2 T_RBracket '']'' ''expression'') (\<lambda>r3.
                 parse_path_loop (elements @ [P_Index idx]) r3))
             | None \<Rightarrow> Inl (path_err ''expected numeric index in brackets'')))
      else Inr (elements, t # r))"
  by pat_completeness auto
termination
  by (relation "measure (\<lambda>(els, r). length r)") auto

definition parse_path :: "Token list \<Rightarrow> (PathElement list \<times> Token list) ddb_result" where
  "parse_path rest =
     (case rest of
        [] \<Rightarrow> Inl (path_err ''expected attribute name'')
      | t # r \<Rightarrow>
         (case attr_elem t of
            Some e \<Rightarrow> parse_path_loop [e] r
          | None \<Rightarrow> Inl (path_err ''expected attribute name'')))"

fun check_parens :: "Token option \<Rightarrow> bool list \<Rightarrow> Token list \<Rightarrow> string + unit" where
  "check_parens prev stack [] = Inr ()"
| "check_parens prev stack (t # ts) =
     (if t = T_LParen then check_parens (Some t) ((prev = Some T_LParen) # stack) ts
      else if t = T_RParen then
        (case stack of
           [] \<Rightarrow> check_parens (Some t) [] ts
         | double_open # stack' \<Rightarrow>
             if double_open \<and> ts \<noteq> [] \<and> hd ts = T_RParen
             then Inl ''The expression has redundant parentheses;''
             else check_parens (Some t) stack' ts)
      else check_parens (Some t) stack ts)"

definition check_redundant_parens :: "Token list \<Rightarrow> string + unit" where
  "check_redundant_parens tokens = check_parens None [] tokens"

subsection \<open>Operands and function calls\<close>

definition is_function_name :: "string \<Rightarrow> bool" where
  "is_function_name name \<longleftrightarrow>
     name \<in> {''attribute_exists'', ''attribute_not_exists'', ''attribute_type'', ''begins_with'', ''contains''}"

fun try_comparator :: "Token \<Rightarrow> CompareOp option" where
  "try_comparator T_Eq = Some Op_Eq"
| "try_comparator T_Ne = Some Op_Ne"
| "try_comparator T_Lt = Some Op_Lt"
| "try_comparator T_Le = Some Op_Le"
| "try_comparator T_Gt = Some Op_Gt"
| "try_comparator T_Ge = Some Op_Ge"
| "try_comparator _ = None"

definition cond_err :: "string \<Rightarrow> DynamoDbError" where
  "cond_err msg = validation_err (''Invalid ConditionExpression: '' @ msg)"

abbreviation snoc :: "'a list \<Rightarrow> 'a \<Rightarrow> 'a list" where
  "snoc xs x \<equiv> xs @ [x]"

definition path_expr :: "Token list \<Rightarrow> (Expr \<times> Token list) ddb_result" where
  "path_expr rest = bind_r (parse_path rest) (\<lambda>(elements, r). Inr (E_Path elements, r))"

function parse_operand :: "Token list \<Rightarrow> (Expr \<times> Token list) ddb_result"
  and parse_function_call :: "Token list \<Rightarrow> (Expr \<times> Token list) ddb_result" where
  "parse_operand rest =
     (case rest of
        [] \<Rightarrow> Inl (cond_err ''expected operand'')
      | t # r \<Rightarrow>
         (case t of
            T_Placeholder name \<Rightarrow> Inr (E_Placeholder name, r)
          | T_Ident name \<Rightarrow>
              if eq_ignore_ascii_case name ''size'' \<and> r \<noteq> [] \<and> hd r = T_LParen
              then parse_function_call rest
              else path_expr rest
          | T_NameRef _ \<Rightarrow> path_expr rest
          | _ \<Rightarrow> Inl (cond_err ''expected attribute path or value placeholder'')))"
| "parse_function_call rest =
     (case rest of
        [] \<Rightarrow> Inl (cond_err ''expected function name'')
      | t # r \<Rightarrow>
         (case ident_tok t of
            None \<Rightarrow> Inl (cond_err ''expected function name'')
          | Some n \<Rightarrow>
              bind_r (expect_token r T_LParen ''('' ''ConditionExpression'') (\<lambda>r1.
              bind_r (if r1 \<noteq> [] \<and> hd r1 \<noteq> T_RParen
                      then bind_r (parse_operand r1) (\<lambda>(a, r2).
                             sep_loop T_Comma parse_operand snoc (length r1) [a] r2)
                      else Inr ([], r1)) (\<lambda>(args, r3).
              bind_r (expect_token r3 T_RParen '')'' ''ConditionExpression'') (\<lambda>r4.
              Inr (E_Function (to_ascii_lowercase n) args, r4))))))"
  by pat_completeness auto
termination
  by (relation "measures [\<lambda>x. case x of Inl r \<Rightarrow> length r | Inr r \<Rightarrow> length r, \<lambda>x. case x of Inl r \<Rightarrow> 1 | Inr r \<Rightarrow> 0]") auto

declare parse_operand.simps [simp del] parse_function_call.simps [simp del]

subsection \<open>Conditions\<close>

text \<open>The part of \<open>parse_primary\<close> after its first operand.\<close>

definition parse_after_operand :: "Expr \<Rightarrow> Token list \<Rightarrow> (Expr \<times> Token list) ddb_result" where
  "parse_after_operand left rest =
     (case rest of
        [] \<Rightarrow> Inl (cond_err ''expected comparison operator or function call'')
      | t # r \<Rightarrow>
         (case try_comparator t of
            Some op \<Rightarrow>
              bind_r (parse_operand r) (\<lambda>(right, r1). Inr (E_Compare left op right, r1))
          | None \<Rightarrow>
              if t = T_Between then
                bind_r (parse_operand r) (\<lambda>(low, r1).
                bind_r (expect_token r1 T_And ''AND'' ''ConditionExpression'') (\<lambda>r2.
                bind_r (parse_operand r2) (\<lambda>(high, r3).
                Inr (E_Between left low high, r3))))
              else if t = T_In then
                bind_r (expect_token r T_LParen ''('' ''ConditionExpression'') (\<lambda>r1.
                bind_r (parse_operand r1) (\<lambda>(x, r2).
                bind_r (sep_loop T_Comma parse_operand snoc (length r2) [x] r2) (\<lambda>(list, r3).
                bind_r (expect_token r3 T_RParen '')'' ''ConditionExpression'') (\<lambda>r4.
                Inr (E_In left list, r4)))))
              else Inl (cond_err ''expected comparison operator or function call'')))"

function parse_or :: "Token list \<Rightarrow> nat \<Rightarrow> nat \<Rightarrow> (Expr \<times> Token list) ddb_result"
  and parse_and :: "Token list \<Rightarrow> nat \<Rightarrow> nat \<Rightarrow> (Expr \<times> Token list) ddb_result"
  and parse_not :: "Token list \<Rightarrow> nat \<Rightarrow> nat \<Rightarrow> (Expr \<times> Token list) ddb_result"
  and parse_primary :: "Token list \<Rightarrow> nat \<Rightarrow> nat \<Rightarrow> (Expr \<times> Token list) ddb_result" where
  "parse_or rest depth max_depth =
     bind_r (parse_and rest depth max_depth) (\<lambda>(left, r).
     sep_loop T_Or (\<lambda>x. parse_and x depth max_depth) E_Or (length rest) left r)"
| "parse_and rest depth max_depth =
     bind_r (parse_not rest depth max_depth) (\<lambda>(left, r).
     sep_loop T_And (\<lambda>x. parse_not x depth max_depth) E_And (length rest) left r)"
| "parse_not rest depth max_depth =
     (if rest \<noteq> [] \<and> hd rest = T_Not then
        (if depth + 1 > max_depth then Inl (cond_err ''expression nesting depth exceeded'')
         else bind_r (parse_not (tl rest) (depth + 1) max_depth) (\<lambda>(e, r). Inr (E_Not e, r)))
      else parse_primary rest depth max_depth)"
| "parse_primary rest depth max_depth =
     (case rest of
        [] \<Rightarrow> Inl (cond_err ''unexpected end of expression'')
      | t # r \<Rightarrow>
          if t = T_LParen then
            (if depth + 1 > max_depth then Inl (cond_err ''expression nesting depth exceeded'')
             else bind_r (parse_or r (depth + 1) max_depth) (\<lambda>(e, r1).
                  bind_r (expect_token r1 T_RParen '')'' ''ConditionExpression'') (\<lambda>r2. Inr (e, r2))))
          else if (case ident_tok t of Some name \<Rightarrow> is_function_name (to_ascii_lowercase name) | None \<Rightarrow> False)
            \<and> r \<noteq> [] \<and> hd r = T_LParen
          then parse_function_call rest
          else bind_r (parse_operand rest) (\<lambda>(left, r1). parse_after_operand left r1))"
  by pat_completeness auto
termination
  by (relation "measures [
      \<lambda>x. case x of Inl (Inl (r, _)) \<Rightarrow> length r | Inl (Inr (r, _)) \<Rightarrow> length r
                 | Inr (Inl (r, _)) \<Rightarrow> length r | Inr (Inr (r, _)) \<Rightarrow> length r,
      \<lambda>x. case x of Inl (Inl _) \<Rightarrow> 3 | Inl (Inr _) \<Rightarrow> 2 | Inr (Inl _) \<Rightarrow> 1 | Inr (Inr _) \<Rightarrow> 0]") auto

declare parse_or.simps [simp del] parse_and.simps [simp del] parse_not.simps [simp del] parse_primary.simps [simp del]

definition parse_condition_with_depth_limit :: "Token list \<Rightarrow> nat \<Rightarrow> Expr ddb_result" where
  "parse_condition_with_depth_limit tokens max_depth =
     bind_r (map_err cond_err (check_redundant_parens tokens)) (\<lambda>_.
     bind_r (parse_or tokens 0 max_depth) (\<lambda>(expr, rest).
     if rest \<noteq> []
     then Inl (cond_err (''unexpected token at position '' @ show_nat (length tokens - length rest)))
     else Inr expr))"

definition parse_condition :: "Token list \<Rightarrow> Expr ddb_result" where
  "parse_condition tokens = parse_condition_with_depth_limit tokens 150"

subsection \<open>Every parser consumes a token on success\<close>

lemma parse_path_loop_length: "parse_path_loop els r = Inr (x, r') \<Longrightarrow> length r' \<le> length r"
  by (induction els r arbitrary: x rule: parse_path_loop.induct)
    (force split: if_split_asm list.split_asm option.split_asm simp: ok_or_def)+

lemma parse_path_progress: "parse_path r = Inr (x, r') \<Longrightarrow> length r' < length r"
  by (auto simp: parse_path_def less_Suc_eq_le dest: parse_path_loop_length split: list.split_asm option.split_asm)

interpretation path_p: progress_parser parse_path
  by unfold_locales (rule parse_path_progress)

lemma path_expr_progress: "path_expr r = Inr (x, r') \<Longrightarrow> length r' < length r"
  by (auto simp: path_expr_def dest: parse_path_progress)

text \<open>
  The loop inside \<open>parse_function_call\<close> runs the operand parser on shorter suffixes only, so progress
  of the two is one induction on the length of the suffix.
\<close>

lemma sep_loop_length_bounded:
  assumes "\<And>r x r'. length r < n \<Longrightarrow> p r = Inr (x, r') \<Longrightarrow> length r' < length r"
  shows "sep_loop sep p f n acc rest = Inr (acc', rest') \<Longrightarrow> length rest' \<le> length rest"
  using assms
proof (induction n arbitrary: acc rest)
  case (Suc n)
  show ?case
  proof (cases rest)
    case (Cons t r)
    show ?thesis
    proof (cases "t = sep \<and> length r \<le> n")
      case True
      with Suc.prems(1) Cons obtain x r' where x: "p r = Inr (x, r')" "sep_loop sep p f n (f acc x) r' = Inr (acc', rest')"
        by auto
      have "length r' < length r" using Suc.prems(2) [OF _ x(1)] True by simp
      moreover have "length rest' \<le> length r'" using Suc.IH [OF x(2)] Suc.prems(2) by simp
      ultimately show ?thesis using Cons by simp
    next
      case False
      with Suc.prems Cons show ?thesis by auto
    qed
  qed (use Suc.prems in simp)
qed simp

lemma sep_loop_invariant:
  assumes "sep_loop sep p f n acc rest = Inr (acc', rest')" "P acc"
    and "\<And>acc x r r'. length r < n \<Longrightarrow> P acc \<Longrightarrow> p r = Inr (x, r') \<Longrightarrow> P (f acc x)"
  shows "P acc'"
  using assms
proof (induction n arbitrary: acc rest)
  case (Suc n)
  show ?case
  proof (cases "\<exists>r. rest = sep # r \<and> length r \<le> n")
    case True
    with Suc.prems(1) obtain x r r' where x: "length r \<le> n" "p r = Inr (x, r')"
      "sep_loop sep p f n (f acc x) r' = Inr (acc', rest')" by auto
    have "P (f acc x)" using Suc.prems(2,3) x(1,2) by (simp add: less_Suc_eq_le)
    then show ?thesis by (rule Suc.IH [OF x(3)]) (rule Suc.prems(3), simp_all)
  next
    case False
    with Suc.prems(1,2) show ?thesis by (auto split: list.split_asm if_split_asm)
  qed
qed simp

lemma operand_call_progress:
  "(parse_operand r = Inr (x, r') \<longrightarrow> length r' < length r) \<and>
   (parse_function_call r = Inr (x, r') \<longrightarrow> length r' < length r)"
proof (induction "length r" arbitrary: r x r' rule: less_induct)
  case less
  have IH: "length q < length r \<Longrightarrow> parse_operand q = Inr (y, q') \<Longrightarrow> length q' < length q" for q y q'
    using less by blast
  have call: "length r' < length r" if "parse_function_call r = Inr (x, r')"
  proof -
    from that obtain n r1 args r3 where r: "r = T_Ident n # T_LParen # r1"
      and a: "(if r1 \<noteq> [] \<and> hd r1 \<noteq> T_RParen
               then bind_r (parse_operand r1) (\<lambda>(a, r2). sep_loop T_Comma parse_operand snoc (length r1) [a] r2)
               else Inr ([], r1)) = Inr (args, r3)"
      and e: "r3 = T_RParen # r'"
      by (subst (asm) parse_function_call.simps)
        (force split: list.split_asm option.split_asm elim!: ident_tok.elims)
    have "length r3 \<le> length r1"
    proof (cases "r1 \<noteq> [] \<and> hd r1 \<noteq> T_RParen")
      case True
      with a obtain y r2 where y: "parse_operand r1 = Inr (y, r2)"
        "sep_loop T_Comma parse_operand snoc (length r1) [y] r2 = Inr (args, r3)" by auto
      have "length r2 < length r1" using IH [OF _ y(1)] r by simp
      moreover have "length r3 \<le> length r2"
        by (rule sep_loop_length_bounded [OF _ y(2)]) (use IH r in auto)
      ultimately show ?thesis by simp
    qed (use a in auto)
    with r e show ?thesis by simp
  qed
  moreover have "length r' < length r" if "parse_operand r = Inr (x, r')"
    using that call
    by (subst (asm) parse_operand.simps)
      (auto split: list.split_asm Token.split_asm if_split_asm dest: path_expr_progress)
  ultimately show ?case by blast
qed

lemmas parse_operand_progress = operand_call_progress [THEN conjunct1, rule_format]
lemmas parse_function_call_progress = operand_call_progress [THEN conjunct2, rule_format]

interpretation operand_p: progress_parser parse_operand
  by unfold_locales (rule parse_operand_progress)

lemma parse_after_operand_progress: "parse_after_operand l r = Inr (x, r') \<Longrightarrow> length r' < length r"
  by (auto simp: parse_after_operand_def split: list.split_asm option.split_asm if_split_asm
      dest!: parse_operand_progress operand_p.loop_length)

lemma condition_parsers_progress:
  "(parse_or r d md = Inr (x, r') \<longrightarrow> length r' < length r) \<and>
   (parse_and r d md = Inr (x, r') \<longrightarrow> length r' < length r) \<and>
   (parse_not r d md = Inr (x, r') \<longrightarrow> length r' < length r) \<and>
   (parse_primary r d md = Inr (x, r') \<longrightarrow> length r' < length r)"
proof (induction "length r" arbitrary: r d x r' rule: less_induct)
  case less
  have IH: "length q < length r \<Longrightarrow> parse_or q e md = Inr (y, q') \<Longrightarrow> length q' < length q"
    "length q < length r \<Longrightarrow> parse_and q e md = Inr (y, q') \<Longrightarrow> length q' < length q"
    "length q < length r \<Longrightarrow> parse_not q e md = Inr (y, q') \<Longrightarrow> length q' < length q" for q e y q'
    using less by blast+
  have prim: "length r' < length r" if "parse_primary r d md = Inr (x, r')" for x r'
    using that
    by (subst (asm) parse_primary.simps)
      (auto split: list.split_asm if_split_asm dest!: IH(1) [rotated] parse_function_call_progress
        parse_operand_progress parse_after_operand_progress)
  have not: "length r' < length r" if "parse_not r d md = Inr (x, r')" for x r'
  proof (cases "r \<noteq> [] \<and> hd r = T_Not")
    case True
    then obtain q where q: "r = T_Not # q" by (cases r) auto
    from that obtain y where "parse_not q (d + 1) md = Inr (y, r')"
      by (subst (asm) parse_not.simps) (auto simp: q split: if_split_asm)
    from IH(3) [OF _ this] show ?thesis by (simp add: q)
  next
    case False
    with that prim show ?thesis by (subst (asm) parse_not.simps) auto
  qed
  have "and": "length r' < length r" if "parse_and r d md = Inr (x, r')" for x r'
  proof -
    from that obtain y q where y: "parse_not r d md = Inr (y, q)"
      "sep_loop T_And (\<lambda>x. parse_not x d md) E_And (length r) y q = Inr (x, r')"
      by (subst (asm) parse_and.simps) auto
    from sep_loop_length_bounded [OF _ y(2)] IH(3) not [OF y(1)] show ?thesis by fastforce
  qed
  have "length r' < length r" if "parse_or r d md = Inr (x, r')"
  proof -
    from that obtain y q where y: "parse_and r d md = Inr (y, q)"
      "sep_loop T_Or (\<lambda>x. parse_and x d md) E_Or (length r) y q = Inr (x, r')"
      by (subst (asm) parse_or.simps) auto
    from sep_loop_length_bounded [OF _ y(2)] IH(2) "and" [OF y(1)] show ?thesis by fastforce
  qed
  with prim not "and" show ?case by blast
qed

interpretation and_p: progress_parser "\<lambda>r. parse_and r d md"
  by unfold_locales (use condition_parsers_progress in blast)

interpretation not_p: progress_parser "\<lambda>r. parse_not r d md"
  by unfold_locales (use condition_parsers_progress in blast)

end
