(* ===== verification/Parser_Print.thy ===== *)
theory Parser_Print
  imports Parser
begin

text \<open>
  The language of the condition parser: the trees it can return (\<open>operand_ok\<close>, \<open>cond_ok\<close>), a printer that
  writes such a tree with as few parentheses as the precedence of \<open>OR\<close>, \<open>AND\<close> and \<open>NOT\<close> allows, and the
  nesting depth of what it prints.  The parser returns only such trees, and reads each of them back.
\<close>

subsection \<open>Trees and their printed form\<close>

fun elem_ok :: "PathElement \<Rightarrow> bool" where
  "elem_ok (P_Attribute _) \<longleftrightarrow> True"
| "elem_ok (P_Index i) \<longleftrightarrow> i < 2 ^ 64"

fun path_ok :: "PathElement list \<Rightarrow> bool" where
  "path_ok (P_Attribute _ # els) \<longleftrightarrow> list_all elem_ok els"
| "path_ok _ \<longleftrightarrow> False"

fun operand_ok :: "Expr \<Rightarrow> bool" where
  "operand_ok (E_Path els) \<longleftrightarrow> path_ok els"
| "operand_ok (E_Placeholder _) \<longleftrightarrow> True"
| "operand_ok (E_Function n args) \<longleftrightarrow> n = ''size'' \<and> list_all operand_ok args"
| "operand_ok _ \<longleftrightarrow> False"

fun cond_ok :: "Expr \<Rightarrow> bool" where
  "cond_ok (E_Compare l _ r) \<longleftrightarrow> operand_ok l \<and> operand_ok r"
| "cond_ok (E_And l r) \<longleftrightarrow> cond_ok l \<and> cond_ok r"
| "cond_ok (E_Or l r) \<longleftrightarrow> cond_ok l \<and> cond_ok r"
| "cond_ok (E_Not e) \<longleftrightarrow> cond_ok e"
| "cond_ok (E_Function n args) \<longleftrightarrow> is_function_name n \<and> list_all operand_ok args"
| "cond_ok (E_Between e l h) \<longleftrightarrow> operand_ok e \<and> operand_ok l \<and> operand_ok h"
| "cond_ok (E_In e es) \<longleftrightarrow> operand_ok e \<and> es \<noteq> [] \<and> list_all operand_ok es"
| "cond_ok _ \<longleftrightarrow> False"

definition name_tok :: "string \<Rightarrow> Token" where
  "name_tok s = (case s of [] \<Rightarrow> T_Ident s | c # n \<Rightarrow> if c = CHR ''#'' then T_NameRef n else T_Ident s)"

fun print_elem :: "PathElement \<Rightarrow> Token list" where
  "print_elem (P_Attribute s) = [T_Dot, name_tok s]"
| "print_elem (P_Index i) = [T_LBracket, T_Ident (show_nat i), T_RBracket]"

fun print_path :: "PathElement list \<Rightarrow> Token list" where
  "print_path (P_Attribute s # els) = name_tok s # concat (map print_elem els)"
| "print_path _ = []"

fun comma_sep :: "Token list list \<Rightarrow> Token list" where
  "comma_sep [] = []"
| "comma_sep (x # xs) = x @ concat (map ((#) T_Comma) xs)"

fun print_operand :: "Expr \<Rightarrow> Token list" where
  "print_operand (E_Path els) = print_path els"
| "print_operand (E_Placeholder n) = [T_Placeholder n]"
| "print_operand (E_Function n args) = T_Ident n # T_LParen # comma_sep (map print_operand args) @ [T_RParen]"
| "print_operand _ = []"

fun op_tok :: "CompareOp \<Rightarrow> Token" where
  "op_tok Op_Eq = T_Eq"
| "op_tok Op_Ne = T_Ne"
| "op_tok Op_Lt = T_Lt"
| "op_tok Op_Le = T_Le"
| "op_tok Op_Gt = T_Gt"
| "op_tok Op_Ge = T_Ge"

definition paren_if :: "bool \<Rightarrow> Token list \<Rightarrow> Token list" where
  "paren_if b ts = (if b then T_LParen # ts @ [T_RParen] else ts)"

text \<open>Level 0 is the position of an operand of \<open>OR\<close> on the left, 1 of \<open>AND\<close> on the left, 2 of \<open>NOT\<close>.\<close>

fun print_cond :: "nat \<Rightarrow> Expr \<Rightarrow> Token list" where
  "print_cond lvl (E_Or l r) = paren_if (lvl > 0) (print_cond 0 l @ T_Or # print_cond 1 r)"
| "print_cond lvl (E_And l r) = paren_if (lvl > 1) (print_cond 1 l @ T_And # print_cond 2 r)"
| "print_cond lvl (E_Not e) = T_Not # print_cond 2 e"
| "print_cond lvl (E_Compare l op r) = print_operand l @ op_tok op # print_operand r"
| "print_cond lvl (E_Between e l h) = print_operand e @ T_Between # print_operand l @ T_And # print_operand h"
| "print_cond lvl (E_In e es) = print_operand e @ T_In # T_LParen # comma_sep (map print_operand es) @ [T_RParen]"
| "print_cond lvl e = print_operand e"

fun cond_depth :: "nat \<Rightarrow> Expr \<Rightarrow> nat" where
  "cond_depth lvl (E_Or l r) = (if lvl > 0 then 1 else 0) + max (cond_depth 0 l) (cond_depth 1 r)"
| "cond_depth lvl (E_And l r) = (if lvl > 1 then 1 else 0) + max (cond_depth 1 l) (cond_depth 2 r)"
| "cond_depth lvl (E_Not e) = 1 + cond_depth 2 e"
| "cond_depth lvl _ = 0"

subsection \<open>Reading operands back\<close>

text \<open>What may follow a printed operand: nothing that continues a path or makes a call of it.\<close>

definition ends_operand :: "Token list \<Rightarrow> bool" where
  "ends_operand rest \<longleftrightarrow> (case rest of [] \<Rightarrow> True | t # _ \<Rightarrow> t \<noteq> T_Dot \<and> t \<noteq> T_LBracket \<and> t \<noteq> T_LParen)"

lemma ends_operand_simps [simp]:
  "ends_operand []" "ends_operand (t # r) \<longleftrightarrow> t \<noteq> T_Dot \<and> t \<noteq> T_LBracket \<and> t \<noteq> T_LParen"
  by (simp_all add: ends_operand_def)

lemma attr_elem_name_tok [simp]: "attr_elem (name_tok s) = Some (P_Attribute s)"
  by (auto simp: name_tok_def split: list.split)

lemma name_tok_cases: obtains "name_tok s = T_Ident s" | n where "name_tok s = T_NameRef n"
  by (cases "s = [] \<or> hd s \<noteq> CHR ''#''"; cases s) (auto simp: name_tok_def)

lemma name_tok_neq [simp]: "name_tok s \<noteq> T_RParen" "name_tok s \<noteq> T_LParen" "name_tok s \<noteq> T_Not"
  by (cases s rule: name_tok_cases; simp)+

lemma parse_path_loop_print:
  assumes "list_all elem_ok els" "ends_operand rest"
  shows "parse_path_loop acc (concat (map print_elem els) @ rest) = Inr (acc @ els, rest)"
  using assms
proof (induction els arbitrary: acc)
  case Nil
  then show ?case by (cases rest) auto
next
  case (Cons e els)
  show ?case
  proof (cases e)
    case (P_Attribute s)
    with Cons show ?thesis by simp
  next
    case (P_Index i)
    with Cons show ?thesis by (simp add: parse_usize_show_nat expect_token_def ok_or_def)
  qed
qed

lemma parse_path_print:
  "path_ok els \<Longrightarrow> ends_operand rest \<Longrightarrow> parse_path (print_path els @ rest) = Inr (els, rest)"
  by (cases els rule: path_ok.cases) (auto simp: parse_path_def parse_path_loop_print)

lemma parse_operand_print_path:
  assumes "path_ok els" "ends_operand rest"
  shows "parse_operand (print_path els @ rest) = Inr (E_Path els, rest)"
proof -
  from assms(1) obtain s es where els: "els = P_Attribute s # es" by (cases els rule: path_ok.cases) auto
  have call: "hd (concat (map print_elem es) @ rest) \<noteq> T_LParen" if "concat (map print_elem es) @ rest \<noteq> []"
  proof (cases es)
    case Nil
    with assms(2) that show ?thesis by (cases rest) auto
  next
    case (Cons e es')
    then show ?thesis by (cases e) auto
  qed
  have "path_expr (print_path els @ rest) = Inr (E_Path els, rest)"
    using parse_path_print [OF assms] by (simp add: path_expr_def)
  with call show ?thesis
    by (cases s rule: name_tok_cases) (subst parse_operand.simps; auto simp: els)+
qed

text \<open>The comma separated rest of an argument list whose members are read back.\<close>

lemma args_loop_print:
  assumes "\<forall>e \<in> set es. \<forall>rest. ends_operand rest \<longrightarrow> parse_operand (print_operand e @ rest) = Inr (e, rest)"
    and "ends_operand rest" "rest = [] \<or> hd rest \<noteq> T_Comma"
    and r: "r = concat (map ((#) T_Comma) (map print_operand es)) @ rest"
  shows "sep_loop T_Comma parse_operand snoc (length r) acc r = Inr (acc @ es, rest)"
  using assms(1) r
proof (induction es arbitrary: acc r)
  case Nil
  with assms(3) show ?case by (subst operand_p.loop_unfold) (cases rest; simp)
next
  case (Cons e es)
  let ?r = "concat (map ((#) T_Comma) (map print_operand es)) @ rest"
  have "ends_operand ?r" using assms(2) by (cases es) auto
  then have "parse_operand (print_operand e @ ?r) = Inr (e, ?r)" using Cons.prems(1) by simp
  moreover have "sep_loop T_Comma parse_operand snoc (length ?r) (acc @ [e]) ?r = Inr (acc @ e # es, rest)"
    using Cons.IH [of ?r "acc @ [e]"] Cons.prems(1) by simp
  ultimately show ?case
    unfolding Cons.prems(2) by (subst operand_p.loop_unfold) (simp add: comp_def)
qed

lemma print_operand_start:
  assumes "operand_ok e"
  obtains t ts where "print_operand e = t # ts" "t \<noteq> T_RParen" "t \<noteq> T_LParen" "t \<noteq> T_Not"
  using assms
  by (cases e rule: operand_ok.cases; (cases "case e of E_Path els \<Rightarrow> els | _ \<Rightarrow> []" rule: path_ok.cases)?) auto

lemma parse_function_call_print:
  assumes "\<forall>e \<in> set es. \<forall>rest. ends_operand rest \<longrightarrow> parse_operand (print_operand e @ rest) = Inr (e, rest)"
    and "list_all operand_ok es"
  shows "parse_function_call (T_Ident n # T_LParen # comma_sep (map print_operand es) @ T_RParen # rest) =
    Inr (E_Function (to_ascii_lowercase n) es, rest)"
proof (cases es)
  case Nil
  then show ?thesis by (subst parse_function_call.simps) (simp add: expect_token_def)
next
  case (Cons e es')
  let ?r2 = "concat (map ((#) T_Comma) (map print_operand es')) @ T_RParen # rest"
  let ?r1 = "print_operand e @ ?r2"
  have "operand_ok e" using assms(2) Cons by simp
  then obtain t ts where t: "print_operand e = t # ts" "t \<noteq> T_RParen" by (rule print_operand_start)
  have "ends_operand ?r2" by (cases es') auto
  then have o: "parse_operand ?r1 = Inr (e, ?r2)" using assms(1) Cons by simp
  have "sep_loop T_Comma parse_operand snoc (length ?r2) [e] ?r2 = Inr ([e] @ es', T_RParen # rest)"
    by (rule args_loop_print [OF _ _ _ refl]) (use assms(1) Cons in auto)
  moreover have "sep_loop T_Comma parse_operand snoc (length ?r1) [e] ?r2 =
      sep_loop T_Comma parse_operand snoc (length ?r2) [e] ?r2"
    by (rule operand_p.loop_fuel) simp_all
  ultimately have l: "sep_loop T_Comma parse_operand snoc (length ?r1) [e] ?r2 = Inr (es, T_RParen # rest)"
    using Cons by simp
  have h: "?r1 \<noteq> []" "hd ?r1 \<noteq> T_RParen" using t by simp_all
  have c: "comma_sep (map print_operand es) @ T_RParen # rest = ?r1" using Cons by simp
  show ?thesis unfolding c
    by (subst parse_function_call.simps) (use o l h in \<open>simp add: expect_token_def del: length_append\<close>)
qed

lemma parse_operand_print:
  "operand_ok e \<Longrightarrow> ends_operand rest \<Longrightarrow> parse_operand (print_operand e @ rest) = Inr (e, rest)"
proof (induction e arbitrary: rest)
  case (E_Path els)
  then show ?case by (simp add: parse_operand_print_path)
next
  case (E_Placeholder n)
  then show ?case by (subst parse_operand.simps) simp
next
  case (E_Function n args)
  then have n: "n = ''size''" "list_all operand_ok args" by simp_all
  have a: "\<forall>e \<in> set args. \<forall>rest. ends_operand rest \<longrightarrow> parse_operand (print_operand e @ rest) = Inr (e, rest)"
    using E_Function n by (auto simp: list_all_iff)
  have "eq_ignore_ascii_case ''size'' ''size''" "to_ascii_lowercase ''size'' = ''size''"
    by code_simp+
  with parse_function_call_print [OF a n(2), of n rest] n(1) show ?case
    by (subst parse_operand.simps) simp
qed simp_all

subsection \<open>Reading conditions back\<close>

lemma sep_loop_stop: "rest = [] \<or> hd rest \<noteq> sep \<Longrightarrow> sep_loop sep p f n acc rest = Inr (acc, rest)"
  by (cases n; cases rest) auto

lemma and_of_not:
  assumes "parse_not ts d md = Inr (e, rest)"
  shows "parse_and ts d md = sep_loop T_And (\<lambda>x. parse_not x d md) E_And (length rest) e rest"
proof -
  have "length rest < length ts" using assms by (rule not_p.progress)
  then show ?thesis
    by (subst parse_and.simps) (simp add: assms not_p.loop_fuel [of rest "length ts" "length rest"])
qed

lemma or_of_and:
  assumes "parse_and ts d md = Inr (e, rest)"
  shows "parse_or ts d md = sep_loop T_Or (\<lambda>x. parse_and x d md) E_Or (length rest) e rest"
proof -
  have "length rest < length ts" using assms by (rule and_p.progress)
  then show ?thesis
    by (subst parse_or.simps) (simp add: assms and_p.loop_fuel [of rest "length ts" "length rest"])
qed

lemma primary_of_operand:
  assumes "operand_ok l" "ends_operand rest"
  shows "parse_primary (print_operand l @ rest) d md = parse_after_operand l rest"
proof -
  obtain t ts where t: "print_operand l = t # ts" "t \<noteq> T_LParen"
    using assms(1) by (rule print_operand_start)
  have nocall: "\<not> ((case ident_tok t of Some name \<Rightarrow> is_function_name (to_ascii_lowercase name) | None \<Rightarrow> False)
      \<and> ts @ rest \<noteq> [] \<and> hd (ts @ rest) = T_LParen)"
  proof (cases l)
    case (E_Path els)
    with assms(1) obtain s es where els: "els = P_Attribute s # es" by (cases els rule: path_ok.cases) auto
    have "ts = concat (map print_elem es)" using t E_Path els by simp
    moreover have "es = e # es' \<Longrightarrow> hd (print_elem e @ xs) \<noteq> T_LParen \<and> print_elem e \<noteq> []" for e es' xs by (cases e) auto
    ultimately show ?thesis using assms(2) by (cases es; cases rest) auto
  next
    case (E_Function n args)
    have "\<not> is_function_name (to_ascii_lowercase ''size'')" by code_simp
    with E_Function t assms(1) show ?thesis by auto
  qed (use t assms in auto)
  have "parse_primary (t # ts @ rest) d md =
      bind_r (parse_operand (t # ts @ rest)) (\<lambda>(left, r1). parse_after_operand left r1)"
    using nocall t(2) by (subst parse_primary.simps) auto
  with parse_operand_print [OF assms] t show ?thesis by simp
qed

lemma op_tok_simps [simp]: "op_tok op \<noteq> T_Dot" "op_tok op \<noteq> T_LBracket" "op_tok op \<noteq> T_LParen"
  "op_tok op \<noteq> T_RParen" "try_comparator (op_tok op) = Some op"
  by (cases op; simp)+

lemma in_list_print:
  assumes "es \<noteq> []" "list_all operand_ok es"
  shows "bind_r (parse_operand (comma_sep (map print_operand es) @ T_RParen # rest)) (\<lambda>(x, r2).
      bind_r (sep_loop T_Comma parse_operand snoc (length r2) [x] r2) k) = k (es, T_RParen # rest)"
proof -
  obtain e es' where es: "es = e # es'" using assms(1) by (cases es) auto
  let ?r2 = "concat (map ((#) T_Comma) (map print_operand es')) @ T_RParen # rest"
  have "ends_operand ?r2" by (cases es') auto
  then have "parse_operand (print_operand e @ ?r2) = Inr (e, ?r2)"
    using assms(2) es by (simp add: parse_operand_print)
  moreover have "sep_loop T_Comma parse_operand snoc (length ?r2) [e] ?r2 = Inr ([e] @ es', T_RParen # rest)"
    by (rule args_loop_print [OF _ _ _ refl]) (use assms(2) es in \<open>auto simp: list_all_iff parse_operand_print\<close>)
  ultimately show ?thesis by (simp add: es del: length_append)
qed

text \<open>The three atomic conditions and the five functions.\<close>

fun is_atom :: "Expr \<Rightarrow> bool" where
  "is_atom (E_And _ _) \<longleftrightarrow> False"
| "is_atom (E_Or _ _) \<longleftrightarrow> False"
| "is_atom (E_Not _) \<longleftrightarrow> False"
| "is_atom _ \<longleftrightarrow> True"

lemma print_atom_lvl: "is_atom e \<Longrightarrow> print_cond lvl e = print_cond 0 e"
  by (cases e) auto

lemma parse_primary_atom:
  assumes "cond_ok e" "is_atom e" "ends_operand rest"
  shows "parse_primary (print_cond 0 e @ rest) d md = Inr (e, rest)"
proof (cases e)
  case (E_Compare l op r)
  with assms show ?thesis
    by (simp add: primary_of_operand parse_after_operand_def parse_operand_print)
next
  case (E_Between x l h)
  with assms show ?thesis
    by (simp add: primary_of_operand parse_after_operand_def parse_operand_print expect_token_def)
next
  case (E_In x es)
  with assms show ?thesis
    by (simp add: primary_of_operand parse_after_operand_def in_list_print expect_token_def)
next
  case (E_Function n args)
  with assms have n: "is_function_name n" "list_all operand_ok args" by simp_all
  from n(1) have "n \<in> set [''attribute_exists'', ''attribute_not_exists'', ''attribute_type'', ''begins_with'', ''contains'']"
    by (simp add: is_function_name_def)
  moreover have "\<forall>n \<in> set [''attribute_exists'', ''attribute_not_exists'', ''attribute_type'', ''begins_with'', ''contains''].
      to_ascii_lowercase n = n" by code_simp
  ultimately have l: "to_ascii_lowercase n = n" by blast
  have "parse_function_call (T_Ident n # T_LParen # comma_sep (map print_operand args) @ T_RParen # rest) =
      Inr (E_Function (to_ascii_lowercase n) args, rest)"
    by (rule parse_function_call_print) (use n(2) in \<open>auto simp: list_all_iff parse_operand_print\<close>)
  with l n(1) E_Function show ?thesis by (subst parse_primary.simps) simp
qed (use assms in auto)

lemma print_atom_start:
  assumes "cond_ok e" "is_atom e"
  obtains t ts where "print_cond lvl e = t # ts" "t \<noteq> T_RParen" "t \<noteq> T_LParen" "t \<noteq> T_Not"
proof (cases e)
  case (E_Function n args)
  then show ?thesis using that by simp
next
  case (E_Compare l op r)
  then have "operand_ok l" using assms by simp
  then show ?thesis by (rule print_operand_start) (use that E_Compare in auto)
next
  case (E_Between l lo hi)
  then have "operand_ok l" using assms by simp
  then show ?thesis by (rule print_operand_start) (use that E_Between in auto)
next
  case (E_In l es)
  then have "operand_ok l" using assms by simp
  then show ?thesis by (rule print_operand_start) (use that E_In in auto)
qed (use assms in auto)

lemma parse_not_atom:
  assumes "cond_ok e" "is_atom e" "ends_operand rest"
  shows "parse_not (print_cond lvl e @ rest) d md = Inr (e, rest)"
proof -
  obtain t ts where "print_cond 0 e = t # ts" "t \<noteq> T_Not" using assms(1,2) by (rule print_atom_start)
  with parse_primary_atom [OF assms] print_atom_lvl [OF assms(2)] show ?thesis
    by (subst parse_not.simps) simp
qed

lemma parse_not_paren:
  assumes "parse_or (ts @ T_RParen # rest) (Suc d) md = Inr (e, T_RParen # rest)" "Suc d \<le> md"
  shows "parse_not (T_LParen # ts @ T_RParen # rest) d md = Inr (e, rest)"
  using assms by (subst parse_not.simps, subst parse_primary.simps) (simp add: expect_token_def)

definition reads_back :: "Expr \<Rightarrow> bool" where
  "reads_back e \<longleftrightarrow> (\<forall>d md rest. ends_operand rest \<longrightarrow>
     (d + cond_depth 0 e \<le> md \<longrightarrow> (rest = [] \<or> hd rest \<noteq> T_And) \<longrightarrow>
       parse_or (print_cond 0 e @ rest) d md = sep_loop T_Or (\<lambda>x. parse_and x d md) E_Or (length rest) e rest) \<and>
     (d + cond_depth 1 e \<le> md \<longrightarrow>
       parse_and (print_cond 1 e @ rest) d md = sep_loop T_And (\<lambda>x. parse_not x d md) E_And (length rest) e rest) \<and>
     (d + cond_depth 2 e \<le> md \<longrightarrow> parse_not (print_cond 2 e @ rest) d md = Inr (e, rest)))"

lemma reads_backD:
  assumes "reads_back e" "ends_operand rest"
  shows "d + cond_depth 0 e \<le> md \<Longrightarrow> rest = [] \<or> hd rest \<noteq> T_And \<Longrightarrow>
      parse_or (print_cond 0 e @ rest) d md = sep_loop T_Or (\<lambda>x. parse_and x d md) E_Or (length rest) e rest"
    and "d + cond_depth 1 e \<le> md \<Longrightarrow>
      parse_and (print_cond 1 e @ rest) d md = sep_loop T_And (\<lambda>x. parse_not x d md) E_And (length rest) e rest"
    and "d + cond_depth 2 e \<le> md \<Longrightarrow> parse_not (print_cond 2 e @ rest) d md = Inr (e, rest)"
  using assms unfolding reads_back_def by blast+

lemma or_of_not:
  assumes "parse_not ts d md = Inr (e, rest)" "rest = [] \<or> hd rest \<noteq> T_And"
  shows "parse_or ts d md = sep_loop T_Or (\<lambda>x. parse_and x d md) E_Or (length rest) e rest"
  by (rule or_of_and) (simp add: and_of_not [OF assms(1)] sep_loop_stop [OF assms(2)])

text \<open>A tree printed the same way at every level is read back once \<open>parse_not\<close> reads it back.\<close>

lemma reads_backI_not:
  assumes "print_cond 0 e = print_cond 2 e" "print_cond 1 e = print_cond 2 e"
    and "cond_depth 0 e = cond_depth 2 e" "cond_depth 1 e = cond_depth 2 e"
    and "\<And>d md rest. ends_operand rest \<Longrightarrow> d + cond_depth 2 e \<le> md \<Longrightarrow> parse_not (print_cond 2 e @ rest) d md = Inr (e, rest)"
  shows "reads_back e"
  unfolding reads_back_def using assms and_of_not or_of_not by simp

lemma reads_back_atom:
  assumes "cond_ok e" "is_atom e"
  shows "reads_back e"
proof (rule reads_backI_not)
  show "print_cond 0 e = print_cond 2 e" "print_cond 1 e = print_cond 2 e"
    using print_atom_lvl [OF assms(2)] by metis+
  show "cond_depth 0 e = cond_depth 2 e" "cond_depth 1 e = cond_depth 2 e"
    using assms(2) by (cases e; simp)+
qed (rule parse_not_atom [OF assms])

lemma reads_back_cond: "cond_ok e \<Longrightarrow> reads_back e"
proof (induction e)
  case (E_Not e)
  then have IH: "reads_back e" by simp
  show ?case
    by (rule reads_backI_not) (auto simp: parse_not.simps [of "T_Not # _"] reads_backD(3) [OF IH])
next
  case (E_And l r)
  then have l: "reads_back l" and r: "reads_back r" by simp_all
  have A1: "parse_and (print_cond 1 (E_And l r) @ rest) d md =
      sep_loop T_And (\<lambda>x. parse_not x d md) E_And (length rest) (E_And l r) rest"
    if "ends_operand rest" "d + cond_depth 1 (E_And l r) \<le> md" for rest d md
  proof -
    have "parse_not (print_cond 2 r @ rest) d md = Inr (r, rest)" using reads_backD(3) [OF r] that by simp
    note step = not_p.loop_step [OF this]
    show ?thesis using reads_backD(2) [OF l, of "T_And # print_cond 2 r @ rest" d md] that
      unfolding step by (simp add: paren_if_def)
  qed
  have A0: "parse_or (print_cond 0 (E_And l r) @ rest) d md =
      sep_loop T_Or (\<lambda>x. parse_and x d md) E_Or (length rest) (E_And l r) rest"
    if "ends_operand rest" "d + cond_depth 0 (E_And l r) \<le> md" "rest = [] \<or> hd rest \<noteq> T_And" for rest d md
  proof -
    have "parse_and (print_cond 1 (E_And l r) @ rest) d md = Inr (E_And l r, rest)"
      using A1 [of rest d md] that by (simp add: sep_loop_stop)
    from or_of_and [OF this] show ?thesis by (simp add: paren_if_def)
  qed
  have "parse_not (print_cond 2 (E_And l r) @ rest) d md = Inr (E_And l r, rest)"
    if "ends_operand rest" "d + cond_depth 2 (E_And l r) \<le> md" for rest d md
    using parse_not_paren [of "print_cond 0 (E_And l r)" rest d md "E_And l r"] that
      A0 [of "T_RParen # rest" "Suc d" md] by (simp add: sep_loop_stop paren_if_def)
  with A0 A1 show ?case unfolding reads_back_def by blast
next
  case (E_Or l r)
  then have l: "reads_back l" and r: "reads_back r" by simp_all
  have A0: "parse_or (print_cond 0 (E_Or l r) @ rest) d md =
      sep_loop T_Or (\<lambda>x. parse_and x d md) E_Or (length rest) (E_Or l r) rest"
    if "ends_operand rest" "d + cond_depth 0 (E_Or l r) \<le> md" "rest = [] \<or> hd rest \<noteq> T_And" for rest d md
  proof -
    have "parse_and (print_cond 1 r @ rest) d md = Inr (r, rest)"
      using reads_backD(2) [OF r] that by (simp add: sep_loop_stop)
    note step = and_p.loop_step [OF this]
    show ?thesis using reads_backD(1) [OF l, of "T_Or # print_cond 1 r @ rest" d md] that
      unfolding step by (simp add: paren_if_def)
  qed
  have A2: "parse_not (print_cond 2 (E_Or l r) @ rest) d md = Inr (E_Or l r, rest)"
    if "ends_operand rest" "d + cond_depth 2 (E_Or l r) \<le> md" for rest d md
    using parse_not_paren [of "print_cond 0 (E_Or l r)" rest d md "E_Or l r"] that
      A0 [of "T_RParen # rest" "Suc d" md] by (simp add: sep_loop_stop paren_if_def)
  have "parse_and (print_cond 1 (E_Or l r) @ rest) d md =
      sep_loop T_And (\<lambda>x. parse_not x d md) E_And (length rest) (E_Or l r) rest"
    if "ends_operand rest" "d + cond_depth 1 (E_Or l r) \<le> md" for rest d md
    using and_of_not [OF A2 [of rest d md]] that by (simp add: paren_if_def)
  with A0 A2 show ?case unfolding reads_back_def by blast
qed (simp_all add: reads_back_atom)

subsection \<open>The printer writes no redundant parentheses\<close>

text \<open>A token list that leaves the stack of \<open>check_redundant_parens\<close> as it found it.\<close>

definition neutral :: "Token list \<Rightarrow> bool" where
  "neutral xs \<longleftrightarrow> xs \<noteq> [] \<and> last xs \<noteq> T_LParen \<and>
     (\<forall>prev st rest. check_parens prev st (xs @ rest) = check_parens (Some (last xs)) st rest)"

text \<open>The same for a parenthesised group, unless it is the whole content of another one.\<close>

definition group_neutral :: "Token list \<Rightarrow> bool" where
  "group_neutral xs \<longleftrightarrow> xs \<noteq> [] \<and> last xs \<noteq> T_LParen \<and>
     (\<forall>prev st rest. prev \<noteq> Some T_LParen \<or> rest = [] \<or> hd rest \<noteq> T_RParen \<longrightarrow>
        check_parens prev st (xs @ rest) = check_parens (Some (last xs)) st rest)"

lemma neutral_group: "neutral xs \<Longrightarrow> group_neutral xs"
  by (simp add: neutral_def group_neutral_def)

lemma neutral_single [simp]: "t \<noteq> T_LParen \<Longrightarrow> t \<noteq> T_RParen \<Longrightarrow> neutral [t]"
  by (simp add: neutral_def)

lemma neutral_append: "neutral xs \<Longrightarrow> neutral ys \<Longrightarrow> neutral (xs @ ys)"
  by (simp add: neutral_def)

lemma neutral_Cons: "t \<noteq> T_LParen \<Longrightarrow> t \<noteq> T_RParen \<Longrightarrow> neutral ys \<Longrightarrow> neutral (t # ys)"
  by (simp add: neutral_def)

lemma neutral_infix:
  "group_neutral xs \<Longrightarrow> group_neutral ys \<Longrightarrow> t \<noteq> T_LParen \<Longrightarrow> t \<noteq> T_RParen \<Longrightarrow> neutral (xs @ t # ys)"
  by (simp add: neutral_def group_neutral_def)

lemma neutral_prefix: "group_neutral ys \<Longrightarrow> t \<noteq> T_LParen \<Longrightarrow> t \<noteq> T_RParen \<Longrightarrow> neutral (t # ys)"
  by (simp add: neutral_def group_neutral_def)

lemma group_neutral_paren: "neutral xs \<Longrightarrow> group_neutral (T_LParen # xs @ [T_RParen])"
  by (auto simp: neutral_def group_neutral_def)

lemma neutral_call:
  "t \<noteq> T_LParen \<Longrightarrow> t \<noteq> T_RParen \<Longrightarrow> xs = [] \<or> neutral xs \<Longrightarrow> neutral (t # T_LParen # xs @ [T_RParen])"
  by (auto simp: neutral_def)

lemma neutral_comma_sep: "xss \<noteq> [] \<Longrightarrow> list_all neutral xss \<Longrightarrow> neutral (comma_sep xss)"
proof -
  have "list_all neutral yss \<Longrightarrow> neutral x \<Longrightarrow> neutral (x @ concat (map ((#) T_Comma) yss))" for x yss
  proof (induction yss arbitrary: x)
    case (Cons y yss)
    then have "neutral (x @ T_Comma # y)" by (simp add: neutral_append neutral_Cons)
    with Cons.IH [of "x @ T_Comma # y"] Cons.prems show ?case by simp
  qed simp
  then show "xss \<noteq> [] \<Longrightarrow> list_all neutral xss \<Longrightarrow> neutral (comma_sep xss)" by (cases xss) auto
qed

lemma neutral_elems: "neutral xs \<Longrightarrow> neutral (xs @ concat (map print_elem els))"
proof (induction els arbitrary: xs)
  case (Cons e els)
  have "neutral (print_elem e)" by (cases e) (simp_all add: neutral_def)
  then have "neutral (xs @ print_elem e)" using Cons.prems by (rule neutral_append [rotated])
  with Cons.IH [of "xs @ print_elem e"] show ?case by simp
qed simp

lemma neutral_operand: "operand_ok e \<Longrightarrow> neutral (print_operand e)"
proof (induction e)
  case (E_Path els)
  then obtain s es where "els = P_Attribute s # es" by (cases els rule: path_ok.cases) auto
  with neutral_elems [of "[name_tok s]" es] show ?case by simp
next
  case (E_Function n args)
  then have "list_all neutral (map print_operand args)" by (auto simp: list_all_iff)
  with neutral_comma_sep [of "map print_operand args"] show ?case
    using neutral_call [of "T_Ident n" "comma_sep (map print_operand args)"] by (cases "args = []") auto
qed simp_all

lemma neutral_args: "list_all operand_ok es \<Longrightarrow> comma_sep (map print_operand es) = [] \<or> neutral (comma_sep (map print_operand es))"
  by (cases "es = []") (auto intro!: neutral_comma_sep neutral_operand simp: list_all_iff)

lemma neutral_atom: "cond_ok e \<Longrightarrow> is_atom e \<Longrightarrow> neutral (print_cond lvl e)"
proof (cases e)
  case (E_In x es)
  then show "cond_ok e \<Longrightarrow> is_atom e \<Longrightarrow> neutral (print_cond lvl e)"
    using neutral_append [OF neutral_operand neutral_call [of T_In]] neutral_args by simp
qed (auto intro!: neutral_infix neutral_call neutral_operand neutral_args neutral_group)

lemma group_neutral_cond:
  "cond_ok e \<Longrightarrow> group_neutral (print_cond lvl e) \<and> (lvl = 0 \<longrightarrow> neutral (print_cond lvl e))"
proof (induction e arbitrary: lvl)
  case (E_Or l r)
  then have "neutral (print_cond 0 l @ T_Or # print_cond 1 r)" by (intro neutral_infix) auto
  from this group_neutral_paren [OF this] show ?case by (simp add: paren_if_def neutral_group)
next
  case (E_And l r)
  then have "neutral (print_cond 1 l @ T_And # print_cond 2 r)" by (intro neutral_infix) auto
  from this group_neutral_paren [OF this] show ?case by (simp add: paren_if_def neutral_group)
next
  case (E_Not e)
  then have "neutral (T_Not # print_cond 2 e)" by (intro neutral_prefix) auto
  then show ?case by (auto simp: neutral_group)
qed (auto intro!: neutral_group neutral_atom simp del: print_cond.simps)

lemma check_redundant_print: "cond_ok e \<Longrightarrow> check_redundant_parens (print_cond 0 e) = Inr ()"
  using group_neutral_cond [of e 0] unfolding neutral_def check_redundant_parens_def
  by (metis append_Nil2 check_parens.simps(1))

lemma parse_printed:
  assumes "cond_ok e" "cond_depth 0 e \<le> md"
  shows "parse_condition_with_depth_limit (print_cond 0 e) md = Inr e"
proof -
  have "parse_or (print_cond 0 e @ []) 0 md = Inr (e, [])"
    using reads_backD(1) [OF reads_back_cond [OF assms(1)], of "[]" 0 md] assms(2) by simp
  with check_redundant_print [OF assms(1)] show ?thesis
    by (simp add: parse_condition_with_depth_limit_def map_err_def)
qed

subsection \<open>Everything the parser returns is such a tree\<close>

lemma parse_usize_bound: "parse_usize s = Some i \<Longrightarrow> i < 2 ^ 64"
  by (auto simp: parse_usize_def Let_def split: if_split_asm)

lemma attr_elem_Attribute: "attr_elem t = Some e \<Longrightarrow> \<exists>s. e = P_Attribute s"
  by (cases t) auto

lemma parse_path_loop_ok:
  "parse_path_loop els r = Inr (x, r') \<Longrightarrow> path_ok els \<Longrightarrow> path_ok x"
proof (induction els r arbitrary: x rule: parse_path_loop.induct)
  case (2 els t r)
  have snoc: "path_ok (els @ [e])" if "elem_ok e" for e
    using that "2.prems"(2) by (cases els rule: path_ok.cases) auto
  show ?case
  proof (cases "t = T_Dot")
    case True
    with "2.prems" obtain t2 r2 e where "r = t2 # r2" "attr_elem t2 = Some e" "parse_path_loop (els @ [e]) r2 = Inr (x, r')"
      by (auto split: list.split_asm option.split_asm)
    moreover from this have "path_ok (els @ [e])" using attr_elem_Attribute snoc by fastforce
    ultimately show ?thesis using "2.IH"(1) True by blast
  next
    case False
    show ?thesis
    proof (cases "t = T_LBracket")
      case True
      with False "2.prems" obtain t2 r3 s i where t2: "r = t2 # T_RBracket # r3" "ident_tok t2 = Some s"
        "parse_usize s = Some i" "parse_path_loop (els @ [P_Index i]) r3 = Inr (x, r')"
        by (auto simp: ok_or_def split: list.split_asm option.split_asm)
      moreover from t2 have "path_ok (els @ [P_Index i])" using snoc parse_usize_bound by simp
      ultimately show ?thesis using "2.IH"(2) False True by (simp add: ok_or_def)
    qed (use False 2 in simp)
  qed
qed simp

lemma parse_path_ok: "parse_path r = Inr (x, r') \<Longrightarrow> path_ok x"
  by (auto simp: parse_path_def split: list.split_asm option.split_asm
      dest!: attr_elem_Attribute parse_path_loop_ok)

lemma eq_size: "eq_ignore_ascii_case n ''size'' \<Longrightarrow> to_ascii_lowercase n = ''size''"
proof -
  have "to_ascii_lowercase ''size'' = ''size''" by code_simp
  then show "eq_ignore_ascii_case n ''size'' \<Longrightarrow> to_ascii_lowercase n = ''size''"
    by (simp add: eq_ignore_ascii_case_def)
qed

lemma operand_call_ok:
  "(parse_operand r = Inr (e, r') \<longrightarrow> operand_ok e) \<and>
   (parse_function_call r = Inr (e, r') \<longrightarrow>
     (\<exists>n args. r \<noteq> [] \<and> hd r = T_Ident n \<and> e = E_Function (to_ascii_lowercase n) args \<and> list_all operand_ok args))"
proof (induction "length r" arbitrary: r e r' rule: less_induct)
  case less
  have IH: "length q < length r \<Longrightarrow> parse_operand q = Inr (y, q') \<Longrightarrow> operand_ok y" for q y q'
    using less by blast
  have call: "\<exists>n args. r \<noteq> [] \<and> hd r = T_Ident n \<and> e = E_Function (to_ascii_lowercase n) args \<and> list_all operand_ok args"
    if "parse_function_call r = Inr (e, r')"
  proof -
    from that obtain n r1 args r3 where r: "r = T_Ident n # T_LParen # r1"
      and a: "(if r1 \<noteq> [] \<and> hd r1 \<noteq> T_RParen
               then bind_r (parse_operand r1) (\<lambda>(a, r2). sep_loop T_Comma parse_operand snoc (length r1) [a] r2)
               else Inr ([], r1)) = Inr (args, r3)"
      and e: "e = E_Function (to_ascii_lowercase n) args"
      by (subst (asm) parse_function_call.simps)
        (force split: list.split_asm option.split_asm elim!: ident_tok.elims)
    have "list_all operand_ok args"
    proof (cases "r1 \<noteq> [] \<and> hd r1 \<noteq> T_RParen")
      case True
      with a obtain y r2 where y: "parse_operand r1 = Inr (y, r2)"
        "sep_loop T_Comma parse_operand snoc (length r1) [y] r2 = Inr (args, r3)" by auto
      show ?thesis
        by (rule sep_loop_invariant [OF y(2)]) (use IH [OF _ y(1)] r in \<open>auto dest: IH [rotated]\<close>)
    qed (use a in auto)
    with r e show ?thesis by simp
  qed
  moreover have "operand_ok e" if p: "parse_operand r = Inr (e, r')"
  proof (cases "parse_function_call r = Inr (e, r') \<and> (\<exists>n. r \<noteq> [] \<and> hd r = T_Ident n \<and> eq_ignore_ascii_case n ''size'')")
    case True
    with call show ?thesis using eq_size by auto
  next
    case False
    then show ?thesis using p
      by (subst (asm) parse_operand.simps)
        (auto split: list.split_asm Token.split_asm if_split_asm dest: parse_path_ok simp: path_expr_def)
  qed
  ultimately show ?case by blast
qed

lemmas parse_operand_ok = operand_call_ok [THEN conjunct1, rule_format]
lemmas parse_function_call_ok = operand_call_ok [THEN conjunct2, rule_format]

lemma args_loop_ok:
  assumes "sep_loop T_Comma parse_operand snoc n acc r = Inr (es, r')" "acc \<noteq> [] \<and> list_all operand_ok acc"
  shows "es \<noteq> [] \<and> list_all operand_ok es"
  by (rule sep_loop_invariant [OF assms(1)]) (use assms(2) in \<open>auto dest: parse_operand_ok\<close>)

lemma parse_after_operand_cases:
  assumes "parse_after_operand l r = Inr (e, r')"
  obtains op x q where "parse_operand q = Inr (x, r')" "e = E_Compare l op x"
  | lo hi q1 q2 q3 where "parse_operand q1 = Inr (lo, q2)" "parse_operand q3 = Inr (hi, r')" "e = E_Between l lo hi"
  | x es q1 q2 q3 n where "parse_operand q1 = Inr (x, q2)"
      "sep_loop T_Comma parse_operand snoc n [x] q2 = Inr (es, q3)" "e = E_In l es"
proof -
  from assms obtain t q where r: "r = t # q" by (cases r) (simp_all add: parse_after_operand_def)
  show ?thesis
  proof (cases "try_comparator t")
    case (Some op)
    with assms that(1) show ?thesis by (auto simp: parse_after_operand_def r)
  next
    case None
    show ?thesis
    proof (cases "t = T_Between")
      case True
      with assms None that(2) show ?thesis by (auto simp: parse_after_operand_def r)
    next
      case False
      with None assms that(3) show ?thesis by (auto simp: parse_after_operand_def r split: if_split_asm)
    qed
  qed
qed

lemma parse_after_operand_ok:
  assumes "parse_after_operand l r = Inr (e, r')" "operand_ok l"
  shows "cond_ok e \<and> is_atom e"
  using assms(1)
proof (cases rule: parse_after_operand_cases)
  case 1
  then show ?thesis using parse_operand_ok [OF 1(1)] assms(2) by simp
next
  case 2
  then show ?thesis using parse_operand_ok [OF 2(1)] parse_operand_ok [OF 2(2)] assms(2) by simp
next
  case 3
  then show ?thesis using args_loop_ok [OF 3(2)] parse_operand_ok [OF 3(1)] assms(2) by simp
qed

lemma cond_depth_mono:
  "cond_depth 0 e \<le> cond_depth 1 e" "cond_depth 1 e \<le> cond_depth 2 e" "cond_depth 2 e \<le> Suc (cond_depth 0 e)"
  by (cases e; simp add: le_SucI)+

lemma cond_depth_atom: "is_atom e \<Longrightarrow> cond_depth lvl e = 0"
  by (cases e) auto

lemma parse_cond_ok:
  "d \<le> md \<Longrightarrow>
   (parse_or r d md = Inr (e, r') \<longrightarrow> cond_ok e \<and> d + cond_depth 0 e \<le> md) \<and>
   (parse_and r d md = Inr (e, r') \<longrightarrow> cond_ok e \<and> d + cond_depth 1 e \<le> md) \<and>
   (parse_not r d md = Inr (e, r') \<longrightarrow> cond_ok e \<and> d + cond_depth 2 e \<le> md)"
proof (induction "length r" arbitrary: r d e r' rule: less_induct)
  case less
  have IH: "length q < length r \<Longrightarrow> c \<le> md \<Longrightarrow> parse_or q c md = Inr (y, q') \<Longrightarrow> cond_ok y \<and> c + cond_depth 0 y \<le> md"
    "length q < length r \<Longrightarrow> c \<le> md \<Longrightarrow> parse_and q c md = Inr (y, q') \<Longrightarrow> cond_ok y \<and> c + cond_depth 1 y \<le> md"
    "length q < length r \<Longrightarrow> c \<le> md \<Longrightarrow> parse_not q c md = Inr (y, q') \<Longrightarrow> cond_ok y \<and> c + cond_depth 2 y \<le> md"
    for q c y q'
    using less(1) by blast+
  have atom: "cond_ok y \<and> d + cond_depth 2 y \<le> md" if "cond_ok y \<and> is_atom y" for y
    using that cond_depth_atom less(2) by simp
  have prim: "cond_ok y \<and> d + cond_depth 2 y \<le> md" if p: "parse_primary r d md = Inr (y, r')" for y r'
  proof (cases "r \<noteq> [] \<and> hd r = T_LParen")
    case True
    then obtain q where q: "r = T_LParen # q" by (cases r) auto
    with p obtain r1 where r1: "Suc d \<le> md" "parse_or q (Suc d) md = Inr (y, r1)"
      by (subst (asm) parse_primary.simps) (auto split: if_split_asm)
    from IH(1) [OF _ r1] q show ?thesis using cond_depth_mono(3) [of y] by simp
  next
    case False
    show ?thesis
    proof (rule atom)
      from p False show "cond_ok y \<and> is_atom y"
        by (subst (asm) parse_primary.simps)
          (auto split: list.split_asm if_split_asm option.split_asm elim!: ident_tok.elims
            dest!: parse_function_call_ok parse_after_operand_ok dest: parse_operand_ok)
    qed
  qed
  have not: "cond_ok y \<and> d + cond_depth 2 y \<le> md" if p: "parse_not r d md = Inr (y, r')" for y r'
  proof (cases "r \<noteq> [] \<and> hd r = T_Not")
    case True
    then obtain q where q: "r = T_Not # q" by (cases r) auto
    with p obtain z where z: "Suc d \<le> md" "parse_not q (Suc d) md = Inr (z, r')" "y = E_Not z"
      by (subst (asm) parse_not.simps) (auto split: if_split_asm)
    from IH(3) [OF _ z(1,2)] q z(3) show ?thesis by simp
  next
    case False
    with p prim show ?thesis by (subst (asm) parse_not.simps) auto
  qed
  have "and": "cond_ok y \<and> d + cond_depth 1 y \<le> md" if p: "parse_and r d md = Inr (y, r')" for y r'
  proof -
    from p obtain x q where x: "parse_not r d md = Inr (x, q)"
      "sep_loop T_And (\<lambda>x. parse_not x d md) E_And (length r) x q = Inr (y, r')"
      by (subst (asm) parse_and.simps) auto
    show ?thesis
      by (rule sep_loop_invariant [OF x(2)])
        (use not [OF x(1)] cond_depth_mono(2) [of x] IH(3) [OF _ less(2)] in fastforce)+
  qed
  have "cond_ok y \<and> d + cond_depth 0 y \<le> md" if p: "parse_or r d md = Inr (y, r')" for y r'
  proof -
    from p obtain x q where x: "parse_and r d md = Inr (x, q)"
      "sep_loop T_Or (\<lambda>x. parse_and x d md) E_Or (length r) x q = Inr (y, r')"
      by (subst (asm) parse_or.simps) auto
    show ?thesis
      by (rule sep_loop_invariant [OF x(2)])
        (use "and" [OF x(1)] cond_depth_mono(1) [of x] IH(2) [OF _ less(2)] in fastforce)+
  qed
  with not "and" show ?case by blast
qed

lemma parsed_ok:
  "parse_condition_with_depth_limit ts md = Inr e \<Longrightarrow> cond_ok e \<and> cond_depth 0 e \<le> md"
  using parse_cond_ok [of 0 md ts e] by (auto simp: parse_condition_with_depth_limit_def split: if_split_asm)

subsection \<open>Properties\<close>

text \<open>
  C5: the trees the condition parser returns are exactly the well-formed conditions whose nesting depth
  is within the limit: no other tree ever reaches the evaluator, and every such tree has an expression.
\<close>

theorem parse_condition_language:
  "(\<exists>tokens. parse_condition_with_depth_limit tokens max_depth = Inr e) \<longleftrightarrow>
     cond_ok e \<and> cond_depth 0 e \<le> max_depth"
  using parsed_ok parse_printed by blast

text \<open>
  C6: writing a parsed condition out again with only the parentheses that precedence requires, and
  parsing that, gives the same tree: \<open>OR\<close> binds weaker than \<open>AND\<close>, \<open>AND\<close> weaker than \<open>NOT\<close>, both
  operators group to the left, and the output never trips the redundant parenthesis check.
\<close>

theorem parse_print_roundtrip:
  assumes "parse_condition_with_depth_limit tokens max_depth = Inr e"
  shows "parse_condition_with_depth_limit (print_cond 0 e) max_depth = Inr e"
  using parsed_ok [OF assms] parse_printed by blast

theorem parse_print_roundtrip_witness:
  "parse_condition_with_depth_limit
     [T_LParen, T_Ident ''a'', T_Eq, T_Placeholder ''v'', T_RParen, T_Or, T_Not,
      T_Ident ''contains'', T_LParen, T_NameRef ''t'', T_Comma, T_Placeholder ''w'', T_RParen] 5 =
     parse_condition_with_depth_limit
     [T_Ident ''a'', T_Eq, T_Placeholder ''v'', T_Or, T_Not,
      T_Ident ''contains'', T_LParen, T_NameRef ''t'', T_Comma, T_Placeholder ''w'', T_RParen] 5"
proof -
  have h: "parse_condition_with_depth_limit
     [T_LParen, T_Ident ''a'', T_Eq, T_Placeholder ''v'', T_RParen, T_Or, T_Not,
      T_Ident ''contains'', T_LParen, T_NameRef ''t'', T_Comma, T_Placeholder ''w'', T_RParen] 5 =
     Inr (E_Or (E_Compare (E_Path [P_Attribute ''a'']) Op_Eq (E_Placeholder ''v''))
        (E_Not (E_Function ''contains'' [E_Path [P_Attribute ''#t''], E_Placeholder ''w''])))"
    by code_simp
  from parse_print_roundtrip [OF h] h show ?thesis
    by (simp add: name_tok_def paren_if_def)
qed

end
