(* ===== verification/Resolver.thy ===== *)
theory Resolver
  imports Expr_Ast Attr_Value DynamoDb_Error
begin

text \<open>
  \<open>crates/core/src/expression/resolver.rs\<close>: the attribute names and values of a request, document
  paths, and the checks on an expression that run before it is evaluated.

  The crate \<open>bigdecimal\<close> is the record \<open>bd_ops\<close> of the operations the code calls; \<open>bd_lawful\<close> states what
  its comparison is documented to be, a total order.  A \<open>HashMap\<close> is an association list whose order
  stands for the unspecified iteration order, a \<open>HashSet\<close> that is only filled and queried is a set.
\<close>

subsection \<open>Decimal arithmetic\<close>

record 'd bd_ops =
  bd_parse :: "string \<Rightarrow> 'd option"
  bd_cmp :: "'d \<Rightarrow> 'd \<Rightarrow> Ordering"
  bd_add :: "'d \<Rightarrow> 'd \<Rightarrow> 'd"
  bd_sub :: "'d \<Rightarrow> 'd \<Rightarrow> 'd"
  bd_to_string :: "'d \<Rightarrow> string"

definition bd_lawful :: "'d bd_ops \<Rightarrow> bool" where
  "bd_lawful B \<longleftrightarrow>
     (\<forall>x. bd_cmp B x x = Equal) \<and>
     (\<forall>x y. bd_cmp B y x = reverse_ord (bd_cmp B x y)) \<and>
     (\<forall>x y z. bd_cmp B x y \<noteq> Greater \<longrightarrow> bd_cmp B y z \<noteq> Greater \<longrightarrow> bd_cmp B x z \<noteq> Greater)"

subsection \<open>Names and values\<close>

record 'd ExpressionMaps =
  em_names :: "(string \<times> string) list"
  em_values :: "(string \<times> AttributeValue) list"
  em_legacy_attribute_updates :: bool
  em_parsed_numerics :: "string \<rightharpoonup> 'd"

definition parse_numeric_into :: "'d bd_ops \<Rightarrow> (string \<rightharpoonup> 'd) \<Rightarrow> string \<times> AttributeValue \<Rightarrow> (string \<rightharpoonup> 'd)" where
  "parse_numeric_into B m kv =
     (case snd kv of
        AV_N n \<Rightarrow> (case bd_parse B n of Some d \<Rightarrow> m(fst kv \<mapsto> d) | None \<Rightarrow> m)
      | _ \<Rightarrow> m)"

definition pre_parse_numerics :: "'d bd_ops \<Rightarrow> 'd ExpressionMaps \<Rightarrow> 'd ExpressionMaps" where
  "pre_parse_numerics B maps =
     maps\<lparr>em_parsed_numerics := foldl (parse_numeric_into B) (em_parsed_numerics maps) (em_values maps)\<rparr>"

definition maps_new :: "'d bd_ops \<Rightarrow> (string \<times> string) list \<Rightarrow> (string \<times> AttributeValue) list \<Rightarrow> 'd ExpressionMaps" where
  "maps_new B names values =
     pre_parse_numerics B \<lparr>em_names = names, em_values = values, em_legacy_attribute_updates = False,
       em_parsed_numerics = Map.empty\<rparr>"

definition undefined_name_err :: "string \<Rightarrow> DynamoDbError" where
  "undefined_name_err name_ref =
     validation_err (''An expression attribute name used in the document path is not defined; attribute name: #'' @ name_ref)"

definition undefined_value_err :: "string \<Rightarrow> DynamoDbError" where
  "undefined_value_err placeholder =
     validation_err (''An expression attribute value used in expression is not defined; attribute value: :'' @ placeholder)"

definition resolve_name :: "'d ExpressionMaps \<Rightarrow> string \<Rightarrow> string ddb_result" where
  "resolve_name maps name_ref =
     ok_or (map_of (em_names maps) name_ref) (undefined_name_err name_ref)"

definition resolve_value :: "'d ExpressionMaps \<Rightarrow> string \<Rightarrow> AttributeValue ddb_result" where
  "resolve_value maps placeholder =
     ok_or (map_of (em_values maps) placeholder) (undefined_value_err placeholder)"

definition resolve_value_for :: "'d ExpressionMaps \<Rightarrow> string \<Rightarrow> string \<Rightarrow> AttributeValue ddb_result" where
  "resolve_value_for maps placeholder expr_type =
     ok_or (map_of (em_values maps) placeholder)
       (validation_err (''Invalid '' @ expr_type @
          '': An expression attribute value used in expression is not defined; attribute value: :'' @ placeholder))"

definition get_parsed_numeric :: "'d ExpressionMaps \<Rightarrow> string \<Rightarrow> 'd option" where
  "get_parsed_numeric maps placeholder = em_parsed_numerics maps placeholder"

definition resolve_name_ref :: "string \<Rightarrow> 'd ExpressionMaps \<Rightarrow> string ddb_result" where
  "resolve_name_ref name maps =
     (case strip_prefix name ''#'' of
        Some ref_name \<Rightarrow> resolve_name maps ref_name
      | None \<Rightarrow> Inr name)"

fun resolve_element_name :: "PathElement \<Rightarrow> 'd ExpressionMaps \<Rightarrow> string ddb_result" where
  "resolve_element_name (P_Attribute name) maps = resolve_name_ref name maps"
| "resolve_element_name (P_Index _) maps =
     Inl (validation_err ''Invalid expression: path cannot start with an index'')"

text \<open>The loop of \<open>resolve_path\<close> over \<open>elements[1..]\<close>, with \<open>current\<close> as its state.\<close>

fun resolve_steps :: "PathElement list \<Rightarrow> AttributeValue \<Rightarrow> 'd ExpressionMaps \<Rightarrow> AttributeValue option ddb_result" where
  "resolve_steps [] current maps = Inr (Some current)"
| "resolve_steps (P_Attribute name # els) current maps =
     bind_r (resolve_name_ref name maps) (\<lambda>resolved.
       case current of
         AV_M m \<Rightarrow> (case bt_get m resolved of Some v \<Rightarrow> resolve_steps els v maps | None \<Rightarrow> Inr None)
       | _ \<Rightarrow> Inr None)"
| "resolve_steps (P_Index idx # els) current maps =
     (case current of
        AV_L l \<Rightarrow> if idx < length l then resolve_steps els (l ! idx) maps else Inr None
      | _ \<Rightarrow> Inr None)"

definition resolve_path :: "PathElement list \<Rightarrow> Item \<Rightarrow> 'd ExpressionMaps \<Rightarrow> AttributeValue option ddb_result" where
  "resolve_path elements item maps =
     (case elements of
        [] \<Rightarrow> Inr None
      | e # els \<Rightarrow>
          bind_r (resolve_element_name e maps) (\<lambda>first_name.
            case bt_get item first_name of
              None \<Rightarrow> Inr None
            | Some current \<Rightarrow> resolve_steps els current maps))"

subsection \<open>Maps given without an expression, and unused entries\<close>

definition validate_expression_param_usage :: "(string \<times> string) list option \<Rightarrow> bool \<Rightarrow>
    (string \<times> AttributeValue) list option \<Rightarrow> bool \<Rightarrow> ExpressionKind list \<Rightarrow> unit ddb_result" where
  "validate_expression_param_usage names name_expr_present values value_expr_present value_expr_params =
     (if \<not> name_expr_present \<and> (case names of Some m \<Rightarrow> m \<noteq> [] | None \<Rightarrow> False)
      then Inl (validation_err ''ExpressionAttributeNames can only be specified when using expressions'')
      else if \<not> value_expr_present \<and> (case values of Some m \<Rightarrow> m \<noteq> [] | None \<Rightarrow> False)
      then
        (let base = ''ExpressionAttributeValues can only be specified when using expressions''
         in Inl (validation_err
           (case value_expr_params of
              [] \<Rightarrow> base
            | [one] \<Rightarrow> base @ '': '' @ kind_as_str one @ '' is null''
            | many \<Rightarrow> base @ '': '' @ join (map kind_as_str many) '' and '' @ '' are null'')))
      else Inr ())"

definition collect_path_refs :: "PathElement list \<Rightarrow> string set \<Rightarrow> string set" where
  "collect_path_refs elements names =
     foldl (\<lambda>names el.
       case el of
         P_Attribute name \<Rightarrow> (case strip_prefix name ''#'' of Some ref_name \<Rightarrow> insert ref_name names | None \<Rightarrow> names)
       | P_Index _ \<Rightarrow> names) names elements"

fun collect_expr_refs :: "Expr \<Rightarrow> string set \<times> string set \<Rightarrow> string set \<times> string set" where
  "collect_expr_refs (E_Path elements) nv = (collect_path_refs elements (fst nv), snd nv)"
| "collect_expr_refs (E_Placeholder name) nv = (fst nv, insert name (snd nv))"
| "collect_expr_refs (E_Compare l _ r) nv = collect_expr_refs r (collect_expr_refs l nv)"
| "collect_expr_refs (E_Arithmetic l _ r) nv = collect_expr_refs r (collect_expr_refs l nv)"
| "collect_expr_refs (E_And l r) nv = collect_expr_refs r (collect_expr_refs l nv)"
| "collect_expr_refs (E_Or l r) nv = collect_expr_refs r (collect_expr_refs l nv)"
| "collect_expr_refs (E_Not e) nv = collect_expr_refs e nv"
| "collect_expr_refs (E_Function _ args) nv = fold collect_expr_refs args nv"
| "collect_expr_refs (E_Between e l h) nv = collect_expr_refs h (collect_expr_refs l (collect_expr_refs e nv))"
| "collect_expr_refs (E_In e list) nv = fold collect_expr_refs list (collect_expr_refs e nv)"

fun collect_action_refs :: "UpdateAction \<Rightarrow> string set \<times> string set \<Rightarrow> string set \<times> string set" where
  "collect_action_refs (U_Set path v) nv = collect_expr_refs v (collect_path_refs path (fst nv), snd nv)"
| "collect_action_refs (U_Add path v) nv = collect_expr_refs v (collect_path_refs path (fst nv), snd nv)"
| "collect_action_refs (U_Delete path v) nv = collect_expr_refs v (collect_path_refs path (fst nv), snd nv)"
| "collect_action_refs (U_Remove path) nv = (collect_path_refs path (fst nv), snd nv)"

fun collect_value_placeholders :: "Expr \<Rightarrow> string list \<Rightarrow> string list" where
  "collect_value_placeholders (E_Placeholder name) out = out @ [name]"
| "collect_value_placeholders (E_Path _) out = out"
| "collect_value_placeholders (E_Compare l _ r) out = collect_value_placeholders r (collect_value_placeholders l out)"
| "collect_value_placeholders (E_Arithmetic l _ r) out = collect_value_placeholders r (collect_value_placeholders l out)"
| "collect_value_placeholders (E_And l r) out = collect_value_placeholders r (collect_value_placeholders l out)"
| "collect_value_placeholders (E_Or l r) out = collect_value_placeholders r (collect_value_placeholders l out)"
| "collect_value_placeholders (E_Not e) out = collect_value_placeholders e out"
| "collect_value_placeholders (E_Function _ args) out = fold collect_value_placeholders args out"
| "collect_value_placeholders (E_Between e l h) out =
     collect_value_placeholders h (collect_value_placeholders l (collect_value_placeholders e out))"
| "collect_value_placeholders (E_In e list) out =
     fold collect_value_placeholders list (collect_value_placeholders e out)"

text \<open>One of the two final loops: \<open>sigil\<close> is the \<open>#\<close> or the \<open>:\<close> that a key may carry.\<close>

definition check_used :: "string \<Rightarrow> string \<Rightarrow> string set \<Rightarrow> string \<Rightarrow> unit ddb_result" where
  "check_used sigil what used key =
     (if (case strip_prefix key sigil of Some k \<Rightarrow> k | None \<Rightarrow> key) \<notin> used
      then Inl (validation_err (''Value provided in '' @ what @ '' unused in expressions: keys: {'' @
             (if starts_with key sigil then key else sigil @ key) @ ''}''))
      else Inr ())"

definition validate_unused_attributes :: "(string \<times> string) list \<Rightarrow> (string \<times> AttributeValue) list \<Rightarrow> Expr list \<Rightarrow>
    UpdateAction list \<Rightarrow> string set \<Rightarrow> string set \<Rightarrow> unit ddb_result" where
  "validate_unused_attributes names values exprs update_actions key_condition_names key_condition_values =
     (let used = fold collect_action_refs update_actions
                   (fold collect_expr_refs exprs (key_condition_names, key_condition_values))
      in bind_r (try_each (check_used ''#'' ''ExpressionAttributeNames'' (fst used)) (map fst names)) (\<lambda>_.
         try_each (check_used '':'' ''ExpressionAttributeValues'' (snd used)) (map fst values)))"

subsection \<open>Operand types\<close>

definition operand_type_err :: "string \<Rightarrow> AttributeValue \<Rightarrow> DynamoDbError" where
  "operand_type_err label val =
     validation_err (''Incorrect operand type for operator or function; operator or function: '' @ label @
       '', operand type: '' @ attribute_type_code val)"

fun is_S_or_B :: "AttributeValue \<Rightarrow> bool" where
  "is_S_or_B (AV_S _) = True"
| "is_S_or_B (AV_B _) = True"
| "is_S_or_B _ = False"

fun is_orderable :: "AttributeValue \<Rightarrow> bool" where
  "is_orderable (AV_S _) = True"
| "is_orderable (AV_N _) = True"
| "is_orderable (AV_B _) = True"
| "is_orderable _ = False"

fun validate_begins_with_operands :: "Expr \<Rightarrow> 'd ExpressionMaps \<Rightarrow> unit ddb_result" where
  "validate_begins_with_operands (E_Function name args) maps =
     (if name = ''begins_with'' then
        (case args of
           [_, E_Placeholder placeholder] \<Rightarrow>
             (case map_of (em_values maps) placeholder of
                Some val \<Rightarrow> if \<not> is_S_or_B val then Inl (operand_type_err ''begins_with'' val) else Inr ()
              | None \<Rightarrow> Inr ())
         | _ \<Rightarrow> Inr ())
      else Inr ())"
| "validate_begins_with_operands (E_And l r) maps =
     bind_r (validate_begins_with_operands l maps) (\<lambda>_. validate_begins_with_operands r maps)"
| "validate_begins_with_operands (E_Or l r) maps =
     bind_r (validate_begins_with_operands l maps) (\<lambda>_. validate_begins_with_operands r maps)"
| "validate_begins_with_operands (E_Not e) maps = validate_begins_with_operands e maps"
| "validate_begins_with_operands _ maps = Inr ()"

fun ordering_op_symbol :: "CompareOp \<Rightarrow> string option" where
  "ordering_op_symbol Op_Lt = Some ''<''"
| "ordering_op_symbol Op_Le = Some ''<=''"
| "ordering_op_symbol Op_Gt = Some ''>''"
| "ordering_op_symbol Op_Ge = Some ''>=''"
| "ordering_op_symbol Op_Eq = None"
| "ordering_op_symbol Op_Ne = None"

fun reject_non_orderable_literal :: "Expr \<Rightarrow> 'd ExpressionMaps \<Rightarrow> string \<Rightarrow> unit ddb_result" where
  "reject_non_orderable_literal (E_Placeholder placeholder) maps op_label =
     (case map_of (em_values maps) placeholder of
        Some val \<Rightarrow> if \<not> is_orderable val then Inl (operand_type_err op_label val) else Inr ()
      | None \<Rightarrow> Inr ())"
| "reject_non_orderable_literal _ maps op_label = Inr ()"

fun validate_ordering_operand_types :: "Expr \<Rightarrow> 'd ExpressionMaps \<Rightarrow> unit ddb_result" where
  "validate_ordering_operand_types (E_Compare l op r) maps =
     (case ordering_op_symbol op of
        Some symbol \<Rightarrow>
          bind_r (reject_non_orderable_literal l maps symbol) (\<lambda>_. reject_non_orderable_literal r maps symbol)
      | None \<Rightarrow> Inr ())"
| "validate_ordering_operand_types (E_Between e l h) maps =
     bind_r (reject_non_orderable_literal e maps ''BETWEEN'') (\<lambda>_.
     bind_r (reject_non_orderable_literal l maps ''BETWEEN'') (\<lambda>_.
     reject_non_orderable_literal h maps ''BETWEEN''))"
| "validate_ordering_operand_types (E_And l r) maps =
     bind_r (validate_ordering_operand_types l maps) (\<lambda>_. validate_ordering_operand_types r maps)"
| "validate_ordering_operand_types (E_Or l r) maps =
     bind_r (validate_ordering_operand_types l maps) (\<lambda>_. validate_ordering_operand_types r maps)"
| "validate_ordering_operand_types (E_Not e) maps = validate_ordering_operand_types e maps"
| "validate_ordering_operand_types _ maps = Inr ()"

subsection \<open>The numeric cache\<close>

text \<open>Every cached decimal is the parsed value of the placeholder it is cached for.\<close>

definition cache_ok :: "'d bd_ops \<Rightarrow> 'd ExpressionMaps \<Rightarrow> bool" where
  "cache_ok B maps \<longleftrightarrow> (\<forall>k d. em_parsed_numerics maps k = Some d \<longrightarrow>
     (\<exists>n. map_of (em_values maps) k = Some (AV_N n) \<and> bd_parse B n = Some d))"

lemma parse_numeric_into_same: "k \<noteq> fst kv \<Longrightarrow> parse_numeric_into B m kv k = m k"
  by (auto simp: parse_numeric_into_def split: AttributeValue.split option.split)

lemma foldl_parse_numeric:
  assumes "distinct (map fst kvs)" "foldl (parse_numeric_into B) m kvs k = Some d"
  shows "m k = Some d \<or> (\<exists>n. map_of kvs k = Some (AV_N n) \<and> bd_parse B n = Some d)"
  using assms
proof (induction kvs arbitrary: m)
  case (Cons kv kvs)
  then have "parse_numeric_into B m kv k = Some d \<or> (\<exists>n. map_of kvs k = Some (AV_N n) \<and> bd_parse B n = Some d)"
    by simp
  then show ?case
  proof
    assume h: "parse_numeric_into B m kv k = Some d"
    show ?thesis
    proof (cases "k = fst kv")
      case True
      then show ?thesis using h
        by (cases kv) (auto simp: parse_numeric_into_def split: AttributeValue.split_asm option.split_asm)
    next
      case False
      then show ?thesis using h by (simp add: parse_numeric_into_same)
    qed
  next
    assume h: "\<exists>n. map_of kvs k = Some (AV_N n) \<and> bd_parse B n = Some d"
    then have "k \<in> fst ` set kvs" by (force dest: map_of_SomeD)
    then have "k \<noteq> fst kv" using Cons.prems(1) by (metis distinct.simps(2) list.set_map list.simps(9))
    with h show ?thesis by (cases kv) auto
  qed
qed simp

lemma cache_ok_new: "distinct (map fst values) \<Longrightarrow> cache_ok B (maps_new B names values)"
  using foldl_parse_numeric [of "values" B Map.empty]
  by (auto simp: cache_ok_def maps_new_def pre_parse_numerics_def)

lemma maps_new_fields [simp]:
  "em_names (maps_new B names values) = names" "em_values (maps_new B names values) = values"
  by (simp_all add: maps_new_def pre_parse_numerics_def)

subsection \<open>References of an expression\<close>

definition path_refs :: "PathElement list \<Rightarrow> string set" where
  "path_refs els = {r. P_Attribute (''#'' @ r) \<in> set els}"

lemma path_refs_simps [simp]:
  "path_refs [] = {}" "path_refs (P_Index i # els) = path_refs els"
  "path_refs (P_Attribute n # els) = (case strip_prefix n ''#'' of Some r \<Rightarrow> {r} | None \<Rightarrow> {}) \<union> path_refs els"
  by (auto simp: path_refs_def strip_prefix_Some_iff split: option.split) (auto simp: strip_prefix_def)

lemma collect_path_refs_eq: "collect_path_refs els names = names \<union> path_refs els"
proof (induction els arbitrary: names)
  case (Cons e els)
  then show ?case by (cases e) (auto simp: collect_path_refs_def split: option.split)
qed (simp add: collect_path_refs_def)

text \<open>The names and values an expression refers to, as sets.\<close>

fun name_refs :: "Expr \<Rightarrow> string set" where
  "name_refs (E_Path els) = path_refs els"
| "name_refs (E_Placeholder _) = {}"
| "name_refs (E_Compare l _ r) = name_refs l \<union> name_refs r"
| "name_refs (E_Arithmetic l _ r) = name_refs l \<union> name_refs r"
| "name_refs (E_And l r) = name_refs l \<union> name_refs r"
| "name_refs (E_Or l r) = name_refs l \<union> name_refs r"
| "name_refs (E_Not e) = name_refs e"
| "name_refs (E_Function _ args) = (\<Union>a \<in> set args. name_refs a)"
| "name_refs (E_Between e l h) = name_refs e \<union> name_refs l \<union> name_refs h"
| "name_refs (E_In e es) = name_refs e \<union> (\<Union>a \<in> set es. name_refs a)"

fun value_refs :: "Expr \<Rightarrow> string set" where
  "value_refs (E_Path els) = {}"
| "value_refs (E_Placeholder n) = {n}"
| "value_refs (E_Compare l _ r) = value_refs l \<union> value_refs r"
| "value_refs (E_Arithmetic l _ r) = value_refs l \<union> value_refs r"
| "value_refs (E_And l r) = value_refs l \<union> value_refs r"
| "value_refs (E_Or l r) = value_refs l \<union> value_refs r"
| "value_refs (E_Not e) = value_refs e"
| "value_refs (E_Function _ args) = (\<Union>a \<in> set args. value_refs a)"
| "value_refs (E_Between e l h) = value_refs e \<union> value_refs l \<union> value_refs h"
| "value_refs (E_In e es) = value_refs e \<union> (\<Union>a \<in> set es. value_refs a)"

lemma fold_collect_union:
  assumes "\<And>e nv. e \<in> set es \<Longrightarrow> f e nv = (fst nv \<union> N e, snd nv \<union> V e)"
  shows "fold f es nv = (fst nv \<union> (\<Union>e \<in> set es. N e), snd nv \<union> (\<Union>e \<in> set es. V e))"
  using assms by (induction es arbitrary: nv) (simp_all add: Un_assoc)

text \<open>Collecting adds the references of the expression to what was collected before.\<close>

lemma collect_expr_refs_union:
  "collect_expr_refs e nv = (fst nv \<union> name_refs e, snd nv \<union> value_refs e)"
proof (induction e arbitrary: nv)
  case (E_Function n args)
  show ?case using fold_collect_union [of args collect_expr_refs name_refs value_refs nv] E_Function.IH by simp
next
  case (E_In e es)
  show ?case using E_In fold_collect_union [of es collect_expr_refs name_refs value_refs] by (simp add: Un_assoc)
qed (simp_all add: collect_path_refs_eq Un_assoc)

fun action_name_refs :: "UpdateAction \<Rightarrow> string set" where
  "action_name_refs (U_Set p v) = path_refs p \<union> name_refs v"
| "action_name_refs (U_Add p v) = path_refs p \<union> name_refs v"
| "action_name_refs (U_Delete p v) = path_refs p \<union> name_refs v"
| "action_name_refs (U_Remove p) = path_refs p"

fun action_value_refs :: "UpdateAction \<Rightarrow> string set" where
  "action_value_refs (U_Set p v) = value_refs v"
| "action_value_refs (U_Add p v) = value_refs v"
| "action_value_refs (U_Delete p v) = value_refs v"
| "action_value_refs (U_Remove p) = {}"

lemma collect_action_refs_union:
  "collect_action_refs a nv = (fst nv \<union> action_name_refs a, snd nv \<union> action_value_refs a)"
  by (cases a) (simp_all add: collect_path_refs_eq collect_expr_refs_union Un_assoc)

lemma check_used_Inr_iff:
  "check_used sigil what used key = Inr u \<longleftrightarrow> (case strip_prefix key sigil of Some k \<Rightarrow> k | None \<Rightarrow> key) \<in> used"
  by (simp add: check_used_def)

text \<open>
  Two requests that agree on the names and values an expression refers to; what they agree on includes
  the cached decimals.
\<close>

definition maps_agree :: "string set \<Rightarrow> string set \<Rightarrow> 'd ExpressionMaps \<Rightarrow> 'd ExpressionMaps \<Rightarrow> bool" where
  "maps_agree N V m m' \<longleftrightarrow>
     (\<forall>n \<in> N. map_of (em_names m) n = map_of (em_names m') n) \<and>
     (\<forall>v \<in> V. map_of (em_values m) v = map_of (em_values m') v \<and> em_parsed_numerics m v = em_parsed_numerics m' v)"

lemma maps_agree_Un [simp]:
  "maps_agree (N \<union> N') (V \<union> V') m m' \<longleftrightarrow> maps_agree N V m m' \<and> maps_agree N' V' m m'"
  by (auto simp: maps_agree_def)

lemma maps_agree_mono: "maps_agree N V m m' \<Longrightarrow> N' \<subseteq> N \<Longrightarrow> V' \<subseteq> V \<Longrightarrow> maps_agree N' V' m m'"
  by (auto simp: maps_agree_def)

lemma resolve_name_ref_agree:
  "(\<And>r. strip_prefix n ''#'' = Some r \<Longrightarrow> r \<in> N) \<Longrightarrow> maps_agree N V m m' \<Longrightarrow>
     resolve_name_ref n m = resolve_name_ref n m'"
  by (auto simp: resolve_name_ref_def resolve_name_def maps_agree_def split: option.split)

lemma resolve_steps_agree:
  "maps_agree N V m m' \<Longrightarrow> path_refs els \<subseteq> N \<Longrightarrow> resolve_steps els v m = resolve_steps els v m'"
proof (induction els v m rule: resolve_steps.induct)
  case (2 name els current m)
  have "resolve_name_ref name m = resolve_name_ref name m'"
    by (rule resolve_name_ref_agree [OF _ 2(2)]) (use 2(3) in \<open>auto split: option.split_asm\<close>)
  moreover have "path_refs els \<subseteq> N" using 2(3) by auto
  ultimately show ?case using 2 by (auto intro!: bind_r_cong split: AttributeValue.split option.split)
qed (auto split: AttributeValue.split)

lemma resolve_path_agree:
  assumes "maps_agree N V m m'" "path_refs els \<subseteq> N"
  shows "resolve_path els item m = resolve_path els item m'"
proof (cases els)
  case (Cons e es)
  have "resolve_element_name e m = resolve_element_name e m'"
    by (cases e) (use assms Cons in \<open>auto intro!: resolve_name_ref_agree [OF _ assms(1)] split: option.split_asm\<close>)
  moreover have "path_refs es \<subseteq> N" using assms(2) Cons by (cases e) auto
  ultimately show ?thesis
    using Cons resolve_steps_agree [OF assms(1)] by (auto simp: resolve_path_def intro!: bind_r_cong split: option.split)
qed (simp add: resolve_path_def)

subsection \<open>An instance of the decimal operations\<close>

text \<open>Natural numbers in plain notation: enough to show that the assumptions on the crate can hold.\<close>

definition int_bd :: "int bd_ops" where
  "int_bd = \<lparr>bd_parse = (\<lambda>s. if s \<noteq> [] \<and> list_all is_ascii_digit s then Some (int (digits_val s)) else None),
     bd_cmp = cmp_ord, bd_add = (+), bd_sub = (-), bd_to_string = (\<lambda>d. show_nat (nat d))\<rparr>"

lemma bd_lawful_int: "bd_lawful int_bd"
  by (auto simp: bd_lawful_def int_bd_def cmp_ord_def)

end
