(* ===== verification/Number.thy ===== *)
theory Number
  imports DynamoDb_Error Complex_Main
begin

text \<open>
  \<open>crates/core/src/validation/number.rs\<close>: validation and normalisation of the decimal strings that
  DynamoDB numbers are written in.

  \<open>validate_and_normalize_number\<close> is \<open>scan_number\<close> (sign, exponent, digits, position of the point) followed by
  \<open>normalize_digits\<close> (zeros, limits, formatting).  The exponent is an \<open>i32\<close> and the sums are saturating
  \<open>i64\<close> operations, written out with \<open>sat_i64\<close>.
\<close>

subsection \<open>Machine integers\<close>

definition sat_i64 :: "int \<Rightarrow> int" where
  "sat_i64 x = max (- (2 ^ 63)) (min (2 ^ 63 - 1) x)"

definition len_i64 :: "nat \<Rightarrow> int" where
  "len_i64 n = (if int n \<le> 2 ^ 63 - 1 then int n else 2 ^ 63 - 1)"

text \<open>\<open>str::parse::<i32>()\<close>: an optional sign, at least one digit, and no overflow.\<close>

definition parse_i32 :: "string \<Rightarrow> int option" where
  "parse_i32 s =
     (let neg = (s \<noteq> [] \<and> hd s = CHR ''-'');
          d = (if s \<noteq> [] \<and> (hd s = CHR ''-'' \<or> hd s = CHR ''+'') then tl s else s);
          v = (if neg then - int (digits_val d) else int (digits_val d))
      in if d \<noteq> [] \<and> list_all is_ascii_digit d \<and> - (2 ^ 31) \<le> v \<and> v \<le> 2 ^ 31 - 1 then Some v else None)"

subsection \<open>Errors\<close>

definition empty_numeric_err :: DynamoDbError where
  "empty_numeric_err = validation_err ''The parameter cannot be converted to a numeric value''"

definition too_many_digits_err :: DynamoDbError where
  "too_many_digits_err = validation_err ''Attempting to store more than 38 significant digits in a Number''"

definition overflow_err :: DynamoDbError where
  "overflow_err = validation_err ''Number overflow. Attempting to store a number with magnitude larger than supported range''"

definition underflow_err :: DynamoDbError where
  "underflow_err = validation_err ''Number underflow. Attempting to store a number with magnitude smaller than supported range''"

definition numeric_value_err :: "string \<Rightarrow> DynamoDbError" where
  "numeric_value_err s = validation_err (''The parameter cannot be converted to a numeric value: '' @ s)"

subsection \<open>Normalisation\<close>

definition MAX_SIGNIFICANT_DIGITS :: nat where "MAX_SIGNIFICANT_DIGITS = 38"
definition MAX_EXPONENT :: int where "MAX_EXPONENT = 125"
definition MIN_EXPONENT :: int where "MIN_EXPONENT = - 130"

definition is_zero_digit :: "char \<Rightarrow> bool" where
  "is_zero_digit c \<longleftrightarrow> c = CHR ''0''"

definition format_plain :: "bool \<Rightarrow> string \<Rightarrow> int \<Rightarrow> string" where
  "format_plain negative digits ex =
     (let num_digits = int (length digits);
          decimal_pos = num_digits + ex;
          body =
            (if decimal_pos \<le> 0 then ''0.'' @ replicate (nat (- decimal_pos)) (CHR ''0'') @ digits
             else if decimal_pos \<ge> num_digits then digits @ replicate (nat (decimal_pos - num_digits)) (CHR ''0'')
             else take (nat decimal_pos) digits @ ''.'' @ drop (nat decimal_pos) digits)
      in if negative then CHR ''-'' # body else body)"

definition scan_sign :: "string \<Rightarrow> bool \<times> string" where
  "scan_sign s =
     (case strip_prefix s ''-'' of
        Some r \<Rightarrow> (True, r)
      | None \<Rightarrow> (False, case strip_prefix s ''+'' of Some r \<Rightarrow> r | None \<Rightarrow> s))"

definition scan_exponent :: "string \<Rightarrow> string \<Rightarrow> (string \<times> int) ddb_result" where
  "scan_exponent s rest =
     (case split_once (\<lambda>c. c = CHR ''e'' \<or> c = CHR ''E'') rest of
        Some (m, e) \<Rightarrow> bind_r (ok_or (parse_i32 e) (numeric_value_err s)) (\<lambda>v. Inr (m, v))
      | None \<Rightarrow> Inr (rest, 0))"

definition scan_mantissa :: "string \<Rightarrow> string \<Rightarrow> (string \<times> string) ddb_result" where
  "scan_mantissa s mantissa_str =
     (if mantissa_str = [] \<or> \<not> list_all (\<lambda>c. is_ascii_digit c \<or> c = CHR ''.'') mantissa_str
      then Inl (numeric_value_err s)
      else if \<not> list_ex is_ascii_digit mantissa_str then Inl (numeric_value_err s)
      else
        (let (int_part, frac_part) =
           (case split_once (\<lambda>c. c = CHR ''.'') mantissa_str of
              Some (i, f) \<Rightarrow> (if i = [] then ''0'' else i, f)
            | None \<Rightarrow> (mantissa_str, []))
         in if \<not> list_all is_ascii_digit int_part \<or> \<not> list_all is_ascii_digit frac_part
            then Inl (numeric_value_err s)
            else Inr (int_part, frac_part)))"

definition scan_number :: "string \<Rightarrow> (bool \<times> string \<times> int) ddb_result" where
  "scan_number s =
     (if s = [] then Inl empty_numeric_err
      else
        (let (negative, rest) = scan_sign s
         in bind_r (scan_exponent s rest) (\<lambda>(mantissa_str, explicit_exp).
            bind_r (scan_mantissa s mantissa_str) (\<lambda>(int_part, frac_part).
            Inr (negative, int_part @ frac_part, sat_i64 (explicit_exp - len_i64 (length frac_part)))))))"

definition trim_zeros_end :: "string \<Rightarrow> string" where
  "trim_zeros_end s = rev (dropWhile is_zero_digit (rev s))"

definition normalize_digits :: "bool \<Rightarrow> string \<Rightarrow> int \<Rightarrow> string ddb_result" where
  "normalize_digits negative all_digits point_offset =
     (let significant = dropWhile is_zero_digit all_digits
      in if significant = [] then Inr ''0''
         else
           (let sig_trimmed = trim_zeros_end significant
            in if sig_trimmed = [] then Inr ''0''
               else if length sig_trimmed > MAX_SIGNIFICANT_DIGITS then Inl too_many_digits_err
               else
                 (let trailing_zeros = length significant - length sig_trimmed;
                      ex = sat_i64 (point_offset + len_i64 trailing_zeros);
                      magnitude_exp = sat_i64 (len_i64 (length sig_trimmed) - 1 + ex)
                  in if magnitude_exp > MAX_EXPONENT then Inl overflow_err
                     else if magnitude_exp < MIN_EXPONENT then Inl underflow_err
                     else if \<not> (- (2 ^ 31) \<le> ex \<and> ex \<le> 2 ^ 31 - 1) then Inl overflow_err
                     else
                       (let result = format_plain negative sig_trimmed ex
                        in if negative \<and> result = ''-0'' then Inr ''0'' else Inr result))))"

definition validate_and_normalize_number :: "string \<Rightarrow> string ddb_result" where
  "validate_and_normalize_number s =
     bind_r (scan_number s) (\<lambda>(negative, all_digits, point_offset). normalize_digits negative all_digits point_offset)"

subsection \<open>The value of a number string\<close>

definition pow10 :: "int \<Rightarrow> rat" where
  "pow10 e = (if e \<ge> 0 then 10 ^ nat e else 1 / 10 ^ nat (- e))"

definition dec_value :: "bool \<Rightarrow> string \<Rightarrow> int \<Rightarrow> rat" where
  "dec_value negative digits e = (if negative then -1 else 1) * of_nat (digits_val digits) * pow10 e"

definition number_value :: "string \<Rightarrow> rat option" where
  "number_value s = (case scan_number s of Inr (n, ds, off) \<Rightarrow> Some (dec_value n ds off) | Inl _ \<Rightarrow> None)"

lemma pow10_0 [simp]: "pow10 0 = 1"
  by (simp add: pow10_def)

lemma pow10_pos [simp]: "0 < pow10 e"
  by (simp add: pow10_def)

lemma pow10_nonzero [simp]: "pow10 e \<noteq> 0"
  using pow10_pos [of e] by linarith

lemma pow10_powi: "pow10 e = 10 powi e"
  by (simp add: pow10_def power_int_def field_simps)

lemma pow10_add: "pow10 (a + b) = pow10 a * pow10 b"
  by (simp add: pow10_powi power_int_add)

lemma pow10_of_nat: "pow10 (int n) = 10 ^ n"
  by (simp add: pow10_def)

lemma pow10_mono: "a \<le> b \<Longrightarrow> pow10 a \<le> pow10 b"
  by (simp add: pow10_powi power_int_increasing)

lemma pow10_strict_mono: "a < b \<Longrightarrow> pow10 a < pow10 b"
  by (simp add: pow10_powi power_int_strict_increasing)

subsection \<open>Digit strings\<close>

lemma digits_val_replicate_zero [simp]: "digits_val (replicate n (CHR ''0'')) = 0"
  by (induction n) (simp_all add: digits_val_Cons digit_val_def)

lemma is_ascii_digit_zero [simp]: "is_ascii_digit (CHR ''0'')"
  by (simp add: is_ascii_digit_of_char)

lemma dropWhile_zeros: "\<exists>n. ds = replicate n (CHR ''0'') @ dropWhile is_zero_digit ds"
proof (induction ds)
  case (Cons c ds)
  then obtain n where "ds = replicate n (CHR ''0'') @ dropWhile is_zero_digit ds" by blast
  then have "is_zero_digit c \<Longrightarrow> c # ds = replicate (Suc n) (CHR ''0'') @ dropWhile is_zero_digit (c # ds)"
    by (simp add: is_zero_digit_def)
  moreover have "\<not> is_zero_digit c \<Longrightarrow> c # ds = replicate 0 (CHR ''0'') @ dropWhile is_zero_digit (c # ds)" by simp
  ultimately show ?case by blast
qed simp

lemma trim_zeros: "\<exists>n. ds = trim_zeros_end ds @ replicate n (CHR ''0'')"
proof -
  obtain n where n: "rev ds = replicate n (CHR ''0'') @ dropWhile is_zero_digit (rev ds)" using dropWhile_zeros by blast
  have "ds = rev (rev ds)" by simp
  also have "\<dots> = trim_zeros_end ds @ replicate n (CHR ''0'')"
    by (subst n) (simp add: trim_zeros_end_def)
  finally show ?thesis by blast
qed

text \<open>Significant digits: neither the first nor the last is a zero.\<close>

definition sig_ok :: "string \<Rightarrow> bool" where
  "sig_ok d \<longleftrightarrow> d \<noteq> [] \<and> list_all is_ascii_digit d \<and> hd d \<noteq> CHR ''0'' \<and> last d \<noteq> CHR ''0''"

definition sig_of :: "string \<Rightarrow> string" where
  "sig_of ds = trim_zeros_end (dropWhile is_zero_digit ds)"

lemma sig_of_split:
  obtains a b where "ds = replicate a (CHR ''0'') @ sig_of ds @ replicate b (CHR ''0'')"
    "dropWhile is_zero_digit ds = sig_of ds @ replicate b (CHR ''0'')"
  using dropWhile_zeros [of ds] trim_zeros [of "dropWhile is_zero_digit ds"] unfolding sig_of_def by metis

lemma trim_zeros_end_last: "trim_zeros_end ds \<noteq> [] \<Longrightarrow> last (trim_zeros_end ds) \<noteq> CHR ''0''"
  unfolding trim_zeros_end_def last_rev
  by (metis hd_dropWhile is_zero_digit_def rev_is_Nil_conv)

lemma sig_of_ok:
  assumes "list_all is_ascii_digit ds" "sig_of ds \<noteq> []"
  shows "sig_ok (sig_of ds)"
proof -
  obtain a b where ab: "ds = replicate a (CHR ''0'') @ sig_of ds @ replicate b (CHR ''0'')"
    "dropWhile is_zero_digit ds = sig_of ds @ replicate b (CHR ''0'')" by (rule sig_of_split)
  have "list_all is_ascii_digit (sig_of ds)" using assms(1) ab(1) by (metis list_all_append)
  moreover have "hd (dropWhile is_zero_digit ds) \<noteq> CHR ''0''"
    using ab(2) assms(2) by (metis append_is_Nil_conv hd_dropWhile is_zero_digit_def)
  then have "hd (sig_of ds) \<noteq> CHR ''0''" using ab(2) assms(2) by simp
  moreover have "last (sig_of ds) \<noteq> CHR ''0''" using assms(2) trim_zeros_end_last unfolding sig_of_def by blast
  ultimately show ?thesis using assms(2) by (simp add: sig_ok_def)
qed



lemma digits_val_sig:
  "ds = replicate a (CHR ''0'') @ d @ replicate b (CHR ''0'') \<Longrightarrow> digits_val ds = digits_val d * 10 ^ b"
  by (simp add: digits_val_append)

lemma show_digits_val:
  "d \<noteq> [] \<Longrightarrow> list_all is_ascii_digit d \<Longrightarrow> hd d \<noteq> CHR ''0'' \<Longrightarrow> 0 < digits_val d \<and> show_nat (digits_val d) = d"
proof (induction d rule: rev_induct)
  case (snoc c d)
  have c: "is_ascii_digit c" using snoc.prems by simp
  show ?case
  proof (cases "d = []")
    case True
    then have "c \<noteq> CHR ''0''" using snoc.prems by simp
    moreover have "digit_char 0 = CHR ''0''" by code_simp
    ultimately have "digit_val c \<noteq> 0" using digit_char_digit_val [OF c] by metis
    with True c show ?thesis by (simp add: show_nat.simps digits_val_def)
  next
    case False
    with snoc have IH: "0 < digits_val d" "show_nat (digits_val d) = d" by simp_all
    then have "10 * digits_val d + digit_val c \<ge> 10" by simp
    moreover have "(10 * digits_val d + digit_val c) div 10 = digits_val d" "(10 * digits_val d + digit_val c) mod 10 = digit_val c"
      using digit_val_less [OF c] by simp_all
    ultimately show ?thesis using IH c by (subst show_nat.simps) simp
  qed
qed simp

subsection \<open>Scanning plain decimal strings\<close>

lemma digit_neq:
  "is_ascii_digit c \<Longrightarrow> c \<noteq> CHR ''e''" "is_ascii_digit c \<Longrightarrow> c \<noteq> CHR ''E''" "is_ascii_digit c \<Longrightarrow> c \<noteq> CHR ''.''"
  "is_ascii_digit c \<Longrightarrow> c \<noteq> CHR ''-''" "is_ascii_digit c \<Longrightarrow> c \<noteq> CHR ''+''"
  by (auto simp: is_ascii_digit_of_char)

lemma sat_i64_id [simp]: "- (2 ^ 62) \<le> x \<Longrightarrow> x \<le> 2 ^ 62 \<Longrightarrow> sat_i64 x = x"
  by (simp add: sat_i64_def)

lemma len_i64_id [simp]: "n \<le> 2 ^ 62 \<Longrightarrow> len_i64 n = int n"
  by (simp add: len_i64_def)









subsection \<open>Canonical numbers\<close>

text \<open>Sign, significant digits and exponent of an accepted number other than zero.\<close>

definition canon :: "string \<Rightarrow> int \<Rightarrow> bool" where
  "canon d e \<longleftrightarrow> sig_ok d \<and> length d \<le> 38 \<and> - 130 \<le> int (length d) - 1 + e \<and> int (length d) - 1 + e \<le> 125"

lemma format_plain_not_zero:
  assumes "sig_ok d"
  shows "format_plain n d e \<noteq> ''-0''" "format_plain n d e \<noteq> ''0''"
proof -
  obtain c d' where d: "d = c # d'" "c \<noteq> CHR ''0''" "is_ascii_digit c" using assms by (cases d) (auto simp: sig_ok_def)
  have "c \<noteq> CHR ''-''" using digit_neq(4) [OF d(3)] by simp
  with d show "format_plain n d e \<noteq> ''-0''" "format_plain n d e \<noteq> ''0''"
    by (auto simp: format_plain_def Let_def take_Cons' split: if_splits)
qed


lemma normalize_digits_cases:
  assumes "normalize_digits n ds off = Inr r" "list_all is_ascii_digit ds" "length ds \<le> 2 ^ 61" "- (2 ^ 61) \<le> off" "off \<le> 2 ^ 61"
  obtains "r = ''0''" "digits_val ds = 0"
  | d a b where "ds = replicate a (CHR ''0'') @ d @ replicate b (CHR ''0'')" "canon d (off + int b)"
      "r = format_plain n d (off + int b)" "b \<le> 2 ^ 61"
proof -
  obtain a b where ab: "ds = replicate a (CHR ''0'') @ sig_of ds @ replicate b (CHR ''0'')"
    "dropWhile is_zero_digit ds = sig_of ds @ replicate b (CHR ''0'')" by (rule sig_of_split)
  have len: "b \<le> 2 ^ 61" "length (sig_of ds) + b \<le> 2 ^ 61" using assms(3) arg_cong [OF ab(1), of length] by simp_all
  show ?thesis
  proof (cases "sig_of ds = []")
    case True
    then have "r = ''0''" using assms(1) by (auto simp: normalize_digits_def Let_def sig_of_def split: if_split_asm)
    moreover have "digits_val ds = 0" using digits_val_sig [OF ab(1)] True by simp
    ultimately show ?thesis by (rule that(1))
  next
    case False
    have ok: "sig_ok (sig_of ds)" by (rule sig_of_ok [OF assms(2) False])
    have tr: "trim_zeros_end (sig_of ds @ replicate b (CHR ''0'')) = sig_of ds"
      using ab(2) by (simp add: sig_of_def)
    have e: "sat_i64 (off + len_i64 b) = off + int b" "sat_i64 (len_i64 (length (sig_of ds)) - 1 + (off + int b)) = int (length (sig_of ds)) - 1 + (off + int b)"
      using assms len by simp_all
    have "canon (sig_of ds) (off + int b) \<and> r = format_plain n (sig_of ds) (off + int b)"
      using assms(1) ok False e
      by (auto simp: normalize_digits_def Let_def ab(2) tr canon_def MAX_SIGNIFICANT_DIGITS_def MAX_EXPONENT_def MIN_EXPONENT_def
          format_plain_not_zero [OF ok] split: if_split_asm)
    then show ?thesis using that(2) ab(1) len(1) by blast
  qed
qed


lemma dec_value_pad:
  assumes "off + int b = e"
  shows "dec_value n (replicate a (CHR ''0'') @ d @ replicate b (CHR ''0'')) off = dec_value n d e"
proof -
  have "pow10 e = pow10 off * 10 ^ b" using pow10_add [of off "int b"] assms by (simp add: pow10_of_nat)
  then show ?thesis by (simp add: dec_value_def digits_val_sig [OF refl])
qed


lemma scan_mantissa_digits:
  assumes "scan_mantissa s m = Inr (i, f)"
  shows "list_all is_ascii_digit (i @ f) \<and> length (i @ f) \<le> length m + 1"
proof (cases "split_once (\<lambda>c. c = CHR ''.'') m")
  case None
  with assms show ?thesis by (simp add: scan_mantissa_def split: if_split_asm)
next
  case (Some p)
  obtain a b where p: "p = (a, b)" by (cases p)
  have "m = a @ CHR ''.'' # b" using split_once_SomeD [of _ m a b] Some p by auto
  moreover have "f = b \<and> (i = a \<or> i = ''0'') \<and> list_all is_ascii_digit i \<and> list_all is_ascii_digit f"
    using assms Some p by (simp add: scan_mantissa_def split: if_split_asm)
  ultimately show ?thesis by auto
qed

lemma parse_i32_bound: "parse_i32 s = Some v \<Longrightarrow> - (2 ^ 31) \<le> v \<and> v \<le> 2 ^ 31 - 1"
  by (auto simp: parse_i32_def Let_def split: if_split_asm)

lemma strip_prefix_length: "strip_prefix s p = Some r \<Longrightarrow> length r \<le> length s"
  by (simp add: strip_prefix_Some_iff)

lemma scan_exponent_bounds:
  assumes "scan_exponent s rest = Inr (m, v)"
  shows "length m \<le> length rest \<and> - (2 ^ 31) \<le> v \<and> v \<le> 2 ^ 31 - 1"
proof (cases "split_once (\<lambda>c. c = CHR ''e'' \<or> c = CHR ''E'') rest")
  case None
  with assms show ?thesis by (simp add: scan_exponent_def)
next
  case (Some p)
  obtain a b where p: "p = (a, b)" by (cases p)
  obtain c where "rest = a @ c # b" using split_once_SomeD [of _ rest a b] Some p by blast
  moreover have "m = a" "parse_i32 b = Some v" using assms Some p by (auto simp: scan_exponent_def)
  ultimately show ?thesis using parse_i32_bound [of b v] by simp
qed

lemma scan_number_digits:
  assumes "scan_number s = Inr (n, ds, off)" "length s < 2 ^ 60"
  shows "list_all is_ascii_digit ds" "length ds \<le> 2 ^ 61" "- (2 ^ 61) \<le> off" "off \<le> 2 ^ 61"
proof -
  from assms(1) obtain rest m v i f where s: "scan_sign s = (n, rest)" "scan_exponent s rest = Inr (m, v)"
    "scan_mantissa s m = Inr (i, f)" "ds = i @ f" "off = sat_i64 (v - len_i64 (length f))"
    by (auto simp: scan_number_def split: if_split_asm prod.split_asm)
  have r: "length rest \<le> length s"
    using s(1) by (auto simp: scan_sign_def dest: strip_prefix_length split: option.split_asm)
  have m: "length m \<le> length rest" "- (2 ^ 31) \<le> v" "v \<le> 2 ^ 31 - 1"
    using s(2) scan_exponent_bounds by blast+
  note d = scan_mantissa_digits [OF s(3)]
  show "list_all is_ascii_digit ds" "length ds \<le> 2 ^ 61" using d s(4) r m assms(2) by simp_all
  have "int (length f) \<le> 2 ^ 60" using d r m(1) assms(2) by simp
  then show "- (2 ^ 61) \<le> off" "off \<le> 2 ^ 61" using s(5) m(2,3) by simp_all
qed

text \<open>An accepted number is \<open>0\<close> or the plain form of a canonical triple with the value of the input.\<close>

lemma validate_cases:
  assumes "validate_and_normalize_number s = Inr r" "length s < 2 ^ 60"
  obtains "r = ''0''" "number_value s = Some 0"
  | n d e where "canon d e" "r = format_plain n d e" "number_value s = Some (dec_value n d e)"
proof -
  from assms(1) obtain n ds off where s: "scan_number s = Inr (n, ds, off)" "normalize_digits n ds off = Inr r"
    by (auto simp: validate_and_normalize_number_def)
  note d = scan_number_digits [OF s(1) assms(2)]
  from s(2) d show ?thesis
  proof (cases rule: normalize_digits_cases)
    case 1
    then show ?thesis using that(1) s(1) by (simp add: number_value_def dec_value_def)
  next
    case (2 d a b)
    then show ?thesis using that(2) s(1) dec_value_pad [of off b "off + int b" n a d] by (simp add: number_value_def)
  qed
qed

lemma digits_val_bound: "list_all is_ascii_digit d \<Longrightarrow> digits_val d < 10 ^ length d"
proof (induction d rule: rev_induct)
  case (snoc c d)
  then have "digits_val d + 1 \<le> 10 ^ length d" "digit_val c < 10" by simp_all
  then show ?case by simp
qed simp

lemma sig_ok_value:
  assumes "sig_ok d"
  shows "10 ^ (length d - 1) \<le> digits_val d" "digits_val d < 10 ^ length d" "\<not> 10 dvd digits_val d"
    "show_nat (digits_val d) = d"
proof -
  obtain c d' where d: "d = c # d'" "c \<noteq> CHR ''0''" "is_ascii_digit c" using assms by (cases d) (auto simp: sig_ok_def)
  have nz: "digit_val x \<noteq> 0" if "is_ascii_digit x" "x \<noteq> CHR ''0''" for x
  proof -
    have "digit_char 0 = CHR ''0''" by code_simp
    then show ?thesis using digit_char_digit_val [OF that(1)] that(2) by metis
  qed
  have "1 * 10 ^ length d' \<le> digit_val c * 10 ^ length d'" using nz [OF d(3,2)] by (intro mult_right_mono) auto
  then have "10 ^ length d' \<le> digit_val c * 10 ^ length d' + digits_val d'" by linarith
  then show "10 ^ (length d - 1) \<le> digits_val d" by (simp add: d(1) digits_val_Cons)
  show "digits_val d < 10 ^ length d" using assms by (simp add: sig_ok_def digits_val_bound)
  have s: "d = butlast d @ [last d]" "is_ascii_digit (last d)" "last d \<noteq> CHR ''0''"
    using assms by (auto simp: sig_ok_def list_all_iff)
  have "digits_val d = 10 * digits_val (butlast d) + digit_val (last d)" by (subst s(1)) simp
  then have "digits_val d mod 10 = digit_val (last d)" using digit_val_less [OF s(2)] by simp
  then show "\<not> 10 dvd digits_val d" using nz [OF s(2,3)] by (simp add: dvd_eq_mod_eq_0)
  show "show_nat (digits_val d) = d" using show_digits_val assms by (simp add: sig_ok_def)
qed

lemma canon_value_bounds:
  assumes "canon d e"
  shows "pow10 (-130) \<le> \<bar>dec_value n d e\<bar>" "\<bar>dec_value n d e\<bar> < pow10 126"
proof -
  have ok: "sig_ok d" "d \<noteq> []" and r: "- 130 \<le> int (length d) - 1 + e" "int (length d) - 1 + e \<le> 125"
    using assms by (auto simp: canon_def sig_ok_def)
  have v: "\<bar>dec_value n d e\<bar> = of_nat (digits_val d) * pow10 e" by (simp add: dec_value_def abs_mult abs_of_pos)
  have l: "int (length d - 1) = int (length d) - 1" using ok(2) by (cases d) auto
  have "pow10 (-130) \<le> pow10 (int (length d - 1) + e)" using r l by (intro pow10_mono) simp
  also have "\<dots> = of_nat (10 ^ (length d - 1)) * pow10 e" by (simp add: pow10_add pow10_of_nat)
  also have "\<dots> \<le> of_nat (digits_val d) * pow10 e"
    using sig_ok_value(1) [OF ok(1)] by (intro mult_right_mono) (simp_all only: of_nat_le_iff pow10_pos less_imp_le)
  finally show "pow10 (-130) \<le> \<bar>dec_value n d e\<bar>" by (simp add: v)
  have "of_nat (digits_val d) * pow10 e < of_nat (10 ^ length d) * pow10 e"
    using sig_ok_value(2) [OF ok(1)] by (intro mult_strict_right_mono) (simp_all only: of_nat_less_iff pow10_pos)
  also have "\<dots> = pow10 (int (length d) + e)" by (simp add: pow10_add pow10_of_nat)
  also have "\<dots> \<le> pow10 126" using r by (intro pow10_mono) simp
  finally show "\<bar>dec_value n d e\<bar> < pow10 126" by (simp add: v)
qed




subsection \<open>Properties\<close>





text \<open>
  An accepted number is zero or has magnitude from \<open>10 ^ -130\<close> up to but not including \<open>10 ^ 126\<close>.
\<close>

theorem normalize_bounds:
  assumes "validate_and_normalize_number s = Inr r" "length s < 2 ^ 60" "number_value s = Some v"
  shows "v = 0 \<or> pow10 (-130) \<le> \<bar>v\<bar> \<and> \<bar>v\<bar> < pow10 126"
  using assms(1,2) by (cases rule: validate_cases) (use assms(3) canon_value_bounds in auto)

theorem normalize_bounds_witness:
  "validate_and_normalize_number ''9e125'' \<noteq> Inl overflow_err \<and> validate_and_normalize_number ''1e126'' = Inl overflow_err \<and>
   (\<exists>v. number_value ''7'' = Some v \<and> \<bar>v\<bar> < pow10 126)"
proof -
  have h: "validate_and_normalize_number ''7'' = Inr ''7''" by code_simp
  obtain v where v: "number_value ''7'' = Some v" by (simp add: number_value_def scan_number_def scan_sign_def strip_prefix_def
      scan_exponent_def split_once_def scan_mantissa_def is_ascii_digit_of_char)
  have "\<bar>v\<bar> < pow10 126" using normalize_bounds [OF h _ v] by auto
  moreover have "validate_and_normalize_number ''9e125'' \<noteq> Inl overflow_err" "validate_and_normalize_number ''1e126'' = Inl overflow_err"
    by code_simp+
  ultimately show ?thesis using v by blast
qed

end
