(* ===== verification/Update_Evaluator.thy ===== *)
theory Update_Evaluator
  imports Resolver Number
begin

text \<open>
  \<open>crates/core/src/expression/update_evaluator.rs\<close>: the \<open>SET\<close>, \<open>REMOVE\<close>, \<open>ADD\<close> and \<open>DELETE\<close> actions of an
  update expression on an item.

  The item is passed and returned; an error returns no item.  \<open>navigate_to_parent_map\<close> and
  \<open>navigate_to_parent_map_or_create\<close> hand out a mutable reference to the map that holds the last element
  of a path; here they take the operation on that map as an argument.
\<close>

subsection \<open>Errors\<close>

definition upd_err :: "string \<Rightarrow> DynamoDbError" where
  "upd_err msg = validation_err (''Invalid UpdateExpression: '' @ msg)"

definition invalid_path_err :: DynamoDbError where
  "invalid_path_err = validation_err ''The document path provided in the update expression is invalid for update''"

definition missing_attr_err :: DynamoDbError where
  "missing_attr_err = validation_err ''The provided expression refers to an attribute that does not exist in the item''"

definition operand_err :: DynamoDbError where
  "operand_err = validation_err ''An operand in the update expression has an incorrect data type''"

definition numeric_err :: DynamoDbError where
  "numeric_err = validation_err ''Invalid numeric value in expression''"

definition result_overflow_err :: DynamoDbError where
  "result_overflow_err = validation_err ''Number overflow. Attempting to store a number with magnitude larger than supported range''"

subsection \<open>Values\<close>

definition resolve_attr_name :: "PathElement \<Rightarrow> 'd ExpressionMaps \<Rightarrow> string ddb_result" where
  "resolve_attr_name element maps = resolve_element_name element maps"

definition resolve_path_to_value :: "PathElement list \<Rightarrow> Item \<Rightarrow> 'd ExpressionMaps \<Rightarrow> AttributeValue option ddb_result" where
  "resolve_path_to_value elements item maps = resolve_path elements item maps"

text \<open>Parse both operands, compute, check the range of the printed result.\<close>

definition checked_arith :: "'d bd_ops \<Rightarrow> ('d \<Rightarrow> 'd \<Rightarrow> 'd) \<Rightarrow> string \<Rightarrow> string \<Rightarrow> AttributeValue ddb_result" where
  "checked_arith B f l r =
     bind_r (ok_or (bd_parse B l) numeric_err) (\<lambda>ld.
     bind_r (ok_or (bd_parse B r) numeric_err) (\<lambda>rd.
       let result_str = bd_to_string B (f ld rd)
       in bind_r (map_err (\<lambda>_. result_overflow_err) (validate_and_normalize_number result_str)) (\<lambda>_.
          Inr (AV_N result_str))))"

fun arith_fun :: "'d bd_ops \<Rightarrow> ArithOp \<Rightarrow> 'd \<Rightarrow> 'd \<Rightarrow> 'd" where
  "arith_fun B Arith_Add = bd_add B"
| "arith_fun B Arith_Sub = bd_sub B"

definition evaluate_arithmetic :: "'d bd_ops \<Rightarrow> AttributeValue \<Rightarrow> AttributeValue \<Rightarrow> ArithOp \<Rightarrow> AttributeValue ddb_result" where
  "evaluate_arithmetic B left right op =
     (case left of
        AV_N l \<Rightarrow> (case right of AV_N r \<Rightarrow> checked_arith B (arith_fun B op) l r | _ \<Rightarrow> Inl operand_err)
      | _ \<Rightarrow> Inl operand_err)"

definition list_append_values :: "AttributeValue \<Rightarrow> AttributeValue \<Rightarrow> AttributeValue ddb_result" where
  "list_append_values left right =
     (case left of
        AV_L a \<Rightarrow> (case right of AV_L b \<Rightarrow> Inr (AV_L (a @ b)) | _ \<Rightarrow> Inl operand_err)
      | _ \<Rightarrow> Inl operand_err)"

function evaluate_set_value :: "'d bd_ops \<Rightarrow> Expr \<Rightarrow> Item \<Rightarrow> 'd ExpressionMaps \<Rightarrow> AttributeValue ddb_result"
  and evaluate_set_function :: "'d bd_ops \<Rightarrow> string \<Rightarrow> Expr list \<Rightarrow> Item \<Rightarrow> 'd ExpressionMaps \<Rightarrow> AttributeValue ddb_result" where
  "evaluate_set_value B e item maps =
     (case e of
        E_Placeholder name \<Rightarrow> resolve_value_for maps name ''UpdateExpression''
      | E_Path elements \<Rightarrow>
          bind_r (resolve_path_to_value elements item maps) (\<lambda>v. ok_or v missing_attr_err)
      | E_Arithmetic left op right \<Rightarrow>
          bind_r (evaluate_set_value B left item maps) (\<lambda>lv.
          bind_r (evaluate_set_value B right item maps) (\<lambda>rv.
          evaluate_arithmetic B lv rv op))
      | E_Function name args \<Rightarrow> evaluate_set_function B name args item maps
      | _ \<Rightarrow> Inl (upd_err ''unsupported value expression''))"
| "evaluate_set_function B name args item maps =
     (if name = ''if_not_exists'' then
        (case args of
           [a, b] \<Rightarrow>
             bind_r (case a of E_Path elements \<Rightarrow> resolve_path_to_value elements item maps | _ \<Rightarrow> Inr None) (\<lambda>existing.
               case existing of
                 Some v \<Rightarrow> Inr v
               | None \<Rightarrow> evaluate_set_value B b item maps)
         | _ \<Rightarrow> Inl (upd_err ''if_not_exists requires exactly two arguments''))
      else if name = ''list_append'' then
        (case args of
           [a, b] \<Rightarrow>
             bind_r (evaluate_set_value B a item maps) (\<lambda>left.
             bind_r (evaluate_set_value B b item maps) (\<lambda>right.
             list_append_values left right))
         | _ \<Rightarrow> Inl (upd_err ''list_append requires exactly two arguments''))
      else Inl (upd_err (''unknown function '' @ squote @ name @ squote)))"
  by pat_completeness auto
termination
  by (relation "measure (\<lambda>x. case x of Inl (_, e, _) \<Rightarrow> size e | Inr (_, _, es, _) \<Rightarrow> size_list size es)") auto

declare evaluate_set_value.simps [simp del] evaluate_set_function.simps [simp del]

subsection \<open>SET\<close>

fun set_nested :: "AttributeValue \<Rightarrow> PathElement list \<Rightarrow> AttributeValue \<Rightarrow> 'd ExpressionMaps \<Rightarrow> AttributeValue ddb_result" where
  "set_nested current [] v maps = Inl invalid_path_err"
| "set_nested current [e] v maps =
     (case e of
        P_Attribute _ \<Rightarrow>
         (case current of
            AV_M m \<Rightarrow> bind_r (resolve_attr_name e maps) (\<lambda>name. Inr (AV_M (bt_insert name v m)))
          | _ \<Rightarrow> Inl invalid_path_err)
      | P_Index idx \<Rightarrow>
         (case current of
            AV_L l \<Rightarrow> Inr (AV_L (if idx < length l then l[idx := v] else l @ [v]))
          | _ \<Rightarrow> Inl invalid_path_err))"
| "set_nested current (e # es) v maps =
     (case e of
        P_Attribute _ \<Rightarrow>
         (case current of
            AV_M m \<Rightarrow>
              bind_r (resolve_attr_name e maps) (\<lambda>name.
                case bt_get m name of
                  Some entry \<Rightarrow> bind_r (set_nested entry es v maps) (\<lambda>entry'. Inr (AV_M (bt_insert name entry' m)))
                | None \<Rightarrow> Inl invalid_path_err)
          | _ \<Rightarrow> Inl invalid_path_err)
      | P_Index idx \<Rightarrow>
         (case current of
            AV_L l \<Rightarrow>
              if idx < length l
              then bind_r (set_nested (l ! idx) es v maps) (\<lambda>entry'. Inr (AV_L (l[idx := entry'])))
              else Inl missing_attr_err
          | _ \<Rightarrow> Inl invalid_path_err))"

definition set_path :: "Item \<Rightarrow> PathElement list \<Rightarrow> AttributeValue \<Rightarrow> 'd ExpressionMaps \<Rightarrow> Item ddb_result" where
  "set_path item path v maps =
     (case path of
        [] \<Rightarrow> Inl (upd_err ''empty path'')
      | e # es \<Rightarrow>
          bind_r (resolve_attr_name e maps) (\<lambda>first_name.
            if es = [] then Inr (bt_insert first_name v item)
            else
              (case bt_get item first_name of
                 None \<Rightarrow> Inl invalid_path_err
               | Some current \<Rightarrow>
                   bind_r (set_nested current es v maps) (\<lambda>current'. Inr (bt_insert first_name current' item)))))"

subsection \<open>REMOVE\<close>

definition remove_nth :: "nat \<Rightarrow> 'a list \<Rightarrow> 'a list" where
  "remove_nth i xs = take i xs @ drop (Suc i) xs"

fun remove_nested :: "AttributeValue \<Rightarrow> PathElement list \<Rightarrow> 'd ExpressionMaps \<Rightarrow> AttributeValue ddb_result" where
  "remove_nested current [] maps = Inr current"
| "remove_nested current [e] maps =
     (case e of
        P_Attribute _ \<Rightarrow>
         (case current of
            AV_M m \<Rightarrow> bind_r (resolve_attr_name e maps) (\<lambda>name. Inr (AV_M (bt_remove name m)))
          | _ \<Rightarrow> Inr current)
      | P_Index idx \<Rightarrow>
         (case current of
            AV_L l \<Rightarrow> Inr (if idx < length l then AV_L (remove_nth idx l) else current)
          | _ \<Rightarrow> Inr current))"
| "remove_nested current (e # es) maps =
     (case e of
        P_Attribute _ \<Rightarrow>
         (case current of
            AV_M m \<Rightarrow>
              bind_r (resolve_attr_name e maps) (\<lambda>name.
                case bt_get m name of
                  Some nxt \<Rightarrow> bind_r (remove_nested nxt es maps) (\<lambda>nxt'. Inr (AV_M (bt_insert name nxt' m)))
                | None \<Rightarrow> Inr current)
          | _ \<Rightarrow> Inr current)
      | P_Index idx \<Rightarrow>
         (case current of
            AV_L l \<Rightarrow>
              if idx < length l
              then bind_r (remove_nested (l ! idx) es maps) (\<lambda>nxt'. Inr (AV_L (l[idx := nxt'])))
              else Inr current
          | _ \<Rightarrow> Inr current))"

definition remove_path :: "Item \<Rightarrow> PathElement list \<Rightarrow> 'd ExpressionMaps \<Rightarrow> Item ddb_result" where
  "remove_path item path maps =
     (case path of
        [] \<Rightarrow> Inr item
      | e # es \<Rightarrow>
          bind_r (resolve_attr_name e maps) (\<lambda>first_name.
            if es = [] then Inr (bt_remove first_name item)
            else
              (case bt_get item first_name of
                 None \<Rightarrow> Inr item
               | Some current \<Rightarrow>
                   bind_r (remove_nested current es maps) (\<lambda>current'. Inr (bt_insert first_name current' item)))))"

subsection \<open>ADD\<close>

text \<open>The loop of \<open>navigate_to_parent_map_or_create\<close> over \<open>path[1..len - 1]\<close> and the final match.\<close>

fun create_steps :: "PathElement list \<Rightarrow> AttributeValue \<Rightarrow> 'd ExpressionMaps \<Rightarrow> (Item \<Rightarrow> Item ddb_result) \<Rightarrow>
    AttributeValue ddb_result" where
  "create_steps [] current maps f =
     (case current of
        AV_M m \<Rightarrow> bind_r (f m) (\<lambda>m'. Inr (AV_M m'))
      | _ \<Rightarrow> Inl invalid_path_err)"
| "create_steps (P_Attribute n # es) current maps f =
     bind_r (resolve_attr_name (P_Attribute n) maps) (\<lambda>name.
       case current of
         AV_M m \<Rightarrow>
           bind_r (create_steps es (case bt_get m name of Some v \<Rightarrow> v | None \<Rightarrow> AV_M []) maps f) (\<lambda>v.
           Inr (AV_M (bt_insert name v m)))
       | _ \<Rightarrow> Inl invalid_path_err)"
| "create_steps (P_Index idx # es) current maps f =
     (case current of
        AV_L l \<Rightarrow>
          if idx < length l
          then bind_r (create_steps es (l ! idx) maps f) (\<lambda>v. Inr (AV_L (l[idx := v])))
          else Inl missing_attr_err
      | _ \<Rightarrow> Inl invalid_path_err)"

definition navigate_to_parent_map_or_create :: "Item \<Rightarrow> PathElement list \<Rightarrow> 'd ExpressionMaps \<Rightarrow>
    (Item \<Rightarrow> Item ddb_result) \<Rightarrow> Item ddb_result" where
  "navigate_to_parent_map_or_create item path maps f =
     (if length path \<le> 1 then f item
      else
        bind_r (resolve_attr_name (hd path) maps) (\<lambda>first_name.
        bind_r (create_steps (butlast (tl path)) (case bt_get item first_name of Some v \<Rightarrow> v | None \<Rightarrow> AV_M []) maps f) (\<lambda>v.
        Inr (bt_insert first_name v item))))"

definition add_value :: "'d bd_ops \<Rightarrow> AttributeValue option \<Rightarrow> AttributeValue \<Rightarrow> AttributeValue ddb_result" where
  "add_value B existing v =
     (case existing of
        None \<Rightarrow>
         (case v of
            AV_N _ \<Rightarrow> Inr v | AV_SS _ \<Rightarrow> Inr v | AV_NS _ \<Rightarrow> Inr v | AV_BS _ \<Rightarrow> Inr v
          | _ \<Rightarrow> Inl operand_err)
      | Some ev \<Rightarrow>
         (case ev of
            AV_N existing_n \<Rightarrow> (case v of AV_N add_n \<Rightarrow> checked_arith B (bd_add B) existing_n add_n | _ \<Rightarrow> Inl operand_err)
          | AV_SS existing_set \<Rightarrow> (case v of AV_SS add_set \<Rightarrow> Inr (AV_SS (bs_extend existing_set add_set)) | _ \<Rightarrow> Inl operand_err)
          | AV_NS existing_set \<Rightarrow> (case v of AV_NS add_set \<Rightarrow> Inr (AV_NS (bs_extend existing_set add_set)) | _ \<Rightarrow> Inl operand_err)
          | AV_BS existing_set \<Rightarrow> (case v of AV_BS add_set \<Rightarrow> Inr (AV_BS (bs_extend existing_set add_set)) | _ \<Rightarrow> Inl operand_err)
          | _ \<Rightarrow> Inl operand_err))"

definition last_attr_name :: "string \<Rightarrow> PathElement list \<Rightarrow> 'd ExpressionMaps \<Rightarrow> string ddb_result" where
  "last_attr_name what path maps =
     (if path = [] then Inl (validation_err (''Empty path in '' @ what)) else resolve_attr_name (last path) maps)"

definition apply_add :: "'d bd_ops \<Rightarrow> Item \<Rightarrow> PathElement list \<Rightarrow> AttributeValue \<Rightarrow> 'd ExpressionMaps \<Rightarrow> Item ddb_result" where
  "apply_add B item path v maps =
     navigate_to_parent_map_or_create item path maps (\<lambda>target.
       bind_r (last_attr_name ''ADD'' path maps) (\<lambda>attr_name.
       bind_r (add_value B (bt_get target attr_name) v) (\<lambda>new_value.
       Inr (bt_insert attr_name new_value target))))"

subsection \<open>DELETE\<close>

text \<open>\<open>Inr None\<close> when the parent map does not exist, which makes \<open>DELETE\<close> a no-op.\<close>

fun parent_steps :: "PathElement list \<Rightarrow> AttributeValue \<Rightarrow> 'd ExpressionMaps \<Rightarrow> (Item \<Rightarrow> Item ddb_result) \<Rightarrow>
    AttributeValue option ddb_result" where
  "parent_steps [] current maps f =
     (case current of
        AV_M m \<Rightarrow> bind_r (f m) (\<lambda>m'. Inr (Some (AV_M m')))
      | _ \<Rightarrow> Inr None)"
| "parent_steps (P_Attribute n # es) current maps f =
     bind_r (resolve_attr_name (P_Attribute n) maps) (\<lambda>name.
       case current of
         AV_M m \<Rightarrow>
          (case bt_get m name of
             None \<Rightarrow> Inr None
           | Some nxt \<Rightarrow> bind_r (parent_steps es nxt maps f) (\<lambda>r. Inr (map_option (\<lambda>v. AV_M (bt_insert name v m)) r)))
       | _ \<Rightarrow> Inr None)"
| "parent_steps (P_Index idx # es) current maps f =
     (case current of
        AV_L l \<Rightarrow>
          if idx < length l
          then bind_r (parent_steps es (l ! idx) maps f) (\<lambda>r. Inr (map_option (\<lambda>v. AV_L (l[idx := v])) r))
          else Inr None
      | _ \<Rightarrow> Inr None)"

definition navigate_to_parent_map :: "Item \<Rightarrow> PathElement list \<Rightarrow> 'd ExpressionMaps \<Rightarrow>
    (Item \<Rightarrow> Item ddb_result) \<Rightarrow> Item option ddb_result" where
  "navigate_to_parent_map item path maps f =
     (if length path \<le> 1 then bind_r (f item) (\<lambda>i. Inr (Some i))
      else
        bind_r (resolve_attr_name (hd path) maps) (\<lambda>first_name.
          case bt_get item first_name of
            None \<Rightarrow> Inr None
          | Some current \<Rightarrow>
              bind_r (parent_steps (butlast (tl path)) current maps f) (\<lambda>r.
              Inr (map_option (\<lambda>v. bt_insert first_name v item) r))))"

text \<open>\<open>None\<close> when nothing remains of the set, and the attribute is removed.\<close>

definition delete_value :: "AttributeValue \<Rightarrow> AttributeValue \<Rightarrow> AttributeValue option ddb_result" where
  "delete_value existing v =
     (case existing of
        AV_SS s \<Rightarrow>
         (case v of
            AV_SS r \<Rightarrow> (let remaining = bs_difference s r in Inr (if remaining = [] then None else Some (AV_SS remaining)))
          | _ \<Rightarrow> Inl operand_err)
      | AV_NS s \<Rightarrow>
         (case v of
            AV_NS r \<Rightarrow> (let remaining = bs_difference s r in Inr (if remaining = [] then None else Some (AV_NS remaining)))
          | _ \<Rightarrow> Inl operand_err)
      | AV_BS s \<Rightarrow>
         (case v of
            AV_BS r \<Rightarrow> (let remaining = bs_difference s r in Inr (if remaining = [] then None else Some (AV_BS remaining)))
          | _ \<Rightarrow> Inl operand_err)
      | _ \<Rightarrow> Inl operand_err)"

definition delete_in_map :: "PathElement list \<Rightarrow> AttributeValue \<Rightarrow> 'd ExpressionMaps \<Rightarrow> Item \<Rightarrow> Item ddb_result" where
  "delete_in_map path v maps target =
     bind_r (last_attr_name ''DELETE'' path maps) (\<lambda>attr_name.
       case bt_get target attr_name of
         None \<Rightarrow> Inr target
       | Some existing \<Rightarrow>
           bind_r (delete_value existing v) (\<lambda>new_value.
             case new_value of
               None \<Rightarrow> Inr (bt_remove attr_name target)
             | Some w \<Rightarrow> Inr (bt_insert attr_name w target)))"

definition apply_delete :: "Item \<Rightarrow> PathElement list \<Rightarrow> AttributeValue \<Rightarrow> 'd ExpressionMaps \<Rightarrow> Item ddb_result" where
  "apply_delete item path v maps =
     bind_r (navigate_to_parent_map item path maps (delete_in_map path v maps)) (\<lambda>r.
       case r of None \<Rightarrow> Inr item | Some item' \<Rightarrow> Inr item')"

subsection \<open>All actions\<close>

text \<open>The bodies of the four loops; an action of another kind leaves the item as it is.\<close>

fun set_step :: "'d bd_ops \<Rightarrow> Item \<Rightarrow> 'd ExpressionMaps \<Rightarrow> Item \<Rightarrow> UpdateAction \<Rightarrow> Item ddb_result" where
  "set_step B snapshot maps item (U_Set path e) =
     bind_r (evaluate_set_value B e snapshot maps) (\<lambda>v. set_path item path v maps)"
| "set_step B snapshot maps item _ = Inr item"

fun remove_step :: "'d ExpressionMaps \<Rightarrow> Item \<Rightarrow> UpdateAction \<Rightarrow> Item ddb_result" where
  "remove_step maps item (U_Remove path) = remove_path item path maps"
| "remove_step maps item _ = Inr item"

fun add_step :: "'d bd_ops \<Rightarrow> 'd ExpressionMaps \<Rightarrow> Item \<Rightarrow> UpdateAction \<Rightarrow> Item ddb_result" where
  "add_step B maps item (U_Add path e) =
     bind_r (evaluate_set_value B e item maps) (\<lambda>v. apply_add B item path v maps)"
| "add_step B maps item _ = Inr item"

fun delete_step :: "'d bd_ops \<Rightarrow> 'd ExpressionMaps \<Rightarrow> Item \<Rightarrow> UpdateAction \<Rightarrow> Item ddb_result" where
  "delete_step B maps item (U_Delete path e) =
     bind_r (evaluate_set_value B e item maps) (\<lambda>v. apply_delete item path v maps)"
| "delete_step B maps item _ = Inr item"

definition apply_update :: "'d bd_ops \<Rightarrow> UpdateAction list \<Rightarrow> Item \<Rightarrow> 'd ExpressionMaps \<Rightarrow> Item ddb_result" where
  "apply_update B actions item maps =
     bind_r (try_fold (set_step B item maps) item actions) (\<lambda>item1.
     bind_r (try_fold (remove_step maps) item1 actions) (\<lambda>item2.
     bind_r (try_fold (add_step B maps) item2 actions) (\<lambda>item3.
     try_fold (delete_step B maps) item3 actions)))"

end
