(* ===== verification/Update_Parser.thy ===== *)
theory Update_Parser
  imports Parser_Print Update_Props "HOL-Library.Sublist"
begin

text \<open>
  \<open>crates/core/src/expression/update_parser.rs\<close>: the parser of update expressions, with the same
  conventions as the condition parser.  The two entry points differ in the message for a token that starts
  no clause only, so that they share \<open>update_loop\<close>, which returns that token; a slice of the source at a
  position inside a character would panic in Rust and is \<open>None\<close>.
\<close>

subsection \<open>The context of a syntax error\<close>

text \<open>\<open>str::trim_end\<close>: the characters with the Unicode property \<open>White_Space\<close>, by their UTF-8 encoding.\<close>

definition white_space :: "string list" where
  "white_space =
     [[CHR 0x09], [CHR 0x0A], [CHR 0x0B], [CHR 0x0C], [CHR 0x0D], [CHR 0x20], [CHR 0xC2, CHR 0x85], [CHR 0xC2, CHR 0xA0],
      [CHR 0xE1, CHR 0x9A, CHR 0x80]] @
     map (\<lambda>b. [CHR 0xE2, CHR 0x80, b])
       [CHR 0x80, CHR 0x81, CHR 0x82, CHR 0x83, CHR 0x84, CHR 0x85, CHR 0x86, CHR 0x87, CHR 0x88, CHR 0x89, CHR 0x8A,
        CHR 0xA8, CHR 0xA9, CHR 0xAF] @
     [[CHR 0xE2, CHR 0x81, CHR 0x9F], [CHR 0xE3, CHR 0x80, CHR 0x80]]"

function trim_end :: "string \<Rightarrow> string" where
  "trim_end s =
     (case find (\<lambda>w. suffix w s) white_space of
        Some w \<Rightarrow> trim_end (take (length s - length w) s)
      | None \<Rightarrow> s)"
  by pat_completeness auto
termination
proof (relation "measure length")
  fix s w assume "find (\<lambda>w. suffix w s) white_space = Some w"
  then have "w \<in> set white_space" "suffix w s" by (auto simp: find_Some_iff)
  moreover have "\<forall>w \<in> set white_space. w \<noteq> []" by (simp add: white_space_def)
  ultimately show "(take (length s - length w) s, s) \<in> measure length"
    by (auto simp: suffix_def)
qed simp

definition build_near_context :: "string \<Rightarrow> string \<Rightarrow> string option" where
  "build_near_context source token_text =
     (if source = [] then Some token_text
      else
        (case find_sub source token_text of
           Some start \<Rightarrow>
            (let end' = min (start + length token_text + 7) (length source) in
             if is_char_boundary source start \<and> is_char_boundary source end'
             then Some (trim_end (take (end' - start) (drop start source))) else None)
         | None \<Rightarrow> Some token_text))"

lemma starts_with_length: "starts_with s p \<Longrightarrow> length p \<le> length s"
  by (induction s p rule: starts_with.induct) auto

lemma find_sub_bound: "find_sub s needle = Some i \<Longrightarrow> i + length needle \<le> length s"
  by (induction s arbitrary: i) (auto split: if_split_asm dest: starts_with_length)

lemma ascii_boundary:
  assumes "is_ascii s" "i \<le> length s"
  shows "is_char_boundary s i"
proof -
  have "i < length s \<Longrightarrow> \<not> is_cont_byte (s ! i)" for i
    using assms(1) by (force simp: is_ascii_def list_all_length is_ascii_byte_def is_cont_byte_def)
  with assms(2) show ?thesis by (auto simp: is_char_boundary_def)
qed

lemma build_near_context_ascii: "is_ascii source \<Longrightarrow> build_near_context source t \<noteq> None"
  by (auto simp: build_near_context_def Let_def ascii_boundary split: option.split dest: find_sub_bound)

subsection \<open>Values\<close>

definition uexp_err :: "string \<Rightarrow> DynamoDbError" where
  "uexp_err msg = validation_err (''Invalid UpdateExpression: '' @ msg)"

definition is_set_function :: "string \<Rightarrow> bool" where
  "is_set_function name \<longleftrightarrow> name \<in> {''if_not_exists'', ''list_append''}"

fun arith_tok :: "Token \<Rightarrow> ArithOp option" where
  "arith_tok T_Plus = Some Arith_Add"
| "arith_tok T_Minus = Some Arith_Sub"
| "arith_tok _ = None"

text \<open>The test \<open>length r1 < length rest\<close> always holds, see \<open>parse_value_expr_unfold\<close>.\<close>

function parse_value_expr :: "Token list \<Rightarrow> (Expr \<times> Token list) ddb_result"
  and parse_set_operand :: "Token list \<Rightarrow> (Expr \<times> Token list) ddb_result"
  and parse_set_function_call :: "Token list \<Rightarrow> (Expr \<times> Token list) ddb_result" where
  "parse_value_expr rest =
     bind_r (parse_set_operand rest) (\<lambda>(left, r).
       case r of
         [] \<Rightarrow> Inr (left, r)
       | t # r1 \<Rightarrow>
          (case arith_tok t of
             Some op \<Rightarrow>
               if length r1 < length rest
               then bind_r (parse_set_operand r1) (\<lambda>(right, r2). Inr (E_Arithmetic left op right, r2))
               else Inr (left, r)
           | None \<Rightarrow> Inr (left, r)))"
| "parse_set_operand rest =
     (case rest of
        [] \<Rightarrow> Inl (uexp_err ''expected operand'')
      | t # r \<Rightarrow>
         (case t of
            T_Placeholder name \<Rightarrow> Inr (E_Placeholder name, r)
          | T_Ident name \<Rightarrow>
              if is_set_function (to_ascii_lowercase name) \<and> r \<noteq> [] \<and> hd r = T_LParen
              then parse_set_function_call rest
              else path_expr rest
          | T_NameRef _ \<Rightarrow> path_expr rest
          | T_LParen \<Rightarrow>
              bind_r (parse_value_expr r) (\<lambda>(e, r1).
                case r1 of
                  [] \<Rightarrow> Inl (uexp_err (''expected closing '' @ squote @ '')'' @ squote))
                | t1 # r2 \<Rightarrow>
                    if t1 \<noteq> T_RParen then Inl (uexp_err (''expected closing '' @ squote @ '')'' @ squote))
                    else Inr (e, r2))
          | _ \<Rightarrow> Inl (uexp_err ''expected path, placeholder, or function'')))"
| "parse_set_function_call rest =
     (case rest of
        [] \<Rightarrow> Inl (uexp_err ''expected function name'')
      | t # r \<Rightarrow>
         (case ident_tok t of
            None \<Rightarrow> Inl (uexp_err ''expected function name'')
          | Some n \<Rightarrow>
              bind_r (expect_token r T_LParen ''('' ''UpdateExpression'') (\<lambda>r1.
              bind_r (if r1 \<noteq> [] \<and> hd r1 \<noteq> T_RParen
                      then bind_r (parse_set_operand r1) (\<lambda>(a, r2).
                             sep_loop T_Comma parse_set_operand snoc (length r1) [a] r2)
                      else Inr ([], r1)) (\<lambda>(args, r3).
              bind_r (expect_token r3 T_RParen '')'' ''UpdateExpression'') (\<lambda>r4.
              Inr (E_Function (to_ascii_lowercase n) args, r4))))))"
  by pat_completeness auto
termination
  by (relation "measures [\<lambda>x. case x of Inl r \<Rightarrow> length r | Inr (Inl r) \<Rightarrow> length r | Inr (Inr r) \<Rightarrow> length r,
      \<lambda>x. case x of Inl r \<Rightarrow> 2 | Inr (Inl r) \<Rightarrow> 1 | Inr (Inr r) \<Rightarrow> 0]") auto

declare parse_value_expr.simps [simp del] parse_set_operand.simps [simp del] parse_set_function_call.simps [simp del]

definition parse_add_delete_value :: "Token list \<Rightarrow> (Expr \<times> Token list) ddb_result" where
  "parse_add_delete_value rest =
     (case rest of
        [] \<Rightarrow> Inl (uexp_err ''expected value for ADD/DELETE action'')
      | t # r \<Rightarrow>
         (case t of
            T_Placeholder name \<Rightarrow> Inr (E_Placeholder name, r)
          | _ \<Rightarrow> Inl (uexp_err ''ADD/DELETE value must be a placeholder'')))"

subsection \<open>Clauses\<close>

text \<open>The body of the loop of each kind of clause; the loop itself is \<open>clause_loop\<close>.\<close>

definition parse_set_action :: "Token list \<Rightarrow> (UpdateAction \<times> Token list) ddb_result" where
  "parse_set_action rest =
     bind_r (parse_path rest) (\<lambda>(path, r1).
     bind_r (expect_token r1 T_Eq ''='' ''UpdateExpression'') (\<lambda>r2.
     bind_r (parse_value_expr r2) (\<lambda>(v, r3). Inr (U_Set path v, r3))))"

definition parse_remove_action :: "Token list \<Rightarrow> (UpdateAction \<times> Token list) ddb_result" where
  "parse_remove_action rest = bind_r (parse_path rest) (\<lambda>(path, r1). Inr (U_Remove path, r1))"

definition parse_add_action :: "Token list \<Rightarrow> (UpdateAction \<times> Token list) ddb_result" where
  "parse_add_action rest =
     bind_r (parse_path rest) (\<lambda>(path, r1).
     bind_r (parse_add_delete_value r1) (\<lambda>(v, r2). Inr (U_Add path v, r2)))"

definition parse_delete_action :: "Token list \<Rightarrow> (UpdateAction \<times> Token list) ddb_result" where
  "parse_delete_action rest =
     bind_r (parse_path rest) (\<lambda>(path, r1).
     bind_r (parse_add_delete_value r1) (\<lambda>(v, r2). Inr (U_Delete path v, r2)))"

definition clause_loop :: "(Token list \<Rightarrow> (UpdateAction \<times> Token list) ddb_result) \<Rightarrow> UpdateAction list \<Rightarrow> Token list \<Rightarrow>
    (UpdateAction list \<times> Token list) ddb_result" where
  "clause_loop p actions rest =
     bind_r (p rest) (\<lambda>(a, r). sep_loop T_Comma p snoc (length r) (actions @ [a]) r)"

definition parse_set_actions :: "UpdateAction list \<Rightarrow> Token list \<Rightarrow> (UpdateAction list \<times> Token list) ddb_result" where
  "parse_set_actions = clause_loop parse_set_action"

definition parse_remove_actions :: "UpdateAction list \<Rightarrow> Token list \<Rightarrow> (UpdateAction list \<times> Token list) ddb_result" where
  "parse_remove_actions = clause_loop parse_remove_action"

definition parse_add_actions :: "UpdateAction list \<Rightarrow> Token list \<Rightarrow> (UpdateAction list \<times> Token list) ddb_result" where
  "parse_add_actions = clause_loop parse_add_action"

definition parse_delete_actions :: "UpdateAction list \<Rightarrow> Token list \<Rightarrow> (UpdateAction list \<times> Token list) ddb_result" where
  "parse_delete_actions = clause_loop parse_delete_action"

fun clause_parser :: "Token \<Rightarrow> (UpdateAction list \<Rightarrow> Token list \<Rightarrow> (UpdateAction list \<times> Token list) ddb_result) option" where
  "clause_parser T_Set = Some parse_set_actions"
| "clause_parser T_Remove = Some parse_remove_actions"
| "clause_parser T_Add = Some parse_add_actions"
| "clause_parser T_Delete = Some parse_delete_actions"
| "clause_parser _ = None"

text \<open>
  The \<open>while\<close> loop: an error is that of a clause, or the token that starts no clause.  The test
  \<open>length r' \<le> length r\<close> always holds, see \<open>update_loop_Cons\<close>.
\<close>

function update_loop :: "UpdateAction list \<Rightarrow> Token list \<Rightarrow> (DynamoDbError + Token) + UpdateAction list" where
  "update_loop actions [] = Inr actions"
| "update_loop actions (t # r) =
     (case clause_parser t of
        None \<Rightarrow> Inl (Inr t)
      | Some p \<Rightarrow>
          bind_r (map_err Inl (p actions r)) (\<lambda>(actions', r').
            if length r' \<le> length r then update_loop actions' r' else Inr actions'))"
  by pat_completeness auto
termination
  by (relation "measure (\<lambda>(_, r). length r)") auto

definition parse_update :: "Token list \<Rightarrow> UpdateAction list ddb_result" where
  "parse_update tokens =
     bind_r (map_err uexp_err (check_redundant_parens tokens)) (\<lambda>_.
       case update_loop [] tokens of
         Inl (Inl e) \<Rightarrow> Inl e
       | Inl (Inr _) \<Rightarrow> Inl (uexp_err ''expected SET, REMOVE, ADD, or DELETE'')
       | Inr actions \<Rightarrow>
           if actions = [] then Inl (uexp_err ''expression must contain at least one action'') else Inr actions)"

definition syntax_err :: "string \<Rightarrow> string \<Rightarrow> DynamoDbError" where
  "syntax_err token_text near =
     uexp_err (''Syntax error; token: '' @ dquote @ token_text @ dquote @ '', near: '' @ dquote @ near @ dquote)"

definition parse_update_from :: "Token list \<Rightarrow> string \<Rightarrow> UpdateAction list ddb_result option" where
  "parse_update_from tokens source =
     (case map_err uexp_err (check_redundant_parens tokens) of
        Inl e \<Rightarrow> Some (Inl e)
      | Inr _ \<Rightarrow>
         (case update_loop [] tokens of
            Inl (Inl e) \<Rightarrow> Some (Inl e)
          | Inl (Inr token) \<Rightarrow>
             (let token_text = token_display_text token in
              map_option (\<lambda>near. Inl (syntax_err token_text near)) (build_near_context source token_text))
          | Inr actions \<Rightarrow>
              Some (if actions = [] then Inl (uexp_err ''expression must contain at least one action'') else Inr actions)))"

subsection \<open>Progress, and the trees that are returned\<close>

fun set_value_ok :: "Expr \<Rightarrow> bool" where
  "set_value_ok (E_Path els) \<longleftrightarrow> path_ok els"
| "set_value_ok (E_Placeholder _) \<longleftrightarrow> True"
| "set_value_ok (E_Function n args) \<longleftrightarrow> is_set_function n \<and> list_all set_value_ok args"
| "set_value_ok (E_Arithmetic l _ r) \<longleftrightarrow> set_value_ok l \<and> set_value_ok r"
| "set_value_ok _ \<longleftrightarrow> False"

fun is_placeholder_expr :: "Expr \<Rightarrow> bool" where
  "is_placeholder_expr (E_Placeholder _) \<longleftrightarrow> True"
| "is_placeholder_expr _ \<longleftrightarrow> False"

fun action_ok :: "UpdateAction \<Rightarrow> bool" where
  "action_ok (U_Set p v) \<longleftrightarrow> path_ok p \<and> set_value_ok v"
| "action_ok (U_Remove p) \<longleftrightarrow> path_ok p"
| "action_ok (U_Add p v) \<longleftrightarrow> path_ok p \<and> is_placeholder_expr v"
| "action_ok (U_Delete p v) \<longleftrightarrow> path_ok p \<and> is_placeholder_expr v"

lemma path_expr_value_ok: "path_expr r = Inr (x, r') \<Longrightarrow> length r' < length r \<and> set_value_ok x"
  by (auto simp: path_expr_def dest: parse_path_progress parse_path_ok)

lemma set_values_progress_ok:
  "(parse_value_expr r = Inr (x, r') \<longrightarrow> length r' < length r \<and> set_value_ok x) \<and>
   (parse_set_operand r = Inr (x, r') \<longrightarrow> length r' < length r \<and> set_value_ok x) \<and>
   (parse_set_function_call r = Inr (x, r') \<longrightarrow> length r' < length r \<and>
     (\<exists>n args. r \<noteq> [] \<and> hd r = T_Ident n \<and> x = E_Function (to_ascii_lowercase n) args \<and> list_all set_value_ok args))"
proof (induction "length r" arbitrary: r x r' rule: less_induct)
  case less
  have IH: "length q < length r \<Longrightarrow> parse_set_operand q = Inr (y, q') \<Longrightarrow> length q' < length q \<and> set_value_ok y"
    "length q < length r \<Longrightarrow> parse_value_expr q = Inr (y, q') \<Longrightarrow> length q' < length q \<and> set_value_ok y" for q y q'
    using less by blast+
  have call: "length r' < length r \<and>
     (\<exists>n args. r \<noteq> [] \<and> hd r = T_Ident n \<and> x = E_Function (to_ascii_lowercase n) args \<and> list_all set_value_ok args)"
    if "parse_set_function_call r = Inr (x, r')" for x r'
  proof -
    from that obtain n r1 args r3 where r: "r = T_Ident n # T_LParen # r1"
      and a: "(if r1 \<noteq> [] \<and> hd r1 \<noteq> T_RParen
               then bind_r (parse_set_operand r1) (\<lambda>(a, r2). sep_loop T_Comma parse_set_operand snoc (length r1) [a] r2)
               else Inr ([], r1)) = Inr (args, r3)"
      and e: "r3 = T_RParen # r'" "x = E_Function (to_ascii_lowercase n) args"
      by (subst (asm) parse_set_function_call.simps)
        (force split: list.split_asm option.split_asm elim!: ident_tok.elims)
    have "length r3 \<le> length r1 \<and> list_all set_value_ok args"
    proof (cases "r1 \<noteq> [] \<and> hd r1 \<noteq> T_RParen")
      case True
      with a obtain y r2 where y: "parse_set_operand r1 = Inr (y, r2)"
        "sep_loop T_Comma parse_set_operand snoc (length r1) [y] r2 = Inr (args, r3)" by auto
      have o: "length r2 < length r1" "set_value_ok y" using IH(1) [OF _ y(1)] r by simp_all
      have "length r3 \<le> length r2"
        by (rule sep_loop_length_bounded [OF _ y(2)]) (use IH(1) r in auto)
      moreover have "list_all set_value_ok args"
        by (rule sep_loop_invariant [OF y(2)]) (use o r in \<open>auto dest: IH(1) [rotated]\<close>)
      ultimately show ?thesis using o(1) by simp
    qed (use a in auto)
    with r e show ?thesis by simp
  qed
  have operand: "length r' < length r \<and> set_value_ok x" if p: "parse_set_operand r = Inr (x, r')" for x r'
  proof (cases "\<exists>n. r \<noteq> [] \<and> hd r = T_Ident n \<and> is_set_function (to_ascii_lowercase n) \<and> parse_set_function_call r = Inr (x, r')")
    case True
    with call [of x r'] show ?thesis by force
  next
    case False
    then show ?thesis using p
      by (subst (asm) parse_set_operand.simps)
        (auto split: list.split_asm Token.split_asm if_split_asm dest: path_expr_value_ok dest!: IH(2) [rotated])
  qed
  have "length r' < length r \<and> set_value_ok x" if p: "parse_value_expr r = Inr (x, r')"
  proof -
    from p obtain left r1 where l: "parse_set_operand r = Inr (left, r1)" by (subst (asm) parse_value_expr.simps) auto
    note o = operand [OF l]
    show ?thesis
    proof (cases "\<exists>t r2 op. r1 = t # r2 \<and> arith_tok t = Some op")
      case True
      then obtain t r2 op where t: "r1 = t # r2" "arith_tok t = Some op" by blast
      with p l o obtain right where "parse_set_operand r2 = Inr (right, r')" "x = E_Arithmetic left op right"
        by (subst (asm) parse_value_expr.simps) auto
      with IH(1) [of r2 right r'] o t show ?thesis by auto
    next
      case False
      with p l o show ?thesis by (subst (asm) parse_value_expr.simps) (auto split: list.split_asm option.split_asm)
    qed
  qed
  with operand call show ?case by blast
qed

lemmas parse_value_progress = set_values_progress_ok [THEN conjunct1, rule_format]
lemmas parse_set_operand_progress = set_values_progress_ok [THEN conjunct2, THEN conjunct1, rule_format]

interpretation set_operand_p: progress_parser parse_set_operand
  by unfold_locales (blast dest: parse_set_operand_progress)

text \<open>\<open>parse_value_expr\<close> without its bound.\<close>

lemma parse_value_expr_unfold:
  "parse_value_expr rest =
     bind_r (parse_set_operand rest) (\<lambda>(left, r).
       case r of
         [] \<Rightarrow> Inr (left, r)
       | t # r1 \<Rightarrow>
          (case arith_tok t of
             Some op \<Rightarrow> bind_r (parse_set_operand r1) (\<lambda>(right, r2). Inr (E_Arithmetic left op right, r2))
           | None \<Rightarrow> Inr (left, r)))"
  by (subst parse_value_expr.simps)
    (force intro!: bind_r_cong dest!: parse_set_operand_progress split: list.split option.split)

lemma parse_action_progress:
  "parse_set_action r = Inr (x, r') \<Longrightarrow> length r' < length r \<and> action_ok x"
  "parse_remove_action r = Inr (x, r') \<Longrightarrow> length r' < length r \<and> action_ok x"
  "parse_add_action r = Inr (x, r') \<Longrightarrow> length r' < length r \<and> action_ok x"
  "parse_delete_action r = Inr (x, r') \<Longrightarrow> length r' < length r \<and> action_ok x"
  by (auto simp: parse_set_action_def parse_remove_action_def parse_add_action_def parse_delete_action_def
      parse_add_delete_value_def split: list.split_asm Token.split_asm
      dest!: parse_value_progress dest: parse_path_progress parse_path_ok)

interpretation set_action_p: progress_parser parse_set_action
  by unfold_locales (blast dest: parse_action_progress)

interpretation remove_action_p: progress_parser parse_remove_action
  by unfold_locales (blast dest: parse_action_progress)

interpretation add_action_p: progress_parser parse_add_action
  by unfold_locales (blast dest: parse_action_progress)

interpretation delete_action_p: progress_parser parse_delete_action
  by unfold_locales (blast dest: parse_action_progress)

lemma clause_loop_progress_ok:
  assumes "\<And>r x r'. p r = Inr (x, r') \<Longrightarrow> length r' < length r \<and> action_ok x"
    and "clause_loop p acts r = Inr (acts', r')" "list_all action_ok acts"
  shows "length r' < length r \<and> list_all action_ok acts' \<and> acts' \<noteq> []"
proof -
  from assms(2) obtain a r1 where a: "p r = Inr (a, r1)"
    "sep_loop T_Comma p snoc (length r1) (acts @ [a]) r1 = Inr (acts', r')" by (auto simp: clause_loop_def)
  have "length r' \<le> length r1" by (rule sep_loop_length_bounded [OF _ a(2)]) (use assms(1) in blast)
  moreover have "list_all action_ok acts' \<and> acts' \<noteq> []"
    by (rule sep_loop_invariant [OF a(2)]) (use assms(1,3) a(1) in auto)
  ultimately show ?thesis using assms(1) [OF a(1)] by simp
qed

lemma clause_parser_progress_ok:
  assumes "clause_parser t = Some p" "p acts r = Inr (acts', r')" "list_all action_ok acts"
  shows "length r' < length r \<and> list_all action_ok acts' \<and> acts' \<noteq> []"
proof -
  have "p \<in> {parse_set_actions, parse_remove_actions, parse_add_actions, parse_delete_actions}"
    using assms(1) by (cases t rule: clause_parser.cases) auto
  then obtain q where q: "p = clause_loop q" "q \<in> {parse_set_action, parse_remove_action, parse_add_action, parse_delete_action}"
    by (auto simp: parse_set_actions_def parse_remove_actions_def parse_add_actions_def parse_delete_actions_def)
  then have "q r = Inr (x, r') \<Longrightarrow> length r' < length r \<and> action_ok x" for r x r'
    using parse_action_progress by auto
  from clause_loop_progress_ok [OF this] show ?thesis using assms(2,3) q(1) by blast
qed

text \<open>The \<open>while\<close> loop without its bound.\<close>

lemma update_loop_Cons:
  assumes "list_all action_ok actions"
  shows "update_loop actions (t # r) =
     (case clause_parser t of
        None \<Rightarrow> Inl (Inr t)
      | Some p \<Rightarrow> bind_r (map_err Inl (p actions r)) (\<lambda>(actions', r'). update_loop actions' r'))"
  by (force intro!: bind_r_cong dest: clause_parser_progress_ok [OF _ _ assms] split: option.split)

lemma update_loop_ok: "update_loop actions r = Inr acts \<Longrightarrow> list_all action_ok actions \<Longrightarrow> list_all action_ok acts"
  by (induction actions r rule: update_loop.induct)
    (auto split: option.split_asm if_split_asm dest: clause_parser_progress_ok)

lemma parse_update_ok: "parse_update tokens = Inr acts \<Longrightarrow> acts \<noteq> [] \<and> list_all action_ok acts"
  by (auto simp: parse_update_def dest: update_loop_ok split: sum.split_asm if_split_asm)

subsection \<open>Printing updates\<close>

fun ar_tok :: "ArithOp \<Rightarrow> Token" where
  "ar_tok Arith_Add = T_Plus"
| "ar_tok Arith_Sub = T_Minus"

fun print_so :: "Expr \<Rightarrow> Token list" where
  "print_so (E_Path els) = print_path els"
| "print_so (E_Placeholder n) = [T_Placeholder n]"
| "print_so (E_Function n args) = T_Ident n # T_LParen # comma_sep (map print_so args) @ [T_RParen]"
| "print_so (E_Arithmetic l op r) = T_LParen # (print_so l @ ar_tok op # print_so r) @ [T_RParen]"
| "print_so _ = []"

fun print_value :: "Expr \<Rightarrow> Token list" where
  "print_value (E_Arithmetic l op r) = print_so l @ ar_tok op # print_so r"
| "print_value e = print_so e"

fun print_action :: "UpdateAction \<Rightarrow> Token list" where
  "print_action (U_Set p v) = T_Set # print_path p @ T_Eq # print_value v"
| "print_action (U_Remove p) = T_Remove # print_path p"
| "print_action (U_Add p v) = T_Add # print_path p @ print_so v"
| "print_action (U_Delete p v) = T_Delete # print_path p @ print_so v"

text \<open>
  A sum or difference as the only argument of a function cannot be written without parentheses that the
  check for redundant parentheses rejects.
\<close>

fun printable :: "Expr \<Rightarrow> bool" where
  "printable (E_Function _ args) \<longleftrightarrow>
     (case args of [E_Arithmetic _ _ _] \<Rightarrow> False | _ \<Rightarrow> True) \<and> list_all printable args"
| "printable (E_Arithmetic l _ r) \<longleftrightarrow> printable l \<and> printable r"
| "printable _ \<longleftrightarrow> True"

fun action_printable :: "UpdateAction \<Rightarrow> bool" where
  "action_printable (U_Set _ v) \<longleftrightarrow> printable v"
| "action_printable _ \<longleftrightarrow> True"

lemma ar_tok_simps [simp]: "arith_tok (ar_tok op) = Some op" "ar_tok op \<noteq> T_LParen" "ar_tok op \<noteq> T_RParen"
  "ar_tok op \<noteq> T_Dot" "ar_tok op \<noteq> T_LBracket"
  by (cases op; simp)+

lemma print_so_start:
  assumes "set_value_ok e"
  obtains t ts where "print_so e = t # ts" "t \<noteq> T_RParen"
  using assms
  by (cases e rule: set_value_ok.cases; (cases "case e of E_Path els \<Rightarrow> els | _ \<Rightarrow> []" rule: path_ok.cases)?) auto

lemma parse_set_operand_path:
  assumes "path_ok els" "ends_operand rest"
  shows "parse_set_operand (print_path els @ rest) = Inr (E_Path els, rest)"
proof -
  from assms(1) obtain s es where els: "els = P_Attribute s # es" by (cases els rule: path_ok.cases) auto
  have call: "hd (concat (map print_elem es) @ rest) \<noteq> T_LParen" if "concat (map print_elem es) @ rest \<noteq> []"
    using assms(2) that by (cases es; cases rest; (cases "hd es")?) auto
  have "path_expr (print_path els @ rest) = Inr (E_Path els, rest)"
    using parse_path_print [OF assms] by (simp add: path_expr_def)
  with call show ?thesis
    by (cases s rule: name_tok_cases) (subst parse_set_operand.simps; auto simp: els)+
qed

lemma set_args_loop_print:
  assumes "\<forall>e \<in> set es. \<forall>rest. ends_operand rest \<longrightarrow> parse_set_operand (print_so e @ rest) = Inr (e, rest)"
    and "ends_operand rest" "rest = [] \<or> hd rest \<noteq> T_Comma"
    and r: "r = concat (map ((#) T_Comma) (map print_so es)) @ rest"
  shows "sep_loop T_Comma parse_set_operand snoc (length r) acc r = Inr (acc @ es, rest)"
  using assms(1) r
proof (induction es arbitrary: acc r)
  case Nil
  with assms(3) show ?case by (subst set_operand_p.loop_unfold) (cases rest; simp)
next
  case (Cons e es)
  let ?r = "concat (map ((#) T_Comma) (map print_so es)) @ rest"
  have "ends_operand ?r" using assms(2) by (cases es) auto
  then have "parse_set_operand (print_so e @ ?r) = Inr (e, ?r)" using Cons.prems(1) by simp
  moreover have "sep_loop T_Comma parse_set_operand snoc (length ?r) (acc @ [e]) ?r = Inr (acc @ e # es, rest)"
    using Cons.IH [of ?r "acc @ [e]"] Cons.prems(1) by simp
  ultimately show ?case
    unfolding Cons.prems(2) by (subst set_operand_p.loop_unfold) (simp add: comp_def)
qed

lemma parse_set_call_print:
  assumes "\<forall>e \<in> set es. \<forall>rest. ends_operand rest \<longrightarrow> parse_set_operand (print_so e @ rest) = Inr (e, rest)"
    and "list_all set_value_ok es"
  shows "parse_set_function_call (T_Ident n # T_LParen # comma_sep (map print_so es) @ T_RParen # rest) =
    Inr (E_Function (to_ascii_lowercase n) es, rest)"
proof (cases es)
  case Nil
  then show ?thesis by (subst parse_set_function_call.simps) (simp add: expect_token_def)
next
  case (Cons e es')
  let ?r2 = "concat (map ((#) T_Comma) (map print_so es')) @ T_RParen # rest"
  let ?r1 = "print_so e @ ?r2"
  obtain t ts where t: "print_so e = t # ts" "t \<noteq> T_RParen" using assms(2) Cons print_so_start [of e] by auto
  have "ends_operand ?r2" by (cases es') auto
  then have o: "parse_set_operand ?r1 = Inr (e, ?r2)" using assms(1) Cons by simp
  have "sep_loop T_Comma parse_set_operand snoc (length ?r2) [e] ?r2 = Inr ([e] @ es', T_RParen # rest)"
    by (rule set_args_loop_print [OF _ _ _ refl]) (use assms(1) Cons in auto)
  moreover have "sep_loop T_Comma parse_set_operand snoc (length ?r1) [e] ?r2 =
      sep_loop T_Comma parse_set_operand snoc (length ?r2) [e] ?r2"
    by (rule set_operand_p.loop_fuel) simp_all
  ultimately have l: "sep_loop T_Comma parse_set_operand snoc (length ?r1) [e] ?r2 = Inr (es, T_RParen # rest)"
    using Cons by simp
  have h: "?r1 \<noteq> []" "hd ?r1 \<noteq> T_RParen" using t by simp_all
  have c: "comma_sep (map print_so es) @ T_RParen # rest = ?r1" using Cons by simp
  show ?thesis unfolding c
    by (subst parse_set_function_call.simps) (use o l h in \<open>simp add: expect_token_def del: length_append\<close>)
qed

lemma set_function_lower: "is_set_function n \<Longrightarrow> to_ascii_lowercase n = n"
proof -
  have "to_ascii_lowercase ''if_not_exists'' = ''if_not_exists''" "to_ascii_lowercase ''list_append'' = ''list_append''"
    by code_simp+
  then show "is_set_function n \<Longrightarrow> to_ascii_lowercase n = n" by (auto simp: is_set_function_def)
qed

lemma parse_set_operand_print:
  "set_value_ok e \<Longrightarrow> ends_operand rest \<Longrightarrow> parse_set_operand (print_so e @ rest) = Inr (e, rest)"
proof (induction e arbitrary: rest)
  case (E_Path els)
  then show ?case by (simp add: parse_set_operand_path)
next
  case (E_Placeholder n)
  then show ?case by (subst parse_set_operand.simps) simp
next
  case (E_Function n args)
  then have n: "is_set_function n" "list_all set_value_ok args" by simp_all
  have a: "\<forall>e \<in> set args. \<forall>rest. ends_operand rest \<longrightarrow> parse_set_operand (print_so e @ rest) = Inr (e, rest)"
    using E_Function n by (auto simp: list_all_iff)
  with parse_set_call_print [OF a n(2), of n rest] n(1) set_function_lower [OF n(1)] show ?case
    by (subst parse_set_operand.simps) simp
next
  case (E_Arithmetic l op r)
  have "parse_set_operand (print_so l @ ar_tok op # print_so r @ T_RParen # rest) =
      Inr (l, ar_tok op # print_so r @ T_RParen # rest)"
    using E_Arithmetic by (intro E_Arithmetic.IH) simp_all
  moreover have "parse_set_operand (print_so r @ T_RParen # rest) = Inr (r, T_RParen # rest)"
    using E_Arithmetic by (intro E_Arithmetic.IH) simp_all
  ultimately show ?case by (subst parse_set_operand.simps) (simp add: parse_value_expr_unfold)
qed simp_all

text \<open>What follows a printed action: nothing, or the keyword of the next.\<close>

definition ends_action :: "Token list \<Rightarrow> bool" where
  "ends_action rest \<longleftrightarrow> (case rest of [] \<Rightarrow> True | t # _ \<Rightarrow> t \<in> {T_Set, T_Remove, T_Add, T_Delete})"

lemma ends_actionD:
  assumes "ends_action rest"
  shows "ends_operand rest" "rest = [] \<or> hd rest \<noteq> T_Comma" "rest = [] \<or> arith_tok (hd rest) = None"
  using assms by (auto simp: ends_action_def split: list.split_asm)

lemma parse_value_print:
  assumes "set_value_ok v" "ends_action rest"
  shows "parse_value_expr (print_value v @ rest) = Inr (v, rest)"
proof -
  note rest = ends_actionD [OF assms(2)]
  show ?thesis
  proof (cases "\<exists>l op r. v = E_Arithmetic l op r")
    case True
    then obtain l op r where v: "v = E_Arithmetic l op r" by blast
    then show ?thesis using assms(1) rest(1) parse_set_operand_print [of l "ar_tok op # print_so r @ rest"]
        parse_set_operand_print [of r rest] by (simp add: parse_value_expr_unfold)
  next
    case False
    then have "print_value v = print_so v" by (cases v) auto
    then show ?thesis using parse_set_operand_print [OF assms(1) rest(1)] rest(3)
      by (cases rest) (simp_all add: parse_value_expr_unfold)
  qed
qed

lemma clause_print:
  assumes "action_ok a" "ends_action rest"
  obtains t r p where "print_action a @ rest = t # r" "clause_parser t = Some p" "\<And>acts. p acts r = Inr (acts @ [a], rest)"
proof -
  note rest = ends_actionD [OF assms(2)]
  have stop: "sep_loop T_Comma p snoc (length rest) acts rest = Inr (acts, rest)" for p and acts :: "UpdateAction list"
    by (rule sep_loop_stop) (use rest in auto)
  have pl: "path_ok els \<Longrightarrow> parse_path (print_path els @ T_Placeholder n # rest) = Inr (els, T_Placeholder n # rest)" for els n
    by (simp add: parse_path_print)
  note defs = parse_set_actions_def parse_remove_actions_def parse_add_actions_def parse_delete_actions_def clause_loop_def
    parse_set_action_def parse_remove_action_def parse_add_action_def parse_delete_action_def
    parse_add_delete_value_def expect_token_def parse_path_print stop pl
  show thesis
  proof (cases a)
    case (U_Set p v)
    show ?thesis
      by (rule that [of T_Set "print_path p @ T_Eq # print_value v @ rest" parse_set_actions])
        (use U_Set assms parse_value_print in \<open>simp_all add: defs\<close>)
  next
    case (U_Remove p)
    show ?thesis
      by (rule that [of T_Remove "print_path p @ rest" parse_remove_actions]) (use U_Remove assms(1) rest(1) in \<open>simp_all add: defs\<close>)
  next
    case (U_Add p v)
    with assms(1) obtain n where "v = E_Placeholder n" by (auto elim!: is_placeholder_expr.elims)
    with U_Add assms(1) show ?thesis
      by (intro that [of T_Add "print_path p @ T_Placeholder n # rest" parse_add_actions]) (simp_all add: defs)
  next
    case (U_Delete p v)
    with assms(1) obtain n where "v = E_Placeholder n" by (auto elim!: is_placeholder_expr.elims)
    with U_Delete assms(1) show ?thesis
      by (intro that [of T_Delete "print_path p @ T_Placeholder n # rest" parse_delete_actions]) (simp_all add: defs)
  qed
qed

definition print_update :: "UpdateAction list \<Rightarrow> Token list" where
  "print_update acts = concat (map print_action acts)"

lemma ends_action_print: "ends_action (print_update acts)"
proof (cases acts)
  case (Cons a as)
  then show ?thesis by (cases a) (simp_all add: ends_action_def print_update_def)
qed (simp add: ends_action_def print_update_def)

lemma update_loop_print:
  "list_all action_ok acts \<Longrightarrow> list_all action_ok done \<Longrightarrow> update_loop done (print_update acts) = Inr (done @ acts)"
proof (induction acts arbitrary: "done")
  case (Cons a acts)
  then have a: "action_ok a" by simp
  obtain t r p where p: "print_action a @ print_update acts = t # r" "clause_parser t = Some p"
    "\<And>acts'. p acts' r = Inr (acts' @ [a], print_update acts)"
    using clause_print [OF a ends_action_print [of acts]] by metis
  have "print_update (a # acts) = t # r" using p(1) by (simp add: print_update_def)
  then show ?case using p(2,3) Cons by (simp add: update_loop_Cons del: update_loop.simps(2))
qed (simp add: print_update_def)

lemma neutral_path: "path_ok p \<Longrightarrow> neutral (print_path p)"
  using neutral_operand [of "E_Path p"] by simp

lemma comma_sep_groups: "length xss > 1 \<Longrightarrow> list_all group_neutral xss \<Longrightarrow> neutral (comma_sep xss)"
proof -
  have step: "list_all group_neutral yss \<Longrightarrow> neutral x \<Longrightarrow> neutral (x @ concat (map ((#) T_Comma) yss))" for x yss
  proof (induction yss arbitrary: x)
    case (Cons y yss)
    then have "neutral (x @ T_Comma # y)" by (simp add: neutral_infix neutral_group)
    with Cons.IH [of "x @ T_Comma # y"] Cons.prems show ?case by simp
  qed simp
  assume "length xss > 1" "list_all group_neutral xss"
  then obtain x y zs where "xss = x # y # zs" "group_neutral x" "group_neutral y" "list_all group_neutral zs"
    by (cases xss; cases "tl xss") auto
  with step [of zs "x @ T_Comma # y"] show "neutral (comma_sep xss)" by (simp add: neutral_infix)
qed

lemma neutral_so:
  "set_value_ok e \<Longrightarrow> printable e \<Longrightarrow> group_neutral (print_so e) \<and> ((\<exists>l op r. e = E_Arithmetic l op r) \<or> neutral (print_so e))"
proof (induction e)
  case (E_Path els)
  then show ?case using neutral_path neutral_group by simp
next
  case (E_Placeholder n)
  then show ?case by (simp add: neutral_group)
next
  case (E_Function n args)
  have ih: "group_neutral (print_so e) \<and> ((\<exists>l op r. e = E_Arithmetic l op r) \<or> neutral (print_so e))" if "e \<in> set args" for e
    using E_Function that by (auto simp: list_all_iff)
  have "comma_sep (map print_so args) = [] \<or> neutral (comma_sep (map print_so args))"
  proof (cases "length args > 1")
    case True
    with ih show ?thesis using comma_sep_groups [of "map print_so args"] by (simp add: list_all_iff)
  next
    case False
    then consider "args = []" | e where "args = [e]" by (cases args; cases "tl args") auto
    then show ?thesis using ih E_Function.prems(2) by cases auto
  qed
  then have "neutral (print_so (E_Function n args))" using neutral_call by simp
  then show ?case using neutral_group by blast
next
  case (E_Arithmetic l op r)
  then show ?case by (auto intro!: group_neutral_paren neutral_infix simp del: append_assoc)
qed simp_all

lemma neutral_value: "set_value_ok v \<Longrightarrow> printable v \<Longrightarrow> neutral (print_value v)"
  using neutral_so [of v]
  by (cases v rule: print_value.cases) (auto intro!: neutral_infix dest: neutral_so)

lemma neutral_action: "action_ok a \<Longrightarrow> action_printable a \<Longrightarrow> neutral (print_action a)"
  by (cases a) (auto intro!: neutral_Cons neutral_append neutral_path neutral_value elim!: is_placeholder_expr.elims)

lemma check_redundant_update:
  "list_all action_ok acts \<Longrightarrow> list_all action_printable acts \<Longrightarrow> check_redundant_parens (print_update acts) = Inr ()"
proof -
  have "list_all action_ok acts \<Longrightarrow> list_all action_printable acts \<Longrightarrow> print_update acts = [] \<or> neutral (print_update acts)"
  proof (induction acts)
    case (Cons a acts)
    then have "neutral (print_action a)" by (simp add: neutral_action)
    moreover have "print_update (a # acts) = print_action a @ print_update acts" by (simp add: print_update_def)
    ultimately show ?case using Cons by (cases "print_update acts = []") (auto simp: neutral_append)
  qed (simp add: print_update_def)
  then show "list_all action_ok acts \<Longrightarrow> list_all action_printable acts \<Longrightarrow> check_redundant_parens (print_update acts) = Inr ()"
    by (auto simp: check_redundant_parens_def neutral_def) (metis append.right_neutral check_parens.simps(1))
qed

subsection \<open>Properties\<close>

text \<open>
  C25: every update made of well-formed actions can be written: its printed tokens parse to the same actions
  in the same order, with arithmetic grouped as in the tree.
\<close>

theorem update_print_roundtrip:
  assumes "acts \<noteq> []" "list_all action_ok acts" "list_all action_printable acts"
  shows "parse_update (print_update acts) = Inr acts"
  using check_redundant_update [OF assms(2,3)] update_loop_print [OF assms(2), of "[]"] assms(1)
  by (simp add: parse_update_def)

theorem update_print_roundtrip_witness:
  "parse_update [T_Set, T_Ident ''n'', T_Eq, T_LParen, T_Ident ''n'', T_Minus, T_Placeholder ''a'', T_RParen, T_Plus,
     T_Placeholder ''b'', T_Remove, T_NameRef ''x''] =
   Inr [U_Set [P_Attribute ''n''] (E_Arithmetic (E_Arithmetic (E_Path [P_Attribute ''n'']) Arith_Sub (E_Placeholder ''a''))
     Arith_Add (E_Placeholder ''b'')), U_Remove [P_Attribute ''#x'']]"
proof -
  let ?acts = "[U_Set [P_Attribute ''n''] (E_Arithmetic (E_Arithmetic (E_Path [P_Attribute ''n'']) Arith_Sub (E_Placeholder ''a''))
     Arith_Add (E_Placeholder ''b'')), U_Remove [P_Attribute ''#x'']]"
  have "print_update ?acts = [T_Set, T_Ident ''n'', T_Eq, T_LParen, T_Ident ''n'', T_Minus, T_Placeholder ''a'', T_RParen,
     T_Plus, T_Placeholder ''b'', T_Remove, T_NameRef ''x'']" by code_simp
  moreover have "list_all action_ok ?acts" "list_all action_printable ?acts" by code_simp+
  ultimately show ?thesis using update_print_roundtrip [of ?acts] by simp
qed

text \<open>
  C26: on the text that was lexed, \<open>parse_update_from\<close> never slices inside a character to build the context of
  a syntax error, and it accepts the same expressions with the same actions as \<open>parse_update\<close>.
\<close>

theorem parse_update_from_agrees:
  assumes "tokenize_for source n kind = Inr tokens"
  shows "\<exists>res. parse_update_from tokens source = Some res \<and> (\<forall>acts. res = Inr acts \<longleftrightarrow> parse_update tokens = Inr acts)"
proof -
  have "is_ascii source" using assms tokenize_loop_ascii by (auto simp: tokenize_for_def split: if_split_asm)
  then have near: "build_near_context source t = Some (the (build_near_context source t))" for t
    using build_near_context_ascii by simp
  consider e where "check_redundant_parens tokens = Inl e" | "check_redundant_parens tokens = Inr ()"
    by (cases "check_redundant_parens tokens") auto
  then show ?thesis
  proof cases
    case 2
    show ?thesis
    proof (cases "update_loop [] tokens")
      case (Inl e)
      then show ?thesis using 2 near [of "token_display_text (projr e)"]
        by (cases e) (auto simp: parse_update_from_def parse_update_def Let_def)
    qed (use 2 in \<open>auto simp: parse_update_from_def parse_update_def\<close>)
  qed (auto simp: parse_update_from_def parse_update_def)
qed

theorem parse_update_from_agrees_witness:
  "\<exists>res. parse_update_from [T_Ident ''x''] ''x'' = Some res \<and> (\<forall>acts. res = Inr acts \<longleftrightarrow> parse_update [T_Ident ''x''] = Inr acts)"
proof -
  have "tokenize_for ''x'' 5 K_Update = Inr [T_Ident ''x'']" by code_simp
  then show ?thesis by (rule parse_update_from_agrees)
qed

end
