(* ===== verification/Projection.thy ===== *)
theory Projection
  imports Parser_Print Resolver
begin

text \<open>
  \<open>crates/core/src/expression/projection.rs\<close>: projection expressions are parsed into document paths, compiled
  into a trie and applied to items.  The reference \<open>select\<close> reads the paths directly and walks over the item
  instead of the trie; for paths that do not disagree on whether a value is a map or a list the two are the
  same function.
\<close>

subsection \<open>Parsing\<close>

text \<open>The loop has to see a comma before each further path; \<open>n\<close> is the number of tokens of the expression.\<close>

function projection_loop :: "nat \<Rightarrow> PathElement list list \<Rightarrow> Token list \<Rightarrow> PathElement list list ddb_result" where
  "projection_loop n paths [] = Inr paths"
| "projection_loop n paths (t # r) =
     (if t \<noteq> T_Comma
      then Inl (validation_err (''Invalid ProjectionExpression: unexpected token at position '' @ show_nat (n - length (t # r))))
      else bind_r (parse_path r) (\<lambda>(path, r'). projection_loop n (paths @ [path]) r'))"
  by pat_completeness auto
termination
  by (relation "measure (\<lambda>(_, _, r). length r)") (auto dest: parse_path_progress)

definition parse_projection :: "Token list \<Rightarrow> PathElement list list ddb_result" where
  "parse_projection tokens =
     (if tokens = [] then Inr []
      else bind_r (parse_path tokens) (\<lambda>(path, r). projection_loop (length tokens) [path] r))"

subsection \<open>Compilation\<close>

datatype ProjNode = ProjNode (pn_terminal: bool) (pn_attrs: "(string \<times> ProjNode) list") (pn_indices: "(nat \<times> ProjNode) list")

datatype ResolvedElement = R_Attr string | R_Index nat

abbreviation proj_default :: ProjNode where
  "proj_default \<equiv> ProjNode False [] []"

definition prefix_projection_error :: "DynamoDbError \<Rightarrow> DynamoDbError" where
  "prefix_projection_error err =
     (case err of
        ValidationException msg \<Rightarrow>
          if \<not> starts_with msg ''Invalid '' then validation_err (''Invalid ProjectionExpression: '' @ msg) else err
      | _ \<Rightarrow> err)"

fun resolve_elements :: "nat \<Rightarrow> PathElement list \<Rightarrow> 'd ExpressionMaps \<Rightarrow> ResolvedElement list ddb_result" where
  "resolve_elements i [] maps = Inr []"
| "resolve_elements i (P_Attribute raw # els) maps =
     bind_r (resolve_name_ref raw maps) (\<lambda>name.
     bind_r (resolve_elements (Suc i) els maps) (\<lambda>elems. Inr (R_Attr name # elems)))"
| "resolve_elements i (P_Index idx # els) maps =
     (if i = 0 then Inl (validation_err ''Invalid expression: path cannot start with an index'')
      else bind_r (resolve_elements (Suc i) els maps) (\<lambda>elems. Inr (R_Index idx # elems)))"

fun resolve_paths :: "PathElement list list \<Rightarrow> 'd ExpressionMaps \<Rightarrow> ResolvedElement list list ddb_result" where
  "resolve_paths [] maps = Inr []"
| "resolve_paths (path # paths) maps =
     (if path = [] then resolve_paths paths maps
      else bind_r (resolve_elements 0 path maps) (\<lambda>elems.
           bind_r (resolve_paths paths maps) (\<lambda>resolved. Inr (elems # resolved))))"

definition is_prefix :: "ResolvedElement list \<Rightarrow> ResolvedElement list \<Rightarrow> bool" where
  "is_prefix a b \<longleftrightarrow> length a \<le> length b \<and> a = take (length a) b"

fun render_element :: "ResolvedElement \<Rightarrow> string" where
  "render_element (R_Attr name) = name"
| "render_element (R_Index idx) = ''['' @ show_nat idx @ '']''"

definition render_path :: "ResolvedElement list \<Rightarrow> string" where
  "render_path path = ''['' @ join (map render_element path) '', '' @ '']''"

definition overlap_err :: "ResolvedElement list \<Rightarrow> ResolvedElement list \<Rightarrow> DynamoDbError" where
  "overlap_err p q =
     validation_err (''Invalid ProjectionExpression: Two document paths overlap with each other; '' @
       ''must remove or rewrite one of these paths; path one: '' @ render_path p @ '', path two: '' @ render_path q)"

fun check_overlap :: "ResolvedElement list list \<Rightarrow> unit ddb_result" where
  "check_overlap [] = Inr ()"
| "check_overlap (p # ps) =
     (case find (\<lambda>q. is_prefix p q \<or> is_prefix q p) ps of
        Some q \<Rightarrow> Inl (overlap_err p q)
      | None \<Rightarrow> check_overlap ps)"

text \<open>\<open>entry(k).or_default()\<close>.\<close>

definition or_default :: "('k \<times> ProjNode) list \<Rightarrow> 'k \<Rightarrow> ProjNode" where
  "or_default m k = (case bt_get m k of Some n \<Rightarrow> n | None \<Rightarrow> proj_default)"

fun trie_insert :: "ResolvedElement list \<Rightarrow> ProjNode \<Rightarrow> ProjNode" where
  "trie_insert [] (ProjNode t as is) = ProjNode True as is"
| "trie_insert (R_Attr name # p) (ProjNode t as is) = ProjNode t (bt_insert name (trie_insert p (or_default as name)) as) is"
| "trie_insert (R_Index idx # p) (ProjNode t as is) = ProjNode t as (bt_insert idx (trie_insert p (or_default is idx)) is)"

definition build_trie :: "ResolvedElement list list \<Rightarrow> ProjNode" where
  "build_trie resolved = fold trie_insert resolved proj_default"

definition compile_projection :: "PathElement list list \<Rightarrow> 'd ExpressionMaps \<Rightarrow> bool \<Rightarrow> ProjNode ddb_result" where
  "compile_projection paths maps reject_overlap =
     bind_r (map_err prefix_projection_error (resolve_paths paths maps)) (\<lambda>resolved.
     bind_r (if reject_overlap then check_overlap resolved else Inr ()) (\<lambda>_.
     Inr (build_trie resolved)))"

subsection \<open>Application\<close>

fun project_value :: "AttributeValue \<Rightarrow> ProjNode \<Rightarrow> AttributeValue option"
  and project_attrs :: "Item \<Rightarrow> (string \<times> ProjNode) list \<Rightarrow> Item \<Rightarrow> Item"
  and project_indices :: "AttributeValue list \<Rightarrow> (nat \<times> ProjNode) list \<Rightarrow> AttributeValue list \<Rightarrow> AttributeValue list" where
  "project_value v (ProjNode t as is) =
     (if t then Some v
      else if as \<noteq> [] then
        (case v of
           AV_M m \<Rightarrow> (let out = project_attrs m as [] in if out \<noteq> [] then Some (AV_M out) else None)
         | _ \<Rightarrow> None)
      else if is \<noteq> [] then
        (case v of
           AV_L l \<Rightarrow> (let out = project_indices l is [] in if out \<noteq> [] then Some (AV_L out) else None)
         | _ \<Rightarrow> None)
      else None)"
| "project_attrs m [] out = out"
| "project_attrs m ((name, child) # as) out =
     project_attrs m as
      (case bt_get m name of
         Some child_val \<Rightarrow> (case project_value child_val child of Some projected \<Rightarrow> bt_insert name projected out | None \<Rightarrow> out)
       | None \<Rightarrow> out)"
| "project_indices l [] out = out"
| "project_indices l ((idx, child) # is) out =
     project_indices l is
      (if idx < length l
       then (case project_value (l ! idx) child of Some projected \<Rightarrow> out @ [projected] | None \<Rightarrow> out)
       else out)"

definition apply_projection :: "ProjNode \<Rightarrow> Item \<Rightarrow> Item" where
  "apply_projection root item = project_attrs item (pn_attrs root) []"

subsection \<open>The reference\<close>

text \<open>What the paths that start with an element ask of the value there.\<close>

definition sub_paths :: "ResolvedElement \<Rightarrow> ResolvedElement list list \<Rightarrow> ResolvedElement list list" where
  "sub_paths e ps = map tl (filter (\<lambda>p. p \<noteq> [] \<and> hd p = e) ps)"

definition unless_empty :: "('a list \<Rightarrow> 'b) \<Rightarrow> 'a list \<Rightarrow> 'b option" where
  "unless_empty f xs = (if xs = [] then None else Some (f xs))"

text \<open>
  The parts of a value that the paths select: all of it when a path ends here, otherwise the selected parts
  of the members, in the order of the map or list; nothing when no member has a selected part.
\<close>

fun select :: "ResolvedElement list list \<Rightarrow> AttributeValue \<Rightarrow> AttributeValue option"
  and select_map :: "ResolvedElement list list \<Rightarrow> Item \<Rightarrow> Item"
  and select_list :: "ResolvedElement list list \<Rightarrow> nat \<Rightarrow> AttributeValue list \<Rightarrow> AttributeValue list" where
  "select ps v =
     (if [] \<in> set ps then Some v
      else (case v of
              AV_M m \<Rightarrow> unless_empty AV_M (select_map ps m)
            | AV_L l \<Rightarrow> unless_empty AV_L (select_list ps 0 l)
            | _ \<Rightarrow> None))"
| "select_map ps [] = []"
| "select_map ps ((k, w) # m) =
     (case select (sub_paths (R_Attr k) ps) w of Some w' \<Rightarrow> (k, w') # select_map ps m | None \<Rightarrow> select_map ps m)"
| "select_list ps i [] = []"
| "select_list ps i (w # l) =
     (case select (sub_paths (R_Index i) ps) w of Some w' \<Rightarrow> w' # select_list ps (Suc i) l | None \<Rightarrow> select_list ps (Suc i) l)"

declare select.simps [simp del] project_value.simps [simp del]

text \<open>Two paths conflict when one takes a value for a map and the other for a list.\<close>

fun conflict :: "ResolvedElement list \<Rightarrow> ResolvedElement list \<Rightarrow> bool" where
  "conflict (R_Attr a # p) (R_Attr b # q) \<longleftrightarrow> a = b \<and> conflict p q"
| "conflict (R_Index i # p) (R_Index j # q) \<longleftrightarrow> i = j \<and> conflict p q"
| "conflict (R_Attr _ # _) (R_Index _ # _) \<longleftrightarrow> True"
| "conflict (R_Index _ # _) (R_Attr _ # _) \<longleftrightarrow> True"
| "conflict _ _ \<longleftrightarrow> False"

definition conflict_free :: "ResolvedElement list list \<Rightarrow> bool" where
  "conflict_free ps \<longleftrightarrow> (\<forall>p \<in> set ps. \<forall>q \<in> set ps. \<not> conflict p q)"

lemma in_sub_paths [simp]: "p \<in> set (sub_paths e ps) \<longleftrightarrow> e # p \<in> set ps"
proof -
  have "e # p \<in> set ps \<Longrightarrow> p \<in> set (sub_paths e ps)" by (force simp: sub_paths_def)
  moreover have "p \<in> set (sub_paths e ps) \<Longrightarrow> e # p \<in> set ps" by (auto simp: sub_paths_def)
  ultimately show ?thesis by blast
qed

lemma conflict_same: "conflict (e # p) (e # q) = conflict p q"
  by (cases e) auto

lemma conflict_free_sub: "conflict_free ps \<Longrightarrow> conflict_free (sub_paths e ps)"
  by (auto simp: conflict_free_def) (metis conflict_same)

lemma sub_paths_Nil [simp]: "sub_paths e [] = []"
  by (simp add: sub_paths_def)

lemma select_nothing:
  "select [] v = None" "select_map [] m = []" "select_list [] i l = []"
  by (induction "[] :: ResolvedElement list list" v and "[] :: ResolvedElement list list" m and "[] :: ResolvedElement list list" i l
      rule: select_select_map_select_list.induct)
    (auto simp: unless_empty_def select.simps split: AttributeValue.split)

subsection \<open>The trie as a set of paths\<close>

fun trie_has :: "ProjNode \<Rightarrow> ResolvedElement list \<Rightarrow> bool" where
  "trie_has (ProjNode t as is) [] \<longleftrightarrow> t"
| "trie_has (ProjNode t as is) (R_Attr k # p) \<longleftrightarrow> (case bt_get as k of Some n \<Rightarrow> trie_has n p | None \<Rightarrow> False)"
| "trie_has (ProjNode t as is) (R_Index i # p) \<longleftrightarrow> (case bt_get is i of Some n \<Rightarrow> trie_has n p | None \<Rightarrow> False)"

text \<open>Ordered children, each with a path through it.\<close>

fun trie_wf :: "ProjNode \<Rightarrow> bool" where
  "trie_wf (ProjNode t as is) \<longleftrightarrow> bt_wf as \<and> bt_wf is \<and>
     list_all (\<lambda>(_, n). trie_wf n \<and> (\<exists>p. trie_has n p)) as \<and> list_all (\<lambda>(_, n). trie_wf n \<and> (\<exists>p. trie_has n p)) is"

lemma trie_wf_child:
  "trie_wf (ProjNode t as is) \<Longrightarrow> bt_get as k = Some n \<Longrightarrow> trie_wf n \<and> (\<exists>p. trie_has n p)"
  "trie_wf (ProjNode t as is) \<Longrightarrow> bt_get is i = Some n \<Longrightarrow> trie_wf n \<and> (\<exists>p. trie_has n p)"
  by (auto simp: list_all_iff dest!: bt_get_SomeD)

lemma trie_has_default [simp]: "\<not> trie_has proj_default p"
  by (cases "(proj_default, p)" rule: trie_has.cases) auto

lemma trie_has_or_default:
  "trie_has (or_default m k) p \<longleftrightarrow> (case bt_get m k of Some n \<Rightarrow> trie_has n p | None \<Rightarrow> False)"
  by (simp add: or_default_def split: option.split)

lemma trie_has_insert: "trie_has (trie_insert p n) q \<longleftrightarrow> q = p \<or> trie_has n q"
proof (induction p n arbitrary: q rule: trie_insert.induct)
  case (1 t as "is")
  then show ?case by (cases "(ProjNode t as is, q)" rule: trie_has.cases) auto
next
  case (2 name p t as "is")
  then show ?case
    by (cases "(ProjNode t as is, q)" rule: trie_has.cases) (auto simp: bt_get_insert trie_has_or_default)
next
  case (3 idx p t as "is")
  then show ?case
    by (cases "(ProjNode t as is, q)" rule: trie_has.cases) (auto simp: bt_get_insert trie_has_or_default)
qed

lemma trie_wf_or_default:
  "bt_wf m \<Longrightarrow> list_all (\<lambda>(_, n). trie_wf n \<and> (\<exists>p. trie_has n p)) m \<Longrightarrow> trie_wf (or_default m k)"
  by (auto simp: or_default_def list_all_iff split: option.split dest!: bt_get_SomeD)

lemma live_insert:
  assumes "list_all (\<lambda>(_, n). trie_wf n \<and> (\<exists>p. trie_has n p)) m" "trie_wf n" "trie_has n p"
  shows "list_all (\<lambda>(_, n). trie_wf n \<and> (\<exists>p. trie_has n p)) (bt_insert k n m)"
  using assms by (induction k n m rule: bt_insert.induct) auto

lemma trie_wf_insert: "trie_wf n \<Longrightarrow> trie_wf (trie_insert p n)"
  by (induction p n rule: trie_insert.induct)
    (auto simp: trie_wf_or_default trie_has_insert intro!: live_insert [where p = p for p])

definition trie_rel :: "ProjNode \<Rightarrow> ResolvedElement list list \<Rightarrow> bool" where
  "trie_rel n ps \<longleftrightarrow> trie_wf n \<and> (\<forall>p. trie_has n p \<longleftrightarrow> p \<in> set ps)"

lemma trie_rel_build: "trie_rel (build_trie ps) ps"
proof -
  have "trie_wf n \<Longrightarrow> trie_wf (fold trie_insert ps n) \<and> (\<forall>p. trie_has (fold trie_insert ps n) p \<longleftrightarrow> p \<in> set ps \<or> trie_has n p)" for n
    by (induction ps arbitrary: n) (auto simp: trie_has_insert trie_wf_insert)
  from this [of proj_default] show ?thesis by (simp add: trie_rel_def build_trie_def)
qed

lemma trie_rel_Cons:
  assumes "trie_rel (ProjNode t as is) ps"
  shows "R_Attr k # p \<in> set ps \<longleftrightarrow> (case bt_get as k of Some n \<Rightarrow> trie_has n p | None \<Rightarrow> False)"
    and "R_Index i # p \<in> set ps \<longleftrightarrow> (case bt_get is i of Some n \<Rightarrow> trie_has n p | None \<Rightarrow> False)"
  using assms by (metis trie_rel_def trie_has.simps(2), metis trie_rel_def trie_has.simps(3))

lemma trie_rel_attr:
  assumes "trie_rel (ProjNode t as is) ps"
  shows "case bt_get as k of None \<Rightarrow> sub_paths (R_Attr k) ps = [] | Some n \<Rightarrow> trie_rel n (sub_paths (R_Attr k) ps)"
proof (cases "bt_get as k")
  case None
  then have "p \<notin> set (sub_paths (R_Attr k) ps)" for p using trie_rel_Cons(1) [OF assms] by simp
  with None show ?thesis by (metis option.simps(4) ex_in_conv set_empty)
next
  case (Some n)
  then show ?thesis using assms trie_rel_Cons(1) [OF assms] trie_wf_child(1) [OF _ Some] by (auto simp: trie_rel_def)
qed

lemma trie_rel_index:
  assumes "trie_rel (ProjNode t as is) ps"
  shows "case bt_get is i of None \<Rightarrow> sub_paths (R_Index i) ps = [] | Some n \<Rightarrow> trie_rel n (sub_paths (R_Index i) ps)"
proof (cases "bt_get is i")
  case None
  then have "p \<notin> set (sub_paths (R_Index i) ps)" for p using trie_rel_Cons(2) [OF assms] by simp
  with None show ?thesis by (metis option.simps(4) ex_in_conv set_empty)
next
  case (Some n)
  then show ?thesis using assms trie_rel_Cons(2) [OF assms] trie_wf_child(2) [OF _ Some] by (auto simp: trie_rel_def)
qed

subsection \<open>Both walks agree\<close>

lemma project_attrs_get:
  "distinct (map fst as) \<Longrightarrow>
     bt_get (project_attrs m as out) k =
      (case Option.bind (bt_get as k) (\<lambda>c. Option.bind (bt_get m k) (\<lambda>v. project_value v c)) of
         Some w \<Rightarrow> Some w | None \<Rightarrow> bt_get out k)"
proof (induction as arbitrary: out)
  case (Cons a as)
  obtain name c where a: "a = (name, c)" by (cases a)
  then have "bt_get as name = None" using Cons.prems by (auto simp: bt_get_None_iff)
  then show ?case using Cons a by (auto simp: bt_get_insert split: option.split)
qed simp

lemma project_attrs_wf: "bt_wf out \<Longrightarrow> bt_wf (project_attrs m as out)"
  by (induction as arbitrary: out) (auto split: option.split)

lemma select_map_keys: "k \<in> fst ` set (select_map ps m) \<Longrightarrow> k \<in> fst ` set m"
proof (induction m)
  case (Cons e m)
  obtain k' w where e: "e = (k', w)" by (cases e)
  show ?case
  proof (cases "k = k'")
    case False
    then have "k \<in> fst ` set (select_map ps m)" using Cons.prems e by (auto split: option.split_asm)
    with Cons.IH e show ?thesis by simp
  qed (simp add: e)
qed simp

lemma select_map_wf: "bt_wf m \<Longrightarrow> bt_wf (select_map ps m)"
proof (induction m)
  case (Cons e m)
  obtain k' w where e: "e = (k', w)" by (cases e)
  have "\<forall>k \<in> fst ` set (select_map ps m). k' < k" using Cons.prems select_map_keys e by (metis bt_wf_Cons)
  moreover have "bt_wf (select_map ps m)" using Cons e by simp
  ultimately show ?case by (auto simp: e split: option.split)
qed simp

lemma select_map_get:
  "bt_wf m \<Longrightarrow> bt_get (select_map ps m) k = Option.bind (bt_get m k) (select (sub_paths (R_Attr k) ps))"
proof (induction m)
  case (Cons e m)
  obtain k' w where e: "e = (k', w)" by (cases e)
  with Cons.prems have "bt_get m k' = None" by (auto simp: bt_get_None_iff)
  then show ?case using Cons e by (auto split: option.split)
qed simp

text \<open>A list walked by ascending keys of a map, and by its own positions.\<close>

lemma sorted_keys_upt:
  assumes "bt_wf is"
  shows "filter (\<lambda>(i, _). i < n) is = map (\<lambda>i. (i, the (bt_get is i))) (filter (\<lambda>i. bt_get is i \<noteq> None) [0..<n])"
    (is "?l = ?r")
proof -
  have sorted: "bt_wf ?l" "bt_wf ?r"
    using assms by simp (simp add: bt_wf_def comp_def sorted_wrt_filter sorted_wrt_upt)
  have "bt_get ?l i = (if i < n then bt_get is i else None)" for i
    by (induction "is") (auto simp: bt_get_def)
  moreover have "bt_get ?r i = (if i < n then bt_get is i else None)" for i
    unfolding bt_get_def [of "map _ _"] map_of_map_restrict by (simp add: restrict_map_def)
  ultimately have "bt_get ?l = bt_get ?r" by (simp add: fun_eq_iff)
  with sorted show ?thesis by (rule btm.ext)
qed

lemma project_indices_filter:
  "project_indices l is out = out @ List.map_filter (\<lambda>(i, c). project_value (l ! i) c) (filter (\<lambda>(i, _). i < length l) is)"
  by (induction "is" arbitrary: out) (auto simp: map_filter_def split: option.split)

lemma select_list_filter:
  "select_list ps i l = List.map_filter (\<lambda>j. select (sub_paths (R_Index (i + j)) ps) (l ! j)) [0..<length l]"
proof (induction l arbitrary: i)
  case (Cons w l)
  have "[0..<length (w # l)] = 0 # map Suc [0..<length l]"
    unfolding map_Suc_upt by (simp add: upt_rec [of 0 "Suc (length l)"] del: upt_Suc)
  then show ?case using Cons [of "Suc i"] by (simp add: map_filter_def comp_def filter_map del: upt_Suc split: option.split)
qed (simp add: map_filter_def)


lemma project_attrs_select:
  assumes "trie_rel (ProjNode t as is) ps" "bt_wf m"
    and IH: "\<And>k v n. bt_get m k = Some v \<Longrightarrow> trie_rel n (sub_paths (R_Attr k) ps) \<Longrightarrow>
      project_value v n = select (sub_paths (R_Attr k) ps) v"
  shows "project_attrs m as [] = select_map ps m"
proof (rule btm.ext)
  have as: "distinct (map fst as)" using assms(1) by (simp add: trie_rel_def bt_wf_distinct)
  show "bt_get (project_attrs m as []) = bt_get (select_map ps m)"
  proof
    fix k
    show "bt_get (project_attrs m as []) k = bt_get (select_map ps m) k"
      using trie_rel_attr [OF assms(1), of k] IH [of k]
      by (cases "bt_get as k"; cases "bt_get m k")
        (auto simp: project_attrs_get [OF as] select_map_get [OF assms(2)] select_nothing split: option.split)
  qed
qed (use assms(2) in \<open>simp_all add: project_attrs_wf select_map_wf\<close>)

lemma project_indices_select:
  assumes "trie_rel (ProjNode t as is) ps"
    and IH: "\<And>i n. i < length l \<Longrightarrow> trie_rel n (sub_paths (R_Index i) ps) \<Longrightarrow>
      project_value (l ! i) n = select (sub_paths (R_Index i) ps) (l ! i)"
  shows "project_indices l is [] = select_list ps 0 l"
proof -
  have w: "bt_wf is" using assms(1) by (simp add: trie_rel_def)
  have step: "Option.bind (bt_get is i) (\<lambda>c. project_value (l ! i) c) = select (sub_paths (R_Index i) ps) (l ! i)"
    if "i < length l" for i
    using trie_rel_index [OF assms(1), of i] IH [OF that] by (cases "bt_get is i") (auto simp: select_nothing)
  have "project_indices l is [] = List.map_filter (\<lambda>i. project_value (l ! i) (the (bt_get is i)))
      (filter (\<lambda>i. bt_get is i \<noteq> None) [0..<length l])"
    unfolding project_indices_filter sorted_keys_upt [OF w] by (simp add: map_filter_def comp_def filter_map)
  also have "\<dots> = List.map_filter (\<lambda>i. Option.bind (bt_get is i) (\<lambda>c. project_value (l ! i) c)) [0..<length l]"
    unfolding map_filter_def filter_filter
    by (intro arg_cong2 [where f = map] filter_cong map_cong) (auto split: option.split simp: bind_eq_None_conv)
  also have "\<dots> = select_list ps 0 l"
    unfolding select_list_filter map_filter_def
    by (intro map_cong filter_cong) (auto simp: step)
  finally show ?thesis .
qed

lemma trie_kind:
  assumes "trie_rel (ProjNode t as is) ps" "conflict_free ps" "as \<noteq> []"
  shows "is = []"
proof (rule ccontr)
  assume "is \<noteq> []"
  then obtain i n where i: "bt_get is i = Some n" by (metis bt_get_Cons neq_Nil_conv surj_pair)
  from assms(3) obtain k m where k: "bt_get as k = Some m" by (metis bt_get_Cons neq_Nil_conv surj_pair)
  obtain p q where "trie_has m p" "trie_has n q"
    using assms(1) trie_wf_child(1) [OF _ k] trie_wf_child(2) [OF _ i] unfolding trie_rel_def by blast
  then have "R_Attr k # p \<in> set ps" "R_Index i # q \<in> set ps" using trie_rel_Cons [OF assms(1)] i k by simp_all
  with assms(2) show False by (force simp: conflict_free_def)
qed

lemma size_bt_get: "bt_get m k = Some v \<Longrightarrow> size v < size (AV_M m)"
proof -
  assume "bt_get m k = Some v"
  then have "(k, v) \<in> set m" by (rule bt_get_SomeD)
  from size_list_estimation' [OF this, of "size v" "size_prod (\<lambda>_. 0) size"] show ?thesis by simp
qed

lemma project_select:
  "trie_rel n ps \<Longrightarrow> conflict_free ps \<Longrightarrow> av_wf v \<Longrightarrow> project_value v n = select ps v"
proof (induction "size v" arbitrary: v n ps rule: less_induct)
  case less
  obtain t as "is" where n: "n = ProjNode t as is" by (cases n)
  note rel = less.prems(1) [unfolded n]
  have t: "t \<longleftrightarrow> [] \<in> set ps" using rel trie_has.simps(1) [of t as "is"] unfolding trie_rel_def by blast
  note cf = conflict_free_sub [OF less.prems(2)]
  show ?case
  proof (cases v)
    case (AV_M m)
    have "project_attrs m as [] = select_map ps m"
      by (rule project_attrs_select [OF rel])
        (use less.prems(3) AV_M size_bt_get less.hyps cf item_wf_get item_wf_bt in auto)
    then show ?thesis using AV_M n t by (cases "as = []") (simp_all add: project_value.simps select.simps unless_empty_def Let_def)
  next
    case (AV_L l)
    have "size (l ! i) < size v" "av_wf (l ! i)" if "i < length l" for i
      using that AV_L less.prems(3) size_list_estimation' [of "l ! i" l "size (l ! i)" size] by simp_all
    then have "project_indices l is [] = select_list ps 0 l"
      by (intro project_indices_select [OF rel]) (use less.hyps cf in auto)
    then show ?thesis using AV_L n t trie_kind [OF rel less.prems(2)]
      by (auto simp: project_value.simps select.simps unless_empty_def Let_def)
  qed (use n t in \<open>simp_all add: project_value.simps select.simps\<close>)
qed

subsection \<open>Properties\<close>

text \<open>
  C27: a compiled projection returns exactly the parts of the item that its paths select, with list elements in
  the order of the list and attributes in which nothing is selected left out, unless two of the paths
  conflict.
\<close>

theorem projection_is_selection:
  assumes "compile_projection paths maps reject_overlap = Inr root" "resolve_paths paths maps = Inr ps"
    and "conflict_free ps" "item_wf item"
  shows "apply_projection root item = select_map ps item"
proof -
  have root: "trie_rel root ps" using assms(1,2) trie_rel_build by (auto simp: compile_projection_def)
  obtain t as "is" where n: "root = ProjNode t as is" by (cases root)
  have "project_attrs item as [] = select_map ps item"
    by (rule project_attrs_select [OF root [unfolded n] item_wf_bt [OF assms(4)]])
      (use item_wf_get [OF assms(4)] project_select conflict_free_sub [OF assms(3)] in blast)
  then show ?thesis by (simp add: apply_projection_def n)
qed

theorem projection_is_selection_witness:
  "\<exists>root. compile_projection [[P_Attribute ''l'', P_Index 2], [P_Attribute ''l'', P_Index 0], [P_Attribute ''q'']]
     (maps_new int_bd [] []) True = Inr root \<and>
   apply_projection root [(''l'', AV_L [AV_Bool True, AV_Null, AV_Bool False]), (''m'', AV_Null)] =
     [(''l'', AV_L [AV_Bool True, AV_Bool False])]"
proof -
  let ?paths = "[[P_Attribute ''l'', P_Index 2], [P_Attribute ''l'', P_Index 0], [P_Attribute ''q'']]"
  let ?item = "[(''l'', AV_L [AV_Bool True, AV_Null, AV_Bool False]), (''m'', AV_Null)]"
  let ?ps = "[[R_Attr ''l'', R_Index 2], [R_Attr ''l'', R_Index 0], [R_Attr ''q'']]"
  have c: "compile_projection ?paths (maps_new int_bd [] []) True =
      Inr (ProjNode False [(''l'', ProjNode False [] [(0, ProjNode True [] []), (2, ProjNode True [] [])]),
        (''q'', ProjNode True [] [])] [])" by code_simp
  have r: "resolve_paths ?paths (maps_new int_bd [] []) = Inr ?ps" by code_simp
  have h: "conflict_free ?ps" "item_wf ?item" "select_map ?ps ?item = [(''l'', AV_L [AV_Bool True, AV_Bool False])]"
    by code_simp+
  from projection_is_selection [OF c r h(1,2)] c h(3) show ?thesis by simp
qed

text \<open>
  A projection with conflicting paths is accepted, and a path into a list is then ignored: \<open>a.b, a[0]\<close>
  returns nothing of an item whose \<open>a\<close> is a list.
\<close>

theorem conflicting_projection_drops_element:
  "\<exists>root. compile_projection [[P_Attribute ''a'', P_Attribute ''b''], [P_Attribute ''a'', P_Index 0]] maps True = Inr root \<and>
     apply_projection root [(''a'', AV_L [v])] = [] \<and>
     resolve_path [P_Attribute ''a'', P_Index 0] [(''a'', AV_L [v])] maps = Inr (Some v)"
  by (simp add: compile_projection_def resolve_name_ref_def strip_prefix_def is_prefix_def build_trie_def or_default_def
      apply_projection_def project_value.simps resolve_path_def)

end
