(* ===== verification/Evaluator.thy ===== *)
theory Evaluator
  imports Resolver Parser_Print
begin

text \<open>
  \<open>crates/core/src/expression/evaluator.rs\<close>: evaluation of a condition against an item.  An \<open>&&\<close> or \<open>||\<close>
  whose left side decides does not evaluate the right side, so an error there is not raised.
\<close>

subsection \<open>Comparing values\<close>

fun apply_op :: "Ordering \<Rightarrow> CompareOp \<Rightarrow> bool" where
  "apply_op ord Op_Eq \<longleftrightarrow> ord = Equal"
| "apply_op ord Op_Ne \<longleftrightarrow> ord \<noteq> Equal"
| "apply_op ord Op_Lt \<longleftrightarrow> ord = Less"
| "apply_op ord Op_Le \<longleftrightarrow> ord \<noteq> Greater"
| "apply_op ord Op_Gt \<longleftrightarrow> ord = Greater"
| "apply_op ord Op_Ge \<longleftrightarrow> ord \<noteq> Less"

definition parsed_or :: "'d bd_ops \<Rightarrow> string \<Rightarrow> 'd option \<Rightarrow> 'd option" where
  "parsed_or B n parsed = (case parsed of Some d \<Rightarrow> Some d | None \<Rightarrow> bd_parse B n)"

definition compare_other :: "AttributeValue \<Rightarrow> AttributeValue \<Rightarrow> CompareOp \<Rightarrow> bool" where
  "compare_other l r op =
     (if l = r then op \<in> {Op_Eq, Op_Le, Op_Ge} else op = Op_Ne)"

definition compare_values :: "'d bd_ops \<Rightarrow> AttributeValue \<Rightarrow> AttributeValue \<Rightarrow> CompareOp \<Rightarrow> 'd option \<Rightarrow> 'd option \<Rightarrow> bool" where
  "compare_values B left right op left_parsed right_parsed =
     (case left of
        AV_S l \<Rightarrow> (case right of AV_S r \<Rightarrow> apply_op (cmp_ord l r) op | _ \<Rightarrow> compare_other left right op)
      | AV_N l \<Rightarrow>
         (case right of
            AV_N r \<Rightarrow>
             (case parsed_or B l left_parsed of
                None \<Rightarrow> False
              | Some ld \<Rightarrow>
                 (case parsed_or B r right_parsed of
                    None \<Rightarrow> False
                  | Some rd \<Rightarrow> apply_op (bd_cmp B ld rd) op))
          | _ \<Rightarrow> compare_other left right op)
      | AV_B l \<Rightarrow> (case right of AV_B r \<Rightarrow> apply_op (cmp_ord l r) op | _ \<Rightarrow> compare_other left right op)
      | _ \<Rightarrow> compare_other left right op)"

text \<open>\<open>bytes.windows(n)\<close>\<close>

definition windows :: "'a list \<Rightarrow> nat \<Rightarrow> 'a list list" where
  "windows xs n = map (\<lambda>i. take n (drop i xs)) [0..<length xs + 1 - n]"

fun contains_check :: "AttributeValue \<Rightarrow> AttributeValue \<Rightarrow> bool" where
  "contains_check (AV_S s) operand = (case operand of AV_S sub \<Rightarrow> contains_sub s sub | _ \<Rightarrow> False)"
| "contains_check (AV_B bytes) operand =
     (case operand of
        AV_B sub \<Rightarrow> sub = [] \<or> (length sub \<le> length bytes \<and> (\<exists>w \<in> set (windows bytes (length sub)). w = sub))
      | _ \<Rightarrow> False)"
| "contains_check (AV_SS s) operand = (case operand of AV_S val \<Rightarrow> bs_contains s val | _ \<Rightarrow> False)"
| "contains_check (AV_NS s) operand = (case operand of AV_N val \<Rightarrow> bs_contains s val | _ \<Rightarrow> False)"
| "contains_check (AV_BS s) operand = (case operand of AV_B val \<Rightarrow> bs_contains s val | _ \<Rightarrow> False)"
| "contains_check (AV_L l) operand = (operand \<in> set l)"
| "contains_check _ operand = False"

fun format_attribute_value :: "AttributeValue \<Rightarrow> string" where
  "format_attribute_value (AV_S s) = ''S:'' @ s"
| "format_attribute_value (AV_N n) = ''N:'' @ n"
| "format_attribute_value (AV_B _) = ''B:<binary>''"
| "format_attribute_value v = attribute_type_code v @ '':<value>''"

subsection \<open>Operands\<close>

fun size_of_value :: "AttributeValue \<Rightarrow> nat option" where
  "size_of_value (AV_S s) = Some (encode_utf16_count s)"
| "size_of_value (AV_B b) = Some (length b)"
| "size_of_value (AV_L l) = Some (length l)"
| "size_of_value (AV_M m) = Some (length m)"
| "size_of_value (AV_SS s) = Some (length s)"
| "size_of_value (AV_NS s) = Some (length s)"
| "size_of_value (AV_BS s) = Some (length s)"
| "size_of_value (AV_N _) = None"
| "size_of_value (AV_Bool _) = None"
| "size_of_value AV_Null = None"

function resolve_to_value :: "Expr \<Rightarrow> Item \<Rightarrow> 'd ExpressionMaps \<Rightarrow> AttributeValue option ddb_result"
  and evaluate_size :: "Expr list \<Rightarrow> Item \<Rightarrow> 'd ExpressionMaps \<Rightarrow> AttributeValue option ddb_result" where
  "resolve_to_value e item maps =
     (case e of
        E_Path elements \<Rightarrow> resolve_path elements item maps
      | E_Placeholder name \<Rightarrow> bind_r (resolve_value maps name) (\<lambda>v. Inr (Some v))
      | E_Function name args \<Rightarrow>
          if name = ''size'' then evaluate_size args item maps
          else Inl (cond_err ''expected path or value'')
      | _ \<Rightarrow> Inl (cond_err ''expected path or value''))"
| "evaluate_size args item maps =
     (case args of
        [a] \<Rightarrow>
          bind_r (resolve_to_value a item maps) (\<lambda>val.
            case val of
              None \<Rightarrow> Inr None
            | Some v \<Rightarrow>
               (case size_of_value v of
                  None \<Rightarrow> Inr None
                | Some sz \<Rightarrow> Inr (Some (AV_N (show_nat sz)))))
      | _ \<Rightarrow> Inl (cond_err ''size requires exactly one argument''))"
  by pat_completeness auto
termination
  by (relation "measure (\<lambda>x. case x of Inl (e, _) \<Rightarrow> size e | Inr (es, _) \<Rightarrow> size_list size es)") auto

declare resolve_to_value.simps [simp del] evaluate_size.simps [simp del]

fun placeholder_numeric :: "Expr \<Rightarrow> 'd ExpressionMaps \<Rightarrow> 'd option" where
  "placeholder_numeric (E_Placeholder name) maps = get_parsed_numeric maps name"
| "placeholder_numeric _ maps = None"

subsection \<open>Functions\<close>

definition contains_operand_str :: "Expr \<Rightarrow> 'd ExpressionMaps \<Rightarrow> string" where
  "contains_operand_str e maps =
     (case e of
        E_Path p \<Rightarrow>
          ''['' @ join (map (\<lambda>el. case el of
             P_Attribute a \<Rightarrow>
               (case strip_prefix a ''#'' of
                  Some ref_name \<Rightarrow> (case map_of (em_names maps) ref_name of Some n \<Rightarrow> n | None \<Rightarrow> a)
                | None \<Rightarrow> a)
           | P_Index i \<Rightarrow> ''['' @ show_nat i @ '']'') p) ''.'' @ '']''
      | _ \<Rightarrow> [])"

definition begins_with_type_err :: "AttributeValue \<Rightarrow> DynamoDbError" where
  "begins_with_type_err p =
     cond_err (''Incorrect operand type for operator or function; operator or function: begins_with, operand type: '' @
       attribute_type_code p)"

definition same_operand_err :: "string \<Rightarrow> DynamoDbError" where
  "same_operand_err operand_str =
     cond_err (''The first operand must be distinct from the remaining operands for this operator or function; operator: contains, first operand: '' @
       operand_str)"

definition fn_attribute_exists :: "Expr list \<Rightarrow> Item \<Rightarrow> 'd ExpressionMaps \<Rightarrow> bool ddb_result" where
  "fn_attribute_exists args item maps =
     (case args of
        [a] \<Rightarrow> bind_r (resolve_to_value a item maps) (\<lambda>val. Inr (val \<noteq> None))
         | _ \<Rightarrow> Inl (cond_err ''attribute_exists requires exactly one argument''))"

definition fn_attribute_not_exists :: "Expr list \<Rightarrow> Item \<Rightarrow> 'd ExpressionMaps \<Rightarrow> bool ddb_result" where
  "fn_attribute_not_exists args item maps =
     (case args of
        [a] \<Rightarrow> bind_r (resolve_to_value a item maps) (\<lambda>val. Inr (val = None))
         | _ \<Rightarrow> Inl (cond_err ''attribute_not_exists requires exactly one argument''))"

definition fn_attribute_type :: "Expr list \<Rightarrow> Item \<Rightarrow> 'd ExpressionMaps \<Rightarrow> bool ddb_result" where
  "fn_attribute_type args item maps =
     (case args of
        [a, b] \<Rightarrow>
          bind_r (resolve_to_value a item maps) (\<lambda>val.
          bind_r (resolve_to_value b item maps) (\<lambda>type_val.
            case val of
              None \<Rightarrow> Inr False
            | Some v \<Rightarrow>
               (case type_val of
                  Some (AV_S type_str) \<Rightarrow> Inr (attribute_type_code v = type_str)
                | _ \<Rightarrow> Inl (cond_err ''attribute_type second argument must be a string''))))
         | _ \<Rightarrow> Inl (cond_err ''attribute_type requires exactly two arguments''))"

definition fn_begins_with :: "Expr list \<Rightarrow> Item \<Rightarrow> 'd ExpressionMaps \<Rightarrow> bool ddb_result" where
  "fn_begins_with args item maps =
     (case args of
        [a, b] \<Rightarrow>
          bind_r (resolve_to_value a item maps) (\<lambda>val.
          bind_r (resolve_to_value b item maps) (\<lambda>prefix.
            case prefix of
              Some (AV_S p) \<Rightarrow> Inr (case val of Some (AV_S s) \<Rightarrow> starts_with s p | _ \<Rightarrow> False)
            | Some (AV_B p) \<Rightarrow> Inr (case val of Some (AV_B s) \<Rightarrow> starts_with s p | _ \<Rightarrow> False)
            | Some p \<Rightarrow> Inl (begins_with_type_err p)
            | None \<Rightarrow> Inr False))
         | _ \<Rightarrow> Inl (cond_err ''begins_with requires exactly two arguments''))"

definition fn_contains :: "Expr list \<Rightarrow> Item \<Rightarrow> 'd ExpressionMaps \<Rightarrow> bool ddb_result" where
  "fn_contains args item maps =
     (case args of
        [a, b] \<Rightarrow>
          if a = b
          then Inl (same_operand_err (contains_operand_str a maps))
          else
            bind_r (resolve_to_value a item maps) (\<lambda>val.
            bind_r (resolve_to_value b item maps) (\<lambda>operand.
              case val of
                Some v \<Rightarrow> (case operand of Some ov \<Rightarrow> Inr (contains_check v ov) | None \<Rightarrow> Inr False)
              | None \<Rightarrow> Inr False))
         | _ \<Rightarrow> Inl (cond_err ''contains requires exactly two arguments''))"

definition evaluate_function :: "string \<Rightarrow> Expr list \<Rightarrow> Item \<Rightarrow> 'd ExpressionMaps \<Rightarrow> bool ddb_result" where
  "evaluate_function name args item maps =
     (if name = ''attribute_exists'' then fn_attribute_exists args item maps
      else if name = ''attribute_not_exists'' then fn_attribute_not_exists args item maps
      else if name = ''attribute_type'' then fn_attribute_type args item maps
      else if name = ''begins_with'' then fn_begins_with args item maps
      else if name = ''contains'' then fn_contains args item maps
      else if name = ''size'' then Inl (cond_err ''size function must be used in a comparison'')
      else Inl (cond_err (''unknown function '' @ squote @ name @ squote)))"

subsection \<open>Conditions\<close>

fun is_placeholder :: "Expr \<Rightarrow> bool" where
  "is_placeholder (E_Placeholder _) = True"
| "is_placeholder _ = False"

definition between_bounds_err :: "string \<Rightarrow> AttributeValue \<Rightarrow> AttributeValue \<Rightarrow> DynamoDbError" where
  "between_bounds_err what l h =
     cond_err (''The BETWEEN operator requires '' @ what @ ''; lower bound operand: AttributeValue: {'' @
       format_attribute_value l @ ''}, upper bound operand: AttributeValue: {'' @ format_attribute_value h @ ''}'')"

definition check_between_bounds :: "'d bd_ops \<Rightarrow> Expr \<Rightarrow> Expr \<Rightarrow> AttributeValue option \<Rightarrow> AttributeValue option \<Rightarrow>
    'd ExpressionMaps \<Rightarrow> unit ddb_result" where
  "check_between_bounds B low high lo hi maps =
     (if is_placeholder low \<and> is_placeholder high then
        (case lo of
           None \<Rightarrow> Inr ()
         | Some l \<Rightarrow>
            (case hi of
               None \<Rightarrow> Inr ()
             | Some h \<Rightarrow>
                 if attribute_type_code l \<noteq> attribute_type_code h
                 then Inl (between_bounds_err ''same data type for lower and upper bounds'' l h)
                 else if compare_values B l h Op_Gt (placeholder_numeric low maps) (placeholder_numeric high maps)
                 then Inl (between_bounds_err ''upper bound to be greater than or equal to lower bound'' l h)
                 else Inr ()))
      else Inr ())"

fun in_loop :: "'d bd_ops \<Rightarrow> AttributeValue \<Rightarrow> 'd option \<Rightarrow> Expr list \<Rightarrow> Item \<Rightarrow> 'd ExpressionMaps \<Rightarrow> bool ddb_result" where
  "in_loop B v vpn [] item maps = Inr False"
| "in_loop B v vpn (candidate # cs) item maps =
     bind_r (resolve_to_value candidate item maps) (\<lambda>cv.
       case cv of
         Some c \<Rightarrow>
           if compare_values B v c Op_Eq vpn (placeholder_numeric candidate maps) then Inr True
           else in_loop B v vpn cs item maps
       | None \<Rightarrow> in_loop B v vpn cs item maps)"

fun evaluate_condition :: "'d bd_ops \<Rightarrow> Expr \<Rightarrow> Item \<Rightarrow> 'd ExpressionMaps \<Rightarrow> bool ddb_result" where
  "evaluate_condition B (E_Compare left op right) item maps =
     bind_r (resolve_to_value left item maps) (\<lambda>lv.
     bind_r (resolve_to_value right item maps) (\<lambda>rv.
       case (lv, rv) of
         (Some l, Some r) \<Rightarrow>
           Inr (compare_values B l r op (placeholder_numeric left maps) (placeholder_numeric right maps))
       | _ \<Rightarrow> Inr (op = Op_Ne)))"
| "evaluate_condition B (E_And left right) item maps =
     bind_r (evaluate_condition B left item maps) (\<lambda>b.
       if b then evaluate_condition B right item maps else Inr False)"
| "evaluate_condition B (E_Or left right) item maps =
     bind_r (evaluate_condition B left item maps) (\<lambda>b.
       if b then Inr True else evaluate_condition B right item maps)"
| "evaluate_condition B (E_Not inner) item maps =
     bind_r (evaluate_condition B inner item maps) (\<lambda>b. Inr (\<not> b))"
| "evaluate_condition B (E_Function name args) item maps = evaluate_function name args item maps"
| "evaluate_condition B (E_Between operand low high) item maps =
     bind_r (resolve_to_value operand item maps) (\<lambda>val.
     bind_r (resolve_to_value low item maps) (\<lambda>lo.
     bind_r (resolve_to_value high item maps) (\<lambda>hi.
     bind_r (check_between_bounds B low high lo hi maps) (\<lambda>_.
       case (val, lo, hi) of
         (Some v, Some l, Some h) \<Rightarrow>
           Inr (compare_values B v l Op_Ge (placeholder_numeric operand maps) (placeholder_numeric low maps) \<and>
                compare_values B v h Op_Le (placeholder_numeric operand maps) (placeholder_numeric high maps))
       | _ \<Rightarrow> Inr False))))"
| "evaluate_condition B (E_In operand es) item maps =
     bind_r (resolve_to_value operand item maps) (\<lambda>val.
       case val of
         None \<Rightarrow> Inr False
       | Some v \<Rightarrow> in_loop B v (placeholder_numeric operand maps) es item maps)"
| "evaluate_condition B _ item maps = Inl (cond_err ''unexpected expression type'')"

subsection \<open>Which errors an evaluation can raise\<close>

lemma cond_err_inject [simp]: "cond_err a = cond_err b \<longleftrightarrow> a = b"
  by (simp add: cond_err_def)

text \<open>The arms that no parsed condition is meant to reach.\<close>

definition internal_err :: "DynamoDbError \<Rightarrow> bool" where
  "internal_err err \<longleftrightarrow>
     err = cond_err ''unexpected expression type'' \<or>
     err = cond_err ''expected path or value'' \<or>
     err = cond_err ''size function must be used in a comparison'' \<or>
     (\<exists>name. err = cond_err (''unknown function '' @ squote @ name @ squote))"

text \<open>The errors of resolving an operand.\<close>

definition plain_err :: "DynamoDbError \<Rightarrow> bool" where
  "plain_err err \<longleftrightarrow> (\<exists>r. err = undefined_name_err r) \<or> (\<exists>r. err = undefined_value_err r) \<or>
     err = validation_err ''Invalid expression: path cannot start with an index'' \<or>
     err = cond_err ''size requires exactly one argument''"

lemma plain_errI [simp]:
  "plain_err (undefined_name_err r)" "plain_err (undefined_value_err r)"
  "plain_err (validation_err ''Invalid expression: path cannot start with an index'')"
  "plain_err (cond_err ''size requires exactly one argument'')"
  by (auto simp: plain_err_def)

lemma resolve_name_ref_err: "errs_in plain_err (resolve_name_ref n maps)"
  by (auto simp: resolve_name_ref_def resolve_name_def ok_or_def split: option.split)

lemma resolve_steps_err: "errs_in plain_err (resolve_steps els v maps)"
proof (induction els v maps rule: resolve_steps.induct)
  case (2 name els current maps)
  then show ?case by (auto simp: resolve_name_ref_err split: option.split AttributeValue.split)
next
  case (3 idx els current maps)
  then show ?case by (auto split: AttributeValue.split)
qed simp

lemma resolve_path_err: "errs_in plain_err (resolve_path els item maps)"
proof -
  have "errs_in plain_err (resolve_element_name e maps)" for e by (cases e) (simp_all add: resolve_name_ref_err)
  then show ?thesis by (auto simp: resolve_path_def resolve_steps_err split: list.split option.split)
qed

lemma args_cases:
  obtains "args = []" | a where "args = [a]" | a b where "args = [a, b]" | a b c d where "args = a # b # c # d"
  by (metis list.exhaust)

lemma resolve_operand_err: "operand_ok e \<Longrightarrow> errs_in plain_err (resolve_to_value e item maps)"
proof (induction e)
  case (E_Path els)
  then show ?case by (simp add: resolve_to_value.simps resolve_path_err)
next
  case (E_Placeholder n)
  then show ?case by (simp add: resolve_to_value.simps resolve_value_def ok_or_def split: option.split)
next
  case (E_Function n args)
  then show ?case
    by (cases args rule: args_cases) (auto simp: resolve_to_value.simps [of "E_Function _ _"] evaluate_size.simps split: option.split)
qed simp_all

lemma plain_err_not_internal: "plain_err err \<Longrightarrow> \<not> internal_err err"
  by (auto simp: plain_err_def internal_err_def cond_err_def undefined_name_err_def undefined_value_err_def)

abbreviation benign :: "bool ddb_result \<Rightarrow> bool" where
  "benign \<equiv> errs_in (\<lambda>err. \<not> internal_err err)"

lemma operand_benign: "operand_ok e \<Longrightarrow> errs_in (\<lambda>err. \<not> internal_err err) (resolve_to_value e item maps)"
  by (rule errs_in_mono [OF resolve_operand_err plain_err_not_internal])

lemma check_between_bounds_benign:
  "errs_in (\<lambda>err. \<not> internal_err err) (check_between_bounds B low high lo hi maps)"
  by (auto simp: check_between_bounds_def between_bounds_err_def internal_err_def split: option.split)

lemma in_loop_benign: "list_all operand_ok es \<Longrightarrow> benign (in_loop B v vpn es item maps)"
  by (induction es) (auto simp: operand_benign split: option.split)

lemma internal_err_literals:
  "\<not> internal_err (cond_err ''attribute_exists requires exactly one argument'')"
  "\<not> internal_err (cond_err ''attribute_not_exists requires exactly one argument'')"
  "\<not> internal_err (cond_err ''attribute_type requires exactly two arguments'')"
  "\<not> internal_err (cond_err ''attribute_type second argument must be a string'')"
  "\<not> internal_err (cond_err ''begins_with requires exactly two arguments'')"
  "\<not> internal_err (begins_with_type_err p)"
  "\<not> internal_err (cond_err ''contains requires exactly two arguments'')"
  "\<not> internal_err (same_operand_err t)"
  by (simp_all add: internal_err_def begins_with_type_err_def same_operand_err_def)

lemma fn_arms_benign:
  assumes "list_all operand_ok args"
  shows "benign (fn_attribute_exists args item maps)" "benign (fn_attribute_not_exists args item maps)"
    "benign (fn_attribute_type args item maps)" "benign (fn_begins_with args item maps)" "benign (fn_contains args item maps)"
  using assms
  by (cases args rule: args_cases;
      simp add: fn_attribute_exists_def fn_attribute_not_exists_def fn_attribute_type_def fn_begins_with_def
        fn_contains_def internal_err_literals operand_benign split: option.split AttributeValue.split)+

lemma evaluate_function_benign:
  "is_function_name name \<Longrightarrow> list_all operand_ok args \<Longrightarrow> benign (evaluate_function name args item maps)"
  unfolding is_function_name_def evaluate_function_def by (elim insertE) (simp_all add: fn_arms_benign)

lemma evaluate_condition_benign: "cond_ok e \<Longrightarrow> benign (evaluate_condition B e item maps)"
proof (induction e)
  case (E_Function n args)
  then show ?case by (simp add: evaluate_function_benign)
qed (auto simp: operand_benign check_between_bounds_benign in_loop_benign split: option.split)

lemma evaluate_condition_err:
  "evaluate_condition B e item maps = Inl err \<Longrightarrow> cond_ok e \<Longrightarrow> \<not> internal_err err"
  using errs_inD [OF evaluate_condition_benign] by blast

subsection \<open>The numeric cache is transparent\<close>

definition uncached :: "'d ExpressionMaps \<Rightarrow> 'd ExpressionMaps" where
  "uncached maps = maps\<lparr>em_parsed_numerics := Map.empty\<rparr>"

lemma uncached_fields [simp]:
  "em_names (uncached maps) = em_names maps" "em_values (uncached maps) = em_values maps"
  by (simp_all add: uncached_def)

lemma resolve_path_uncached [simp]: "resolve_path els item (uncached maps) = resolve_path els item maps"
  by (rule resolve_path_agree [where N = UNIV and V = "{}"]) (simp_all add: maps_agree_def uncached_def)

lemma resolve_uncached [simp]:
  "resolve_to_value e item (uncached maps) = resolve_to_value e item maps"
  "evaluate_size es item (uncached maps) = evaluate_size es item maps"
proof (induction e item maps and es item maps rule: resolve_to_value_evaluate_size.induct)
  case (1 e item maps)
  then show ?case
    by (subst (1 2) resolve_to_value.simps) (auto simp: resolve_value_def split: Expr.split)
next
  case (2 args item maps)
  then show ?case by (subst (1 2) evaluate_size.simps) (auto split: list.split)
qed

lemma placeholder_numeric_cached:
  assumes "cache_ok B maps" "resolve_to_value e item maps = Inr (Some (AV_N n))"
  shows "parsed_or B n (placeholder_numeric e maps) = bd_parse B n"
proof (cases e)
  case (E_Placeholder k)
  then have v: "map_of (em_values maps) k = Some (AV_N n)"
    using assms(2) by (auto simp: resolve_to_value.simps resolve_value_def)
  show ?thesis
  proof (cases "em_parsed_numerics maps k")
    case (Some d)
    with assms(1) v have "bd_parse B n = Some d" unfolding cache_ok_def by fastforce
    with Some E_Placeholder show ?thesis by (simp add: parsed_or_def get_parsed_numeric_def)
  qed (simp add: E_Placeholder parsed_or_def get_parsed_numeric_def)
qed (simp_all add: parsed_or_def)

lemma placeholder_numeric_uncached [simp]: "placeholder_numeric e (uncached maps) = None"
  by (cases e) (simp_all add: get_parsed_numeric_def uncached_def)

lemma compare_values_uncached:
  assumes "cache_ok B maps" "resolve_to_value e item maps = Inr (Some l)" "resolve_to_value e' item maps = Inr (Some r)"
  shows "compare_values B l r op (placeholder_numeric e maps) (placeholder_numeric e' maps) = compare_values B l r op None None"
proof (cases "\<exists>x y. l = AV_N x \<and> r = AV_N y")
  case True
  then obtain x y where n: "l = AV_N x" "r = AV_N y" by blast
  show ?thesis
    using placeholder_numeric_cached [OF assms(1), of e item x] placeholder_numeric_cached [OF assms(1), of e' item y] assms(2,3)
    by (simp add: compare_values_def n parsed_or_def [of _ _ None] cong: option.case_cong)
next
  case False
  then show ?thesis by (cases l; cases r; simp add: compare_values_def)
qed

lemma check_between_bounds_uncached:
  assumes "cache_ok B maps" "resolve_to_value e item maps = Inr lo" "resolve_to_value e' item maps = Inr hi"
  shows "check_between_bounds B e e' lo hi maps = check_between_bounds B e e' lo hi (uncached maps)"
  using compare_values_uncached [OF assms(1)] assms(2,3)
  by (auto simp: check_between_bounds_def split: option.split)

lemma in_loop_uncached:
  assumes "cache_ok B maps" "resolve_to_value e item maps = Inr (Some v)"
  shows "in_loop B v (placeholder_numeric e maps) es item maps = in_loop B v None es item (uncached maps)"
  using compare_values_uncached [OF assms]
  by (induction es) (auto intro!: bind_r_cong split: option.split)

lemma evaluate_function_uncached:
  "evaluate_function name args item (uncached maps) = evaluate_function name args item maps"
proof -
  have c: "contains_operand_str e (uncached maps) = contains_operand_str e maps" for e
    unfolding contains_operand_str_def uncached_fields by (rule refl)
  show ?thesis
    unfolding evaluate_function_def fn_attribute_exists_def fn_attribute_not_exists_def fn_attribute_type_def
      fn_begins_with_def fn_contains_def resolve_uncached c by (rule refl)
qed

lemma evaluate_condition_uncached:
  "cache_ok B maps \<Longrightarrow> evaluate_condition B e item maps = evaluate_condition B e item (uncached maps)"
proof (induction e)
  case (E_Compare l op r)
  then show ?case by (auto intro!: bind_r_cong simp: compare_values_uncached split: option.split)
next
  case (E_Function n args)
  then show ?case by (simp add: evaluate_function_uncached)
next
  case (E_Between x lo hi)
  then show ?case
    by (auto intro!: bind_r_cong simp: compare_values_uncached check_between_bounds_uncached split: option.split)
next
  case (E_In x es)
  then show ?case by (auto intro!: bind_r_cong simp: in_loop_uncached split: option.split)
qed (auto intro!: bind_r_cong)

subsection \<open>Evaluation depends only on what the expression refers to\<close>

lemma resolve_to_value_agree:
  "maps_agree (name_refs e) (value_refs e) m m' \<Longrightarrow> resolve_to_value e item m = resolve_to_value e item m'"
proof (induction e)
  case (E_Path els)
  then show ?case by (simp add: resolve_to_value.simps resolve_path_agree)
next
  case (E_Placeholder n)
  then show ?case by (simp add: resolve_to_value.simps resolve_value_def maps_agree_def)
next
  case (E_Function n args)
  show ?case
  proof (cases args rule: args_cases)
    case (2 a)
    with E_Function have "resolve_to_value a item m = resolve_to_value a item m'" by simp
    with 2 show ?thesis by (simp add: resolve_to_value.simps evaluate_size.simps)
  qed (simp_all add: resolve_to_value.simps evaluate_size.simps)
qed (simp_all add: resolve_to_value.simps)

lemma placeholder_numeric_agree:
  "maps_agree (name_refs e) (value_refs e) m m' \<Longrightarrow> placeholder_numeric e m = placeholder_numeric e m'"
  by (cases e) (simp_all add: get_parsed_numeric_def maps_agree_def)

lemmas operand_agree = resolve_to_value_agree placeholder_numeric_agree

lemma maps_agree_UN:
  "maps_agree (\<Union>a \<in> set es. N a) (\<Union>a \<in> set es. V a) m m' \<Longrightarrow> a \<in> set es \<Longrightarrow> maps_agree (N a) (V a) m m'"
  by (auto simp: maps_agree_def)

lemma in_loop_agree:
  "(\<And>a. a \<in> set es \<Longrightarrow> maps_agree (name_refs a) (value_refs a) m m') \<Longrightarrow> in_loop B v vpn es item m = in_loop B v vpn es item m'"
proof (induction es)
  case (Cons a es)
  then have "maps_agree (name_refs a) (value_refs a) m m'" by simp
  with Cons show ?case using operand_agree [of a m m'] by (auto intro!: bind_r_cong split: option.split)
qed simp

lemma contains_operand_str_agree:
  assumes "maps_agree (name_refs e) (value_refs e) m m'"
  shows "contains_operand_str e m = contains_operand_str e m'"
proof (cases e)
  case (E_Path els)
  have "strip_prefix a ''#'' = Some r \<Longrightarrow> P_Attribute a \<in> set els \<Longrightarrow> map_of (em_names m) r = map_of (em_names m') r" for a r
    using assms E_Path by (auto simp: maps_agree_def path_refs_def strip_prefix_Some_iff)
  then show ?thesis
    using E_Path by (auto simp: contains_operand_str_def intro!: arg_cong [where f = "\<lambda>x. join x _"] split: PathElement.split option.split)
qed (simp_all add: contains_operand_str_def)

lemma evaluate_function_agree:
  assumes "\<And>a. a \<in> set args \<Longrightarrow> maps_agree (name_refs a) (value_refs a) m m'"
  shows "evaluate_function name args item m = evaluate_function name args item m'"
proof -
  have op: "a \<in> set args \<Longrightarrow> resolve_to_value a item m = resolve_to_value a item m'"
    "a \<in> set args \<Longrightarrow> contains_operand_str a m = contains_operand_str a m'" for a
    using assms resolve_to_value_agree contains_operand_str_agree by blast+
  show ?thesis
    by (cases args rule: args_cases)
      (simp_all add: op evaluate_function_def fn_attribute_exists_def fn_attribute_not_exists_def fn_attribute_type_def
        fn_begins_with_def fn_contains_def)
qed

lemma check_between_bounds_agree:
  assumes "maps_agree (name_refs l) (value_refs l) m m'" "maps_agree (name_refs h) (value_refs h) m m'"
  shows "check_between_bounds B l h lo hi m = check_between_bounds B l h lo hi m'"
  unfolding check_between_bounds_def placeholder_numeric_agree [OF assms(1)] placeholder_numeric_agree [OF assms(2)]
  by (rule refl)

lemma evaluate_condition_agree:
  "maps_agree (name_refs e) (value_refs e) m m' \<Longrightarrow> evaluate_condition B e item m = evaluate_condition B e item m'"
proof (induction e)
  case (E_Compare l op r)
  then have l: "maps_agree (name_refs l) (value_refs l) m m'" and r: "maps_agree (name_refs r) (value_refs r) m m'"
    by simp_all
  show ?case unfolding evaluate_condition.simps operand_agree [OF l] operand_agree [OF r] by (rule refl)
next
  case (E_Function n args)
  then show ?case using maps_agree_UN [of name_refs args value_refs m m'] by (simp add: evaluate_function_agree)
next
  case (E_Between x lo hi)
  then have x: "maps_agree (name_refs x) (value_refs x) m m'" and lo: "maps_agree (name_refs lo) (value_refs lo) m m'"
    and hi: "maps_agree (name_refs hi) (value_refs hi) m m'" by simp_all
  show ?case
    unfolding evaluate_condition.simps operand_agree [OF x] operand_agree [OF lo] operand_agree [OF hi]
      check_between_bounds_agree [OF lo hi] by (rule refl)
next
  case (E_In x es)
  then have x: "maps_agree (name_refs x) (value_refs x) m m'"
    and es: "maps_agree (\<Union>a \<in> set es. name_refs a) (\<Union>a \<in> set es. value_refs a) m m'" by simp_all
  have l: "in_loop B v vpn es item m = in_loop B v vpn es item m'" for v vpn
    by (rule in_loop_agree) (rule maps_agree_UN [OF es])
  show ?case unfolding evaluate_condition.simps operand_agree [OF x] l by (rule refl)
qed (auto intro!: bind_r_cong)

end
