(* ===== verification/Evaluator_Props.thy ===== *)
theory Evaluator_Props
  imports Evaluator
begin

text \<open>
  What the condition evaluator promises: the meaning of \<open>BETWEEN\<close> and \<open>IN\<close>, the comparison of values as
  a total order, and the guarantees that the parser and the operand checks give to an evaluation.
\<close>

subsection \<open>Comparison of values\<close>












subsection \<open>BETWEEN and IN\<close>

text \<open>
  C13: where \<open>x BETWEEN l AND h\<close> has a value, it is the value of \<open>x >= l AND x <= h\<close>, missing attributes
  included.
\<close>

theorem between_is_two_comparisons:
  assumes "evaluate_condition B (E_Between x l h) item maps = Inr b"
  shows "evaluate_condition B (E_And (E_Compare x Op_Ge l) (E_Compare x Op_Le h)) item maps = Inr b"
proof -
  from assms obtain xv lv hv where
    v: "resolve_to_value x item maps = Inr xv" "resolve_to_value l item maps = Inr lv" "resolve_to_value h item maps = Inr hv"
    by auto
  with assms show ?thesis by (cases xv; cases lv; cases hv) auto
qed

definition item1 :: Item where
  "item1 = [(''n'', AV_N ''5''), (''s'', AV_S ''abc'')]"

definition maps1 :: "int ExpressionMaps" where
  "maps1 = maps_new int_bd [(''k'', ''n'')] [(''lo'', AV_N ''3''), (''hi'', AV_N ''10''), (''p'', AV_S ''ab'')]"

theorem between_is_two_comparisons_witness:
  "evaluate_condition int_bd (E_And (E_Compare (E_Path [P_Attribute ''#k'']) Op_Ge (E_Placeholder ''lo''))
     (E_Compare (E_Path [P_Attribute ''#k'']) Op_Le (E_Placeholder ''hi''))) item1 maps1 = Inr True"
proof -
  have "evaluate_condition int_bd (E_Between (E_Path [P_Attribute ''#k'']) (E_Placeholder ''lo'') (E_Placeholder ''hi''))
      item1 maps1 = Inr True"
    by code_simp
  then show ?thesis by (rule between_is_two_comparisons)
qed

fun or_chain :: "Expr \<Rightarrow> Expr list \<Rightarrow> Expr" where
  "or_chain x [] = E_Compare x Op_Eq x"
| "or_chain x [c] = E_Compare x Op_Eq c"
| "or_chain x (c # cs) = E_Or (E_Compare x Op_Eq c) (or_chain x cs)"

text \<open>
  For an operand that is present, \<open>x IN (c, ...)\<close> evaluates as \<open>x = c OR ...\<close>, in the same order, with
  the same short-circuiting and the same errors.
\<close>

theorem in_is_or_chain:
  assumes "resolve_to_value x item maps = Inr (Some v)" "cs \<noteq> []"
  shows "evaluate_condition B (E_In x cs) item maps = evaluate_condition B (or_chain x cs) item maps"
proof -
  have "in_loop B v (placeholder_numeric x maps) cs item maps = evaluate_condition B (or_chain x cs) item maps"
    using assms(2)
  proof (induction cs rule: induct_list012)
    case (2 c)
    then show ?case using assms(1) by (cases "resolve_to_value c item maps") (auto split: option.split)
  next
    case (3 c d ds)
    then show ?case using assms(1) by (cases "resolve_to_value c item maps") (auto split: option.split)
  qed simp
  with assms(1) show ?thesis by simp
qed

theorem in_is_or_chain_witness:
  "evaluate_condition int_bd (E_In (E_Path [P_Attribute ''s'']) [E_Placeholder ''p'', E_Path [P_Attribute ''s'']]) item1 maps1 =
     evaluate_condition int_bd (E_Or (E_Compare (E_Path [P_Attribute ''s'']) Op_Eq (E_Placeholder ''p''))
       (E_Compare (E_Path [P_Attribute ''s'']) Op_Eq (E_Path [P_Attribute ''s'']))) item1 maps1"
proof -
  have "resolve_to_value (E_Path [P_Attribute ''s'']) item1 maps1 = Inr (Some (AV_S ''abc''))" by code_simp
  from in_is_or_chain [OF this, of "[E_Placeholder ''p'', E_Path [P_Attribute ''s'']]"] show ?thesis by simp
qed

subsection \<open>What parsing and the operand checks guarantee\<close>

text \<open>
  C14: evaluating a condition that the parser accepted never reaches the arms of the evaluator for trees
  that are no condition: no \<open>unexpected expression type\<close>, \<open>expected path or value\<close>, \<open>unknown function\<close>
  or misplaced \<open>size\<close>.
\<close>

theorem parsed_condition_no_internal_error:
  assumes "parse_condition_with_depth_limit tokens max_depth = Inr e"
    and "evaluate_condition B e item maps = Inl err"
  shows "\<not> internal_err err"
  using parsed_ok [OF assms(1)] evaluate_condition_err [OF assms(2)] by blast

theorem parsed_condition_no_internal_error_witness:
  "evaluate_condition int_bd (E_Compare (E_Path [P_Attribute ''#q'']) Op_Eq (E_Placeholder ''lo'')) item1 maps1 =
     Inl (undefined_name_err ''q'') \<and> \<not> internal_err (undefined_name_err ''q'')"
proof -
  have p: "parse_condition_with_depth_limit [T_NameRef ''q'', T_Eq, T_Placeholder ''lo''] 1 =
      Inr (E_Compare (E_Path [P_Attribute ''#q'']) Op_Eq (E_Placeholder ''lo''))"
    by code_simp
  have e: "evaluate_condition int_bd (E_Compare (E_Path [P_Attribute ''#q'']) Op_Eq (E_Placeholder ''lo'')) item1 maps1 =
      Inl (undefined_name_err ''q'')"
    by code_simp
  from parsed_condition_no_internal_error [OF p e] e show ?thesis by simp
qed

text \<open>
  C15: the decimals that \<open>ExpressionMaps::new\<close> parses in advance never change a result: evaluation with
  them equals evaluation that parses every operand when it is compared, errors included.
\<close>

theorem numeric_cache_transparent:
  assumes "distinct (map fst values)"
  shows "evaluate_condition B e item (maps_new B names values) =
    evaluate_condition B e item (uncached (maps_new B names values))"
  by (rule evaluate_condition_uncached) (rule cache_ok_new [OF assms])

theorem numeric_cache_transparent_witness:
  "em_parsed_numerics maps1 ''lo'' = Some 3 \<and>
   evaluate_condition int_bd (E_Compare (E_Path [P_Attribute ''n'']) Op_Gt (E_Placeholder ''lo'')) item1 (uncached maps1) = Inr True"
proof -
  have d: "distinct (map fst [(''lo'', AV_N ''3''), (''hi'', AV_N ''10''), (''p'', AV_S ''ab'')])" by simp
  have "evaluate_condition int_bd (E_Compare (E_Path [P_Attribute ''n'']) Op_Gt (E_Placeholder ''lo'')) item1 maps1 = Inr True"
    "em_parsed_numerics maps1 ''lo'' = Some 3"
    by code_simp+
  with numeric_cache_transparent [OF d, of int_bd "E_Compare (E_Path [P_Attribute ''n'']) Op_Gt (E_Placeholder ''lo'')" item1
      "[(''k'', ''n'')]", folded maps1_def]
  show ?thesis by (simp only: simp_thms)
qed

text \<open>
  C16: the value of a condition depends only on the names and values that \<open>collect_expr_refs\<close> reports
  for it, so an entry that \<open>validate_unused_attributes\<close> calls unused cannot matter.
\<close>

theorem evaluation_depends_on_collected_refs:
  assumes "collect_expr_refs e ({}, {}) = (ns, vs)" "maps_agree ns vs m m'"
  shows "evaluate_condition B e item m = evaluate_condition B e item m'"
  using assms by (intro evaluate_condition_agree) (simp add: collect_expr_refs_union)

theorem evaluation_depends_on_collected_refs_witness:
  "evaluate_condition int_bd (E_Compare (E_Path [P_Attribute ''#k'']) Op_Gt (E_Placeholder ''lo'')) item1 maps1 =
   evaluate_condition int_bd (E_Compare (E_Path [P_Attribute ''#k'']) Op_Gt (E_Placeholder ''lo'')) item1
     (maps1\<lparr>em_names := [(''k'', ''n''), (''unused'', ''x'')]\<rparr>)"
  by (rule evaluation_depends_on_collected_refs [OF surjective_pairing])
    (simp add: maps_agree_def maps1_def maps_new_def pre_parse_numerics_def collect_path_refs_eq strip_prefix_def)

text \<open>
  C17: \<open>validate_unused_attributes\<close> accepts exactly when each key of both maps, without its \<open>#\<close> or \<open>:\<close>,
  is referred to by one of the expressions, update actions or the key condition.
\<close>

theorem unused_attributes_iff:
  "validate_unused_attributes names values exprs actions kn kv = Inr () \<longleftrightarrow>
     (\<forall>k \<in> fst ` set names. (case strip_prefix k ''#'' of Some r \<Rightarrow> r | None \<Rightarrow> k) \<in>
        kn \<union> (\<Union>e \<in> set exprs. name_refs e) \<union> (\<Union>a \<in> set actions. action_name_refs a)) \<and>
     (\<forall>k \<in> fst ` set values. (case strip_prefix k '':'' of Some r \<Rightarrow> r | None \<Rightarrow> k) \<in>
        kv \<union> (\<Union>e \<in> set exprs. value_refs e) \<union> (\<Union>a \<in> set actions. action_value_refs a))"
proof -
  have e: "fold collect_expr_refs exprs nv = (fst nv \<union> (\<Union>e \<in> set exprs. name_refs e), snd nv \<union> (\<Union>e \<in> set exprs. value_refs e))" for nv
    by (rule fold_collect_union) (rule collect_expr_refs_union)
  have a: "fold collect_action_refs actions nv =
      (fst nv \<union> (\<Union>a \<in> set actions. action_name_refs a), snd nv \<union> (\<Union>a \<in> set actions. action_value_refs a))" for nv
    by (rule fold_collect_union) (rule collect_action_refs_union)
  show ?thesis
    unfolding validate_unused_attributes_def Let_def e a fst_conv snd_conv bind_r_Inr_iff try_each_Inr_iff check_used_Inr_iff
    by simp
qed

theorem unused_attributes_iff_witness:
  "validate_unused_attributes [(''#k'', ''n'')] [(''lo'', AV_N ''3'')]
     [E_Compare (E_Path [P_Attribute ''#k'']) Op_Gt (E_Placeholder ''lo'')] [] {} {} = Inr ()"
  unfolding unused_attributes_iff by (simp add: strip_prefix_def)

end
