(* ===== verification/Key_Condition.thy ===== *)
theory Key_Condition
  imports Parser_Print Evaluator_Props "HOL-Library.Multiset"
begin

text \<open>
  \<open>crates/core/src/expression/key_condition.rs\<close>: key condition expressions are parsed into clauses, the clauses
  into a partition key equality and a sort key condition, and these are assigned to the attributes of a key
  schema.  Of \<open>resolver.rs\<close>, the references of a key condition.
\<close>

subsection \<open>Data\<close>

datatype SortKeyCondition =
    SK_Compare "PathElement list" CompareOp Expr
  | SK_Between "PathElement list" Expr Expr
  | SK_BeginsWith "PathElement list" Expr

fun sk_path :: "SortKeyCondition \<Rightarrow> PathElement list" where
  "sk_path (SK_Compare path _ _) = path"
| "sk_path (SK_Between path _ _) = path"
| "sk_path (SK_BeginsWith path _) = path"

record KeyCondition =
  pk_path :: "PathElement list"
  pk_value :: Expr
  extra_pk_conditions :: "(PathElement list \<times> Expr) list"
  sk_condition :: "SortKeyCondition option"
  extra_sk_conditions :: "(PathElement list \<times> Expr) list"

datatype RawClause =
    RC_Eq "PathElement list" Expr
  | RC_Compare "PathElement list" CompareOp Expr
  | RC_Between "PathElement list" Expr Expr
  | RC_BeginsWith "PathElement list" Expr

datatype KeyOperand = KO_Path "PathElement list" | KO_Value Expr

record KeyClauseOperand =
  kco_path :: "PathElement list"
  kco_value :: Expr
  kco_equality :: bool

definition kc_err :: "string \<Rightarrow> DynamoDbError" where
  "kc_err msg = validation_err (''Invalid KeyConditionExpression: '' @ msg)"

subsection \<open>Clauses\<close>

definition parse_key_value :: "Token list \<Rightarrow> (Expr \<times> Token list) ddb_result" where
  "parse_key_value rest =
     (case rest of
        [] \<Rightarrow> Inl (kc_err ''expected value'')
      | t # r \<Rightarrow>
         (case t of
            T_Placeholder name \<Rightarrow> Inr (E_Placeholder name, r)
          | _ \<Rightarrow> Inl (kc_err ''key condition values must be expression attribute value placeholders'')))"

definition parse_key_operand_path :: "Token list \<Rightarrow> (PathElement list \<times> Token list) ddb_result" where
  "parse_key_operand_path rest =
     (case rest of
        [] \<Rightarrow> Inl (kc_err ''expected attribute path'')
      | t # r \<Rightarrow>
         (case t of
            T_Ident _ \<Rightarrow> parse_path rest
          | T_NameRef _ \<Rightarrow> parse_path rest
          | _ \<Rightarrow> Inl (kc_err ''expected attribute path'')))"

definition parse_key_operand :: "Token list \<Rightarrow> (KeyOperand \<times> Token list) ddb_result" where
  "parse_key_operand rest =
     (case rest of
        [] \<Rightarrow> Inl (kc_err ''unexpected end of expression'')
      | t # r \<Rightarrow>
         (case t of
            T_Ident _ \<Rightarrow> bind_r (parse_path rest) (\<lambda>(path, r). Inr (KO_Path path, r))
          | T_NameRef _ \<Rightarrow> bind_r (parse_path rest) (\<lambda>(path, r). Inr (KO_Path path, r))
          | T_Placeholder _ \<Rightarrow> bind_r (parse_key_value rest) (\<lambda>(v, r). Inr (KO_Value v, r))
          | _ \<Rightarrow> Inl (kc_err ''expected attribute path or value placeholder'')))"

fun reverse_comparator :: "CompareOp \<Rightarrow> CompareOp" where
  "reverse_comparator Op_Eq = Op_Eq"
| "reverse_comparator Op_Ne = Op_Ne"
| "reverse_comparator Op_Lt = Op_Gt"
| "reverse_comparator Op_Le = Op_Ge"
| "reverse_comparator Op_Gt = Op_Lt"
| "reverse_comparator Op_Ge = Op_Le"

definition compare_clause :: "PathElement list \<Rightarrow> CompareOp \<Rightarrow> Expr \<Rightarrow> RawClause" where
  "compare_clause path op v = (if op = Op_Eq then RC_Eq path v else RC_Compare path op v)"

text \<open>The operator of a comparison: \<open><>\<close> is refused.\<close>

definition key_comparator :: "Token \<Rightarrow> CompareOp ddb_result" where
  "key_comparator t =
     bind_r (ok_or (try_comparator t) (kc_err ''expected comparison operator'')) (\<lambda>op.
       if op = Op_Ne then Inl (kc_err ''Unsupported operator on KeyCondition: NE'') else Inr op)"

definition parse_key_clause_inner :: "Token list \<Rightarrow> (RawClause \<times> Token list) ddb_result" where
  "parse_key_clause_inner rest =
     (case rest of
        [] \<Rightarrow> Inl (kc_err ''unexpected end of expression'')
      | t # r \<Rightarrow>
          if (case ident_tok t of Some name \<Rightarrow> eq_ignore_ascii_case name ''begins_with'' | None \<Rightarrow> False)
            \<and> r \<noteq> [] \<and> hd r = T_LParen
          then
            bind_r (expect_token r T_LParen ''('' ''KeyConditionExpression'') (\<lambda>r1.
            bind_r (parse_key_operand_path r1) (\<lambda>(path, r2).
            bind_r (expect_token r2 T_Comma '','' ''KeyConditionExpression'') (\<lambda>r3.
            bind_r (parse_key_value r3) (\<lambda>(prefix, r4).
            bind_r (expect_token r4 T_RParen '')'' ''KeyConditionExpression'') (\<lambda>r5.
            Inr (RC_BeginsWith path prefix, r5))))))
          else
            bind_r (parse_key_operand rest) (\<lambda>(left, r1).
              case r1 of
                [] \<Rightarrow> Inl (kc_err ''expected operator after operand'')
              | t1 # r2 \<Rightarrow>
                 (case left of
                    KO_Value v \<Rightarrow>
                      bind_r (key_comparator t1) (\<lambda>op.
                      bind_r (parse_key_operand_path r2) (\<lambda>(path, r3).
                      Inr (compare_clause path (reverse_comparator op) v, r3)))
                  | KO_Path path \<Rightarrow>
                      if t1 = T_Between then
                        bind_r (parse_key_value r2) (\<lambda>(low, r3).
                        bind_r (expect_token r3 T_And ''AND'' ''KeyConditionExpression'') (\<lambda>r4.
                        bind_r (parse_key_value r4) (\<lambda>(high, r5).
                        Inr (RC_Between path low high, r5))))
                      else
                        bind_r (key_comparator t1) (\<lambda>op.
                        bind_r (parse_key_value r2) (\<lambda>(v, r3).
                        Inr (compare_clause path op v, r3))))))"

definition parse_key_clause :: "Token list \<Rightarrow> (RawClause \<times> Token list) ddb_result" where
  "parse_key_clause rest =
     (case rest of
        [] \<Rightarrow> Inl (kc_err ''unexpected end of expression'')
      | t # r \<Rightarrow>
          if t = T_LParen then
            bind_r (parse_key_clause_inner r) (\<lambda>(clause, r1).
              if r1 \<noteq> [] \<and> hd r1 = T_RParen then Inr (clause, tl r1)
              else Inl (kc_err (''expected '' @ squote @ '')'' @ squote)))
          else parse_key_clause_inner rest)"

fun raw_clause_path :: "RawClause \<Rightarrow> PathElement list" where
  "raw_clause_path (RC_Eq path _) = path"
| "raw_clause_path (RC_Compare path _ _) = path"
| "raw_clause_path (RC_Between path _ _) = path"
| "raw_clause_path (RC_BeginsWith path _) = path"

definition reject_nested_key_path :: "PathElement list \<Rightarrow> unit ddb_result" where
  "reject_nested_key_path path =
     (case path of
        [P_Attribute _] \<Rightarrow> Inr ()
      | _ \<Rightarrow> Inl (kc_err ''KeyConditionExpressions cannot have conditions on nested attributes''))"

text \<open>The loop of \<open>outer_parens_match\<close> over the tokens from position \<open>i\<close> on, \<open>n\<close> of them in all.\<close>

fun outer_parens_loop :: "nat \<Rightarrow> nat \<Rightarrow> int \<Rightarrow> Token list \<Rightarrow> bool" where
  "outer_parens_loop n i depth [] \<longleftrightarrow> depth = 0"
| "outer_parens_loop n i depth (t # ts) \<longleftrightarrow>
     (if t = T_LParen then outer_parens_loop n (Suc i) (depth + 1) ts
      else if t = T_RParen then \<not> (depth - 1 = 0 \<and> i < n - 1) \<and> outer_parens_loop n (Suc i) (depth - 1) ts
      else outer_parens_loop n (Suc i) depth ts)"

definition outer_parens_match :: "Token list \<Rightarrow> bool" where
  "outer_parens_match tokens \<longleftrightarrow> outer_parens_loop (length tokens) 0 0 tokens"

lemma parse_key_value_progress: "parse_key_value r = Inr (x, r') \<Longrightarrow> length r' < length r"
  by (auto simp: parse_key_value_def split: list.split_asm Token.split_asm)

lemma parse_key_operand_path_progress: "parse_key_operand_path r = Inr (x, r') \<Longrightarrow> length r' < length r"
  by (auto simp: parse_key_operand_path_def split: list.split_asm Token.split_asm dest: parse_path_progress)

lemma parse_key_operand_progress: "parse_key_operand r = Inr (x, r') \<Longrightarrow> length r' < length r"
  by (auto simp: parse_key_operand_def split: list.split_asm Token.split_asm dest: parse_path_progress parse_key_value_progress)

lemma parse_key_clause_inner_progress: "parse_key_clause_inner r = Inr (x, r') \<Longrightarrow> length r' < length r"
  by (auto simp: parse_key_clause_inner_def split: list.split_asm if_split_asm KeyOperand.split_asm
      dest!: parse_key_value_progress parse_key_operand_path_progress parse_key_operand_progress)

lemma parse_key_clause_progress: "parse_key_clause r = Inr (x, r') \<Longrightarrow> length r' < length r"
  by (auto simp: parse_key_clause_def neq_Nil_conv split: list.split_asm if_split_asm dest!: parse_key_clause_inner_progress)

function key_clause_loop :: "RawClause list \<Rightarrow> Token list \<Rightarrow> RawClause list ddb_result" where
  "key_clause_loop clauses [] = Inr clauses"
| "key_clause_loop clauses (t # r) =
     (if t \<noteq> T_And then Inl (kc_err ''only AND is supported between key conditions'')
      else bind_r (parse_key_clause r) (\<lambda>(clause, r'). key_clause_loop (clauses @ [clause]) r'))"
  by pat_completeness auto
termination
  by (relation "measure (\<lambda>(_, r). length r)") (auto dest: parse_key_clause_progress)

definition strip_outer_parens :: "Token list \<Rightarrow> Token list" where
  "strip_outer_parens tokens =
     (if length tokens \<ge> 2 \<and> hd tokens = T_LParen \<and> last tokens = T_RParen \<and> outer_parens_match tokens
      then butlast (tl tokens) else tokens)"

text \<open>The loop leaves no token, so that the test for a token after the clauses never fails.\<close>

definition parse_clauses :: "Token list \<Rightarrow> RawClause list ddb_result" where
  "parse_clauses tokens =
     bind_r (map_err kc_err (check_redundant_parens tokens)) (\<lambda>_.
     bind_r (parse_key_clause (strip_outer_parens tokens)) (\<lambda>(clause, r).
     bind_r (key_clause_loop [clause] r) (\<lambda>clauses.
     bind_r (try_fold (\<lambda>_ c. reject_nested_key_path (raw_clause_path c)) () clauses) (\<lambda>_.
     Inr clauses))))"

definition clause_operand :: "RawClause \<Rightarrow> KeyClauseOperand option" where
  "clause_operand clause =
     (case clause of
        RC_Eq path v \<Rightarrow> Some \<lparr>kco_path = path, kco_value = v, kco_equality = True\<rparr>
      | RC_Compare path _ v \<Rightarrow> Some \<lparr>kco_path = path, kco_value = v, kco_equality = False\<rparr>
      | RC_BeginsWith path v \<Rightarrow> Some \<lparr>kco_path = path, kco_value = v, kco_equality = False\<rparr>
      | RC_Between _ _ _ \<Rightarrow> None)"

definition key_condition_clause_operands :: "Token list \<Rightarrow> KeyClauseOperand list ddb_result" where
  "key_condition_clause_operands tokens =
     bind_r (parse_clauses tokens) (\<lambda>clauses. Inr (List.map_filter clause_operand clauses))"

subsection \<open>Classification\<close>

fun raw_to_sk :: "RawClause \<Rightarrow> SortKeyCondition" where
  "raw_to_sk (RC_Eq path v) = SK_Compare path Op_Eq v"
| "raw_to_sk (RC_Compare path op v) = SK_Compare path op v"
| "raw_to_sk (RC_Between path low high) = SK_Between path low high"
| "raw_to_sk (RC_BeginsWith path prefix) = SK_BeginsWith path prefix"

definition classify_single :: "RawClause \<Rightarrow> KeyCondition ddb_result" where
  "classify_single clause =
     (case clause of
        RC_Eq path v \<Rightarrow>
          Inr \<lparr>pk_path = path, pk_value = v, extra_pk_conditions = [], sk_condition = None, extra_sk_conditions = []\<rparr>
      | _ \<Rightarrow> Inl (kc_err ''partition key condition must use equality (=)''))"

definition pair_condition :: "PathElement list \<Rightarrow> Expr \<Rightarrow> RawClause \<Rightarrow> KeyCondition" where
  "pair_condition path v sk =
     \<lparr>pk_path = path, pk_value = v, extra_pk_conditions = [], sk_condition = Some (raw_to_sk sk), extra_sk_conditions = []\<rparr>"

definition classify_pair :: "RawClause \<Rightarrow> RawClause \<Rightarrow> KeyCondition ddb_result" where
  "classify_pair a b =
     (case a of
        RC_Eq path v \<Rightarrow> Inr (pair_condition path v b)
      | _ \<Rightarrow>
         (case b of
            RC_Eq path v \<Rightarrow> Inr (pair_condition path v a)
          | _ \<Rightarrow> Inl (kc_err ''one condition must be an equality on the partition key'')))"

text \<open>The loop of \<open>classify_multi\<close>: the equalities in order, and the other clause.\<close>

fun split_clauses :: "(PathElement list \<times> Expr) list \<Rightarrow> SortKeyCondition option \<Rightarrow> RawClause list \<Rightarrow>
    ((PathElement list \<times> Expr) list \<times> SortKeyCondition option) ddb_result" where
  "split_clauses eqs non_eq [] = Inr (eqs, non_eq)"
| "split_clauses eqs non_eq (RC_Eq path v # cs) = split_clauses (eqs @ [(path, v)]) non_eq cs"
| "split_clauses eqs non_eq (c # cs) =
     (if non_eq \<noteq> None then Inl (kc_err ''at most one non-equality condition is allowed'')
      else split_clauses eqs (Some (raw_to_sk c)) cs)"

definition classify_multi :: "RawClause list \<Rightarrow> KeyCondition ddb_result" where
  "classify_multi clauses =
     bind_r (split_clauses [] None clauses) (\<lambda>(eq_clauses, non_eq).
       case eq_clauses of
         [] \<Rightarrow> Inl (kc_err ''at least one equality condition on a partition key attribute is required'')
       | (path, v) # rest \<Rightarrow>
          (let (extra, sk) =
             (case non_eq of
                Some sk \<Rightarrow> (rest, Some sk)
              | None \<Rightarrow> if rest = [] then (rest, None)
                  else (butlast rest, Some (SK_Compare (fst (last rest)) Op_Eq (snd (last rest)))))
           in Inr \<lparr>pk_path = path, pk_value = v, extra_pk_conditions = extra, sk_condition = sk, extra_sk_conditions = []\<rparr>))"

definition parse_key_condition :: "Token list \<Rightarrow> KeyCondition ddb_result" where
  "parse_key_condition tokens =
     bind_r (parse_clauses tokens) (\<lambda>clauses.
       case clauses of
         [a] \<Rightarrow> classify_single a
       | [a, b] \<Rightarrow> classify_pair a b
       | _ \<Rightarrow> classify_multi clauses)"

subsection \<open>Single attribute key schemas\<close>

definition undefined_key_name_err :: "string \<Rightarrow> DynamoDbError" where
  "undefined_key_name_err ref_name =
     kc_err (''An expression attribute name used in the document path is not defined; attribute name: #'' @ ref_name)"

definition lookup_key_name :: "string \<Rightarrow> (string \<times> string) list \<Rightarrow> string ddb_result" where
  "lookup_key_name name names =
     (case strip_prefix name ''#'' of
        Some ref_name \<Rightarrow> ok_or (map_of names ref_name) (undefined_key_name_err ref_name)
      | None \<Rightarrow> Inr name)"

definition resolve_path_attr :: "PathElement list \<Rightarrow> (string \<times> string) list \<Rightarrow> string ddb_result" where
  "resolve_path_attr path names =
     (case path of
        P_Attribute name # _ \<Rightarrow> lookup_key_name name names
      | _ \<Rightarrow> Inl (validation_err ''Invalid key condition path''))"

definition resolve_pk_sk :: "KeyCondition \<Rightarrow> string \<Rightarrow> (string \<times> string) list \<Rightarrow> KeyCondition ddb_result" where
  "resolve_pk_sk kc pk_attr names =
     (case sk_condition kc of
        Some (SK_Compare path op v) \<Rightarrow>
          if op \<noteq> Op_Eq then Inr kc
          else
            (case pk_path kc of
               P_Attribute name # _ \<Rightarrow>
                 bind_r (lookup_key_name name names) (\<lambda>pk_name.
                   if pk_name = pk_attr then Inr kc
                   else Inr (kc\<lparr>pk_path := path, pk_value := v,
                               sk_condition := Some (SK_Compare (pk_path kc) Op_Eq (pk_value kc))\<rparr>))
             | _ \<Rightarrow> Inr kc)
      | _ \<Rightarrow> Inr kc)"

subsection \<open>Multi-attribute key schemas\<close>

type_synonym eq_clause = "PathElement list \<times> Expr"
type_synonym pos_clause = "nat \<times> PathElement list \<times> Expr"

text \<open>\<open>Iterator::position\<close>.\<close>

fun position :: "'a list \<Rightarrow> 'a \<Rightarrow> nat option" where
  "position [] x = None"
| "position (y # ys) x = (if y = x then Some 0 else map_option Suc (position ys x))"

fun adjacent_dup :: "pos_clause list \<Rightarrow> bool" where
  "adjacent_dup (a # b # cs) \<longleftrightarrow> fst a = fst b \<or> adjacent_dup (b # cs)"
| "adjacent_dup _ \<longleftrightarrow> False"

definition has_pos :: "pos_clause list \<Rightarrow> nat \<Rightarrow> bool" where
  "has_pos cs p \<longleftrightarrow> list_ex (\<lambda>c. fst c = p) cs"

text \<open>The equalities, and the clause that is none, wherever the parser put them.\<close>

definition gather_clauses :: "KeyCondition \<Rightarrow> eq_clause list \<times> SortKeyCondition option" where
  "gather_clauses kc =
     (let eqs = (pk_path kc, pk_value kc) # extra_pk_conditions kc @ extra_sk_conditions kc in
      case sk_condition kc of
        None \<Rightarrow> (eqs, None)
      | Some sk \<Rightarrow>
         (case sk of
            SK_Compare path op v \<Rightarrow> if op = Op_Eq then (eqs @ [(path, v)], None) else (eqs, Some sk)
          | _ \<Rightarrow> (eqs, Some sk)))"

fun assign_clauses :: "string list \<Rightarrow> string list \<Rightarrow> (string \<times> string) list \<Rightarrow> eq_clause list \<Rightarrow>
    (pos_clause list \<times> pos_clause list \<times> eq_clause list) ddb_result" where
  "assign_clauses hash_attrs range_attrs names [] = Inr ([], [], [])"
| "assign_clauses hash_attrs range_attrs names ((path, v) # cs) =
     bind_r (resolve_path_attr path names) (\<lambda>attr_name.
     bind_r (assign_clauses hash_attrs range_attrs names cs) (\<lambda>(hs, rs, os).
       case position hash_attrs attr_name of
         Some p \<Rightarrow> Inr ((p, path, v) # hs, rs, os)
       | None \<Rightarrow>
          (case position range_attrs attr_name of
             Some p \<Rightarrow> Inr (hs, (p, path, v) # rs, os)
           | None \<Rightarrow> Inr (hs, rs, (path, v) # os))))"

text \<open>The attributes at the positions without an equality.\<close>

definition without_eq :: "string list \<Rightarrow> pos_clause list \<Rightarrow> string list" where
  "without_eq attrs eqs = map snd (filter (\<lambda>(pos, _). \<not> has_pos eqs pos) (enumerate 0 attrs))"

definition max_pos :: "nat list \<Rightarrow> nat option" where
  "max_pos ps = (if ps = [] then None else Some (Max (set ps)))"

definition duplicated :: "pos_clause list \<Rightarrow> pos_clause list \<Rightarrow> nat option \<Rightarrow> nat option \<Rightarrow> bool" where
  "duplicated hash_eqs range_eqs non_eq_pos non_eq_hash_pos \<longleftrightarrow>
     adjacent_dup hash_eqs \<or> adjacent_dup range_eqs \<or>
     (case non_eq_pos of Some p \<Rightarrow> has_pos range_eqs p | None \<Rightarrow> False) \<or>
     (case non_eq_hash_pos of Some p \<Rightarrow> has_pos hash_eqs p | None \<Rightarrow> False)"

definition one_condition_err :: DynamoDbError where
  "one_condition_err = kc_err ''KeyConditionExpressions must only contain one condition per key''"

definition condition_count_err :: "nat \<Rightarrow> nat \<Rightarrow> DynamoDbError" where
  "condition_count_err n m =
     validation_err (''The number of query conditions ('' @ show_nat n @ '') exceeds the number of key '' @
       ''attributes defined in the schema ('' @ show_nat m @ '')'')"

definition missing_hash_err :: "string list \<Rightarrow> DynamoDbError" where
  "missing_hash_err attrs =
     validation_err (''HASH key attributes '' @ join attrs '', '' @ '' must have equality conditions specified in the query'')"

definition range_gap_err :: "string list \<Rightarrow> string \<Rightarrow> DynamoDbError" where
  "range_gap_err attrs last_attr =
     validation_err (''RANGE key attributes '' @ join attrs '', '' @ '' must have equality conditions specified in the '' @
       ''query because a condition is present on key attribute '' @ last_attr)"

definition missed_element_err :: "string \<Rightarrow> DynamoDbError" where
  "missed_element_err attr = validation_err (''Query condition missed key schema element: '' @ attr)"

definition check_structure :: "string list \<Rightarrow> string list \<Rightarrow> pos_clause list \<Rightarrow> pos_clause list \<Rightarrow> eq_clause list \<Rightarrow>
    SortKeyCondition option \<Rightarrow> nat option \<Rightarrow> nat option \<Rightarrow> unit ddb_result" where
  "check_structure hash_attrs range_attrs hash_eqs range_eqs other_eqs non_eq non_eq_pos non_eq_hash_pos =
     (if duplicated hash_eqs range_eqs non_eq_pos non_eq_hash_pos then Inl one_condition_err
      else
        let condition_count = length hash_eqs + length range_eqs + length other_eqs + (if non_eq \<noteq> None then 1 else 0);
            key_attribute_count = length hash_attrs + length range_attrs
        in if condition_count > key_attribute_count then Inl (condition_count_err condition_count key_attribute_count)
        else if without_eq hash_attrs hash_eqs \<noteq> [] then Inl (missing_hash_err (without_eq hash_attrs hash_eqs))
        else
          (case max_pos (map fst range_eqs @ (case non_eq_pos of Some p \<Rightarrow> [p] | None \<Rightarrow> [])) of
             None \<Rightarrow> Inr ()
           | Some last_pos \<Rightarrow>
               if without_eq (take last_pos range_attrs) range_eqs \<noteq> []
               then Inl (range_gap_err (without_eq (take last_pos range_attrs) range_eqs) (range_attrs ! last_pos))
               else Inr ()))"

definition check_sk_values :: "(PathElement list \<Rightarrow> Expr \<Rightarrow> unit ddb_result) \<Rightarrow> SortKeyCondition option \<Rightarrow> unit ddb_result" where
  "check_sk_values value_check sk =
     (case sk of
        Some (SK_Compare path _ v) \<Rightarrow> value_check path v
      | Some (SK_Between path low high) \<Rightarrow> bind_r (value_check path low) (\<lambda>_. value_check path high)
      | Some (SK_BeginsWith path prefix) \<Rightarrow> value_check path prefix
      | None \<Rightarrow> Inr ())"

definition check_eq_values :: "(PathElement list \<Rightarrow> Expr \<Rightarrow> unit ddb_result) \<Rightarrow> eq_clause list \<Rightarrow> unit ddb_result" where
  "check_eq_values value_check cs = try_fold (\<lambda>_ (path, v). value_check path v) () cs"

text \<open>
  A condition on an attribute outside the key schema.  When every \<open>RANGE\<close> attribute has a condition the first
  \<open>HASH\<close> attribute is named; \<open>hash_attrs\<close> is not empty in a key schema.
\<close>

definition check_non_key :: "string list \<Rightarrow> string list \<Rightarrow> pos_clause list \<Rightarrow> eq_clause list \<Rightarrow> SortKeyCondition option \<Rightarrow>
    nat option \<Rightarrow> nat option \<Rightarrow> unit ddb_result" where
  "check_non_key hash_attrs range_attrs range_eqs other_eqs non_eq non_eq_pos non_eq_hash_pos =
     (if other_eqs \<noteq> [] \<or> (non_eq \<noteq> None \<and> non_eq_pos = None \<and> non_eq_hash_pos = None)
      then Inl (missed_element_err
        (case find (\<lambda>(pos, _). \<not> has_pos range_eqs pos \<and> non_eq_pos \<noteq> Some pos) (enumerate 0 range_attrs) of
           Some (_, attr) \<Rightarrow> attr
         | None \<Rightarrow> hd hash_attrs))
      else Inr ())"

definition assemble :: "KeyCondition \<Rightarrow> eq_clause list \<Rightarrow> eq_clause list \<Rightarrow> SortKeyCondition option \<Rightarrow> KeyCondition" where
  "assemble kc hash_eqs range_eqs non_eq =
     (let kc1 = (case hash_eqs of
                   [] \<Rightarrow> kc\<lparr>extra_pk_conditions := []\<rparr>
                 | (path, v) # hs \<Rightarrow> kc\<lparr>pk_path := path, pk_value := v, extra_pk_conditions := hs\<rparr>)
      in case non_eq of
           Some cond \<Rightarrow> kc1\<lparr>sk_condition := Some cond, extra_sk_conditions := range_eqs\<rparr>
         | None \<Rightarrow>
            (case range_eqs of
               [] \<Rightarrow> kc1\<lparr>sk_condition := None, extra_sk_conditions := []\<rparr>
             | (path, v) # rs \<Rightarrow> kc1\<lparr>sk_condition := Some (SK_Compare path Op_Eq v), extra_sk_conditions := rs\<rparr>))"

definition resolve_multipart_with :: "KeyCondition \<Rightarrow> string list \<Rightarrow> string list \<Rightarrow> (string \<times> string) list \<Rightarrow>
    (PathElement list \<Rightarrow> Expr \<Rightarrow> unit ddb_result) \<Rightarrow> KeyCondition ddb_result" where
  "resolve_multipart_with kc hash_attrs range_attrs names value_check =
     (if length hash_attrs \<le> 1 \<and> length range_attrs \<le> 1 then Inr kc
      else
        let (all_eq, non_eq) = gather_clauses kc in
        bind_r (assign_clauses hash_attrs range_attrs names all_eq) (\<lambda>(hs, rs, other_eqs).
        bind_r (case non_eq of
                  Some cond \<Rightarrow> bind_r (resolve_path_attr (sk_path cond) names) (\<lambda>a. Inr (Some a))
                | None \<Rightarrow> Inr None) (\<lambda>non_eq_attr.
        let non_eq_pos = Option.bind non_eq_attr (position range_attrs);
            non_eq_hash_pos = Option.bind non_eq_attr (position hash_attrs);
            hash_eqs = sort_key fst hs;
            range_eqs = sort_key fst rs
        in
        bind_r (check_structure hash_attrs range_attrs hash_eqs range_eqs other_eqs non_eq non_eq_pos non_eq_hash_pos) (\<lambda>_.
        bind_r (check_eq_values value_check (map snd hash_eqs @ map snd range_eqs @ other_eqs)) (\<lambda>_.
        bind_r (check_sk_values value_check non_eq) (\<lambda>_.
        bind_r (check_non_key hash_attrs range_attrs range_eqs other_eqs non_eq non_eq_pos non_eq_hash_pos) (\<lambda>_.
        Inr (assemble kc (map snd hash_eqs) (map snd range_eqs) non_eq))))))))"

definition resolve_multipart :: "KeyCondition \<Rightarrow> string list \<Rightarrow> string list \<Rightarrow> (string \<times> string) list \<Rightarrow>
    KeyCondition ddb_result" where
  "resolve_multipart kc hash_attrs range_attrs names =
     resolve_multipart_with kc hash_attrs range_attrs names (\<lambda>_ _. Inr ())"

definition for_each_clause :: "KeyCondition \<Rightarrow> (PathElement list \<Rightarrow> Expr \<Rightarrow> unit ddb_result) \<Rightarrow> unit ddb_result" where
  "for_each_clause kc f =
     bind_r (f (pk_path kc) (pk_value kc)) (\<lambda>_.
     bind_r (check_eq_values f (extra_pk_conditions kc)) (\<lambda>_.
     bind_r (check_eq_values f (extra_sk_conditions kc)) (\<lambda>_.
     check_sk_values f (sk_condition kc))))"

definition resolve_key_schema_with :: "KeyCondition \<Rightarrow> KeySchemaElement list \<Rightarrow> (string \<times> string) list \<Rightarrow>
    (PathElement list \<Rightarrow> Expr \<Rightarrow> unit ddb_result) \<Rightarrow> KeyCondition ddb_result" where
  "resolve_key_schema_with kc key_schema names value_check =
     (if is_multipart_key_schema key_schema then
        resolve_multipart_with kc (map ks_attribute_name (hash_key_elements key_schema))
          (map ks_attribute_name (range_key_elements key_schema)) names value_check
      else
        bind_r (for_each_clause kc value_check) (\<lambda>_.
          case find (\<lambda>ks. ks_key_type ks = Hash) key_schema of
            Some hash \<Rightarrow> resolve_pk_sk kc (ks_attribute_name hash) names
          | None \<Rightarrow> Inr kc))"

definition resolve_key_schema :: "KeyCondition \<Rightarrow> KeySchemaElement list \<Rightarrow> (string \<times> string) list \<Rightarrow>
    KeyCondition ddb_result" where
  "resolve_key_schema kc key_schema names = resolve_key_schema_with kc key_schema names (\<lambda>_ _. Inr ())"

subsection \<open>References\<close>

definition collect_clause_refs :: "eq_clause list \<Rightarrow> string set \<times> string set \<Rightarrow> string set \<times> string set" where
  "collect_clause_refs cs nv =
     fold (\<lambda>(path, e) nv. collect_expr_refs e (collect_path_refs path (fst nv), snd nv)) cs nv"

definition collect_key_condition_refs :: "KeyCondition \<Rightarrow> string set \<times> string set" where
  "collect_key_condition_refs kc =
     (let nv = collect_clause_refs [(pk_path kc, pk_value kc)] ({}, {});
          nv1 = (case sk_condition kc of
                   None \<Rightarrow> nv
                 | Some (SK_Compare path _ v) \<Rightarrow> collect_clause_refs [(path, v)] nv
                 | Some (SK_Between path low high) \<Rightarrow> collect_expr_refs high (collect_clause_refs [(path, low)] nv)
                 | Some (SK_BeginsWith path prefix) \<Rightarrow> collect_clause_refs [(path, prefix)] nv)
      in collect_clause_refs (extra_sk_conditions kc) (collect_clause_refs (extra_pk_conditions kc) nv1))"

subsection \<open>Positions\<close>

lemma position_SomeD: "position xs x = Some p \<Longrightarrow> p < length xs \<and> xs ! p = x"
  by (induction xs arbitrary: p) (auto split: if_split_asm)

lemma has_pos_iff: "has_pos cs p \<longleftrightarrow> p \<in> fst ` set cs"
  by (auto simp: has_pos_def list_ex_iff image_iff)

lemma has_pos_sort [simp]: "has_pos (sort_key fst cs) = has_pos cs"
  by (auto simp: has_pos_iff fun_eq_iff)

lemma adjacent_dup_strict: "sorted (map fst cs) \<Longrightarrow> \<not> adjacent_dup cs \<longleftrightarrow> sorted_wrt (<) (map fst cs)"
proof (induction cs rule: adjacent_dup.induct)
  case (1 a b cs)
  then show ?case by (auto simp: order.strict_iff_order)
qed auto

lemma without_eq_Nil: "without_eq attrs eqs = [] \<longleftrightarrow> (\<forall>p < length attrs. has_pos eqs p)"
  by (auto simp: without_eq_def filter_empty_conv set_zip in_set_enumerate_eq)

text \<open>Positions without a gap and without a repetition are \<open>0, 1, \<dots>\<close>.\<close>

lemma strict_positions: "sorted_wrt (<) ps \<Longrightarrow> set ps = {..<n} \<Longrightarrow> ps = [0..<n]"
  by (rule sorted_distinct_set_unique) (simp_all add: strict_sorted_iff lessThan_atLeast0)

definition placed :: "string list \<Rightarrow> (string \<times> string) list \<Rightarrow> pos_clause list \<Rightarrow> bool" where
  "placed attrs names cs \<longleftrightarrow>
     (\<forall>(p, path, v) \<in> set cs. p < length attrs \<and> resolve_path_attr path names = Inr (attrs ! p))"

lemma placed_sort [simp]: "placed attrs names (sort_key fst cs) = placed attrs names cs"
  by (simp add: placed_def)

lemma placed_names:
  assumes "placed attrs names cs" "map fst cs = [0..<n]" "n \<le> length attrs"
  shows "map (\<lambda>c. resolve_path_attr (fst (snd c)) names) cs = map Inr (take n attrs)"
proof (rule nth_equalityI)
  have n: "length cs = n" using assms(2) by (metis length_map length_upt minus_nat.diff_0)
  then show "length (map (\<lambda>c. resolve_path_attr (fst (snd c)) names) cs) = length (map Inr (take n attrs))"
    using assms(3) by simp
  fix i assume "i < length (map (\<lambda>c. resolve_path_attr (fst (snd c)) names) cs)"
  then have i: "i < n" "i < length cs" using n by simp_all
  have "fst (cs ! i) = i" using assms(2) i by (metis nth_map nth_upt plus_nat.add_0)
  moreover have "cs ! i \<in> set cs" using i by simp
  ultimately have "resolve_path_attr (fst (snd (cs ! i))) names = Inr (attrs ! i)"
    using assms(1) unfolding placed_def by (cases "cs ! i") fastforce
  then show "map (\<lambda>c. resolve_path_attr (fst (snd c)) names) cs ! i = map Inr (take n attrs) ! i"
    using i assms(3) by simp
qed

lemma assign_clauses_placed:
  "assign_clauses H R names cs = Inr (hs, rs, os) \<Longrightarrow>
     placed H names hs \<and> placed R names rs \<and> mset cs = mset (map snd hs) + mset (map snd rs) + mset os"
proof (induction cs arbitrary: hs rs os)
  case (Cons c cs)
  obtain path v where c: "c = (path, v)" by (cases c)
  from Cons.prems c obtain a hs' rs' os' where x: "resolve_path_attr path names = Inr a"
    "assign_clauses H R names cs = Inr (hs', rs', os')"
    and y: "(case position H a of Some p \<Rightarrow> Inr ((p, path, v) # hs', rs', os')
       | None \<Rightarrow> (case position R a of Some p \<Rightarrow> Inr (hs', (p, path, v) # rs', os') | None \<Rightarrow> Inr (hs', rs', (path, v) # os')))
       = (Inr (hs, rs, os) :: (pos_clause list \<times> pos_clause list \<times> eq_clause list) ddb_result)"
    by auto
  from Cons.IH [OF x(2)] show ?case using x(1) y
    by (auto simp: c placed_def split: option.split_asm dest!: position_SomeD)
qed (simp add: placed_def)

lemma gather_non_eq: "gather_clauses kc = (eqs, Some sk) \<Longrightarrow> sk = SK_Compare path op v \<Longrightarrow> op \<noteq> Op_Eq"
  by (auto simp: gather_clauses_def Let_def split: option.split_asm SortKeyCondition.split_asm if_split_asm)

text \<open>What the structural checks establish.\<close>

lemma check_structure_ok:
  assumes ok: "check_structure H R (sort_key fst hs) (sort_key fst rs) os ne nep neh = Inr ()"
    and pl: "placed H names hs" "placed R names rs"
    and nep: "\<forall>p. nep = Some p \<longrightarrow> p < length R" and neh: "\<forall>p. neh = Some p \<longrightarrow> p < length H"
  shows "map fst (sort_key fst hs) = [0..<length H]"
    and "\<exists>n \<le> length R. map fst (sort_key fst rs) = [0..<n] \<and> (\<forall>p. nep = Some p \<longrightarrow> p = n)"
    and "neh = None"
proof -
  let ?hs = "sort_key fst hs" and ?rs = "sort_key fst rs"
  from ok have dup: "\<not> duplicated ?hs ?rs nep neh" and hash: "without_eq H ?hs = []"
    by (auto simp: check_structure_def Let_def split: if_split_asm)
  have strict: "sorted_wrt (<) (map fst ?hs)" "sorted_wrt (<) (map fst ?rs)"
    using dup adjacent_dup_strict [OF sorted_sort_key] by (auto simp: duplicated_def)
  have sub: "fst ` set hs \<subseteq> {..<length H}" "fst ` set rs \<subseteq> {..<length R}" using pl by (auto simp: placed_def)
  moreover have "{..<length H} \<subseteq> fst ` set hs" using hash unfolding without_eq_Nil by (auto simp: has_pos_iff)
  ultimately have setH: "set (map fst ?hs) = {..<length H}" by auto
  then show "map fst (sort_key fst hs) = [0..<length H]" by (rule strict_positions [OF strict(1)])
  let ?ps = "map fst ?rs @ (case nep of Some p \<Rightarrow> [p] | None \<Rightarrow> [])"
  have nep_new: "nep = Some p \<Longrightarrow> p \<notin> set (map fst ?rs)" for p
    using dup by (auto simp: duplicated_def has_pos_iff)
  show "\<exists>n \<le> length R. map fst (sort_key fst rs) = [0..<n] \<and> (\<forall>p. nep = Some p \<longrightarrow> p = n)"
  proof (cases "?ps = []")
    case True
    then show ?thesis by (intro exI [of _ 0]) (auto split: option.split_asm)
  next
    case False
    then have m: "max_pos ?ps = Some (Max (set ?ps))" by (simp add: max_pos_def)
    define last where "last = Max (set ?ps)"
    have mem: "last \<in> set ?ps" unfolding last_def using False by (intro Max_in finite_set) (metis set_empty)
    have le: "p \<in> set ?ps \<Longrightarrow> p \<le> last" for p unfolding last_def by (rule Max_ge [OF finite_set])
    have bound: "last < length R" using mem sub(2) nep by (auto split: option.split_asm)
    have "without_eq (take last R) ?rs = []"
      using ok dup hash m unfolding last_def by (auto simp: check_structure_def Let_def split: if_split_asm option.split_asm)
    then have below: "p < last \<Longrightarrow> p \<in> fst ` set rs" for p
      using bound unfolding without_eq_Nil by (auto simp: has_pos_iff)
    show ?thesis
    proof (cases "last \<in> fst ` set rs")
      case True
      have none: "nep = None"
      proof (rule ccontr)
        assume "nep \<noteq> None"
        then obtain p where p: "nep = Some p" by blast
        then have "p \<le> last" "p \<notin> fst ` set rs" using le [of p] nep_new [OF p] by auto
        then show False using below [of p] True by (cases "p = last") auto
      qed
      have "p \<in> fst ` set rs \<longleftrightarrow> p \<le> last" for p using below [of p] True le [of p] by (cases "p = last") auto
      then have "set (map fst ?rs) = {..<Suc last}" by (simp add: set_eq_iff less_Suc_eq_le)
      from strict_positions [OF strict(2) this] bound none show ?thesis by (intro exI [of _ "Suc last"]) simp
    next
      case False
      then have "nep = Some last" using mem by (auto split: option.split_asm)
      moreover have "p \<in> fst ` set rs \<longleftrightarrow> p < last" for p
        using below [of p] False le [of p] by (cases "p = last") (auto simp: order.strict_iff_order image_iff)
      then have "set (map fst ?rs) = {..<last}" by (simp add: set_eq_iff)
      ultimately show ?thesis using strict_positions [OF strict(2)] bound by (intro exI [of _ last]) simp
    qed
  qed
  have "neh = Some p \<Longrightarrow> p \<notin> set (map fst ?hs)" for p using dup by (auto simp: duplicated_def has_pos_iff)
  then show "neh = None" unfolding setH using neh by (cases neh) auto
qed

subsection \<open>Properties\<close>

text \<open>The paths of the \<open>RANGE\<close> conditions, in key schema order.\<close>

definition range_paths :: "KeyCondition \<Rightarrow> PathElement list list" where
  "range_paths kc =
     (case sk_condition kc of
        None \<Rightarrow> []
      | Some sk \<Rightarrow>
         (case sk of
            SK_Compare path op _ \<Rightarrow>
              if op = Op_Eq then path # map fst (extra_sk_conditions kc) else map fst (extra_sk_conditions kc) @ [path]
          | _ \<Rightarrow> map fst (extra_sk_conditions kc) @ [sk_path sk]))"

definition hash_paths :: "KeyCondition \<Rightarrow> PathElement list list" where
  "hash_paths kc = pk_path kc # map fst (extra_pk_conditions kc)"

lemma resolve_multipart_withE:
  assumes "resolve_multipart_with kc H R names vc = Inr kc'" "\<not> (length H \<le> 1 \<and> length R \<le> 1)"
  obtains eqs ne hs rs a where "gather_clauses kc = (eqs, ne)" "assign_clauses H R names eqs = Inr (hs, rs, [])"
    "case ne of None \<Rightarrow> a = None | Some c \<Rightarrow> \<exists>n. resolve_path_attr (sk_path c) names = Inr n \<and> a = Some n"
    "check_structure H R (sort_key fst hs) (sort_key fst rs) [] ne (Option.bind a (position R)) (Option.bind a (position H)) = Inr ()"
    "ne \<noteq> None \<longrightarrow> Option.bind a (position R) \<noteq> None \<or> Option.bind a (position H) \<noteq> None"
    "kc' = assemble kc (map snd (sort_key fst hs)) (map snd (sort_key fst rs)) ne"
  using assms
  by (cases "gather_clauses kc")
    (auto simp: resolve_multipart_with_def check_non_key_def Let_def split: if_split_asm option.split_asm)

text \<open>
  C28: resolving a key condition against a multi-attribute key schema assigns every clause to its attribute:
  the partition key conditions name exactly the \<open>HASH\<close> attributes in key schema order, the others a leading
  run of the \<open>RANGE\<close> attributes in key schema order, and no clause is lost or invented.
\<close>

theorem resolve_multipart_assigns:
  assumes "resolve_multipart_with kc H R names vc = Inr kc'" "length H > 1 \<or> length R > 1" "H \<noteq> []"
  shows "map (\<lambda>p. resolve_path_attr p names) (hash_paths kc') = map Inr H \<and>
    (\<exists>n. map (\<lambda>p. resolve_path_attr p names) (range_paths kc') = map Inr (take n R)) \<and>
    mset (fst (gather_clauses kc')) = mset (fst (gather_clauses kc)) \<and>
    snd (gather_clauses kc') = snd (gather_clauses kc)"
proof -
  from assms(2) have "\<not> (length H \<le> 1 \<and> length R \<le> 1)" by auto
  from resolve_multipart_withE [OF assms(1) this] obtain eqs ne hs rs a where g: "gather_clauses kc = (eqs, ne)"
    and as: "assign_clauses H R names eqs = Inr (hs, rs, [])"
    and a: "case ne of None \<Rightarrow> a = None | Some c \<Rightarrow> \<exists>n. resolve_path_attr (sk_path c) names = Inr n \<and> a = Some n"
    and ok: "check_structure H R (sort_key fst hs) (sort_key fst rs) [] ne (Option.bind a (position R)) (Option.bind a (position H)) = Inr ()"
    and key: "ne \<noteq> None \<longrightarrow> Option.bind a (position R) \<noteq> None \<or> Option.bind a (position H) \<noteq> None"
    and kc': "kc' = assemble kc (map snd (sort_key fst hs)) (map snd (sort_key fst rs)) ne" .
  let ?hs = "sort_key fst hs" and ?rs = "sort_key fst rs"
  note pl = assign_clauses_placed [OF as]
  have bounds: "\<forall>p. Option.bind a (position R) = Some p \<longrightarrow> p < length R"
    "\<forall>p. Option.bind a (position H) = Some p \<longrightarrow> p < length H"
    by (auto simp: bind_eq_Some_conv dest: position_SomeD)
  note st = check_structure_ok [OF ok _ _ bounds, of names]
  have H: "map fst ?hs = [0..<length H]" using st(1) pl by blast
  obtain n where n: "n \<le> length R" "map fst ?rs = [0..<n]" "\<And>p. Option.bind a (position R) = Some p \<Longrightarrow> p = n"
    using st(2) pl by blast
  have hn: "map (\<lambda>c. resolve_path_attr (fst (snd c)) names) ?hs = map Inr H"
    using placed_names [OF _ H, of H names] pl by simp
  have rn: "map (\<lambda>c. resolve_path_attr (fst (snd c)) names) ?rs = map Inr (take n R)"
    using placed_names [OF _ n(2,1), of names] pl by simp
  obtain c cs where hc: "?hs = c # cs" using hn assms(3) by (cases ?hs) auto
  have ms: "mset eqs = mset (map snd ?hs) + mset (map snd ?rs)" using pl by simp
  show ?thesis
  proof (cases ne)
    case None
    then show ?thesis using hn rn hc ms g
      by (cases ?rs) (auto simp: kc' assemble_def hash_paths_def range_paths_def gather_clauses_def Let_def comp_def case_prod_beta
          intro: exI [of _ 0])
  next
    case (Some sk)
    have "Option.bind a (position R) = Some n"
      using key Some st(3) pl n(3) by (cases "Option.bind a (position R)") auto
    then obtain x where x: "a = Some x" "position R x = Some n" by (auto simp: bind_eq_Some_conv)
    have skn: "resolve_path_attr (sk_path sk) names = Inr (R ! n)" "n < length R"
      using a Some x position_SomeD [OF x(2)] by auto
    have ext: "map Inr (take (Suc n) R) = map Inr (take n R) @ [Inr (R ! n)]" using skn(2) by (simp add: take_Suc_conv_app_nth)
    have op: "\<And>path op v. sk = SK_Compare path op v \<Longrightarrow> op \<noteq> Op_Eq" using gather_non_eq g Some by blast
    have rp: "range_paths kc' = map fst (map snd ?rs) @ [sk_path sk]"
      using op by (cases sk; cases c) (auto simp: kc' assemble_def range_paths_def Some hc Let_def)
    have gk: "gather_clauses kc' = (map snd ?hs @ map snd ?rs, Some sk)"
      using op by (cases sk; cases c) (auto simp: kc' assemble_def gather_clauses_def Some hc Let_def)
    have hp: "hash_paths kc' = map fst (map snd ?hs)"
      by (cases c) (simp add: kc' assemble_def hash_paths_def Some hc Let_def)
    have "map (\<lambda>p. resolve_path_attr p names) (range_paths kc') = map Inr (take (Suc n) R)"
      unfolding rp ext using rn skn(1) by (simp add: comp_def)
    then show ?thesis unfolding hp gk using hn ms g Some by (auto simp: comp_def)
  qed
qed

text \<open>\<open>h = :a AND k = :b AND s > :c\<close> with the clauses in another order, for \<open>HASH\<close> \<open>h, k\<close> and \<open>RANGE\<close> \<open>s\<close>.\<close>

definition sample_kc :: KeyCondition where
  "sample_kc = \<lparr>pk_path = [P_Attribute ''k''], pk_value = E_Placeholder ''b'',
     extra_pk_conditions = [([P_Attribute ''h''], E_Placeholder ''a'')],
     sk_condition = Some (SK_Compare [P_Attribute ''s''] Op_Gt (E_Placeholder ''c'')), extra_sk_conditions = []\<rparr>"

definition sample_resolved :: KeyCondition where
  "sample_resolved = \<lparr>pk_path = [P_Attribute ''h''], pk_value = E_Placeholder ''a'',
     extra_pk_conditions = [([P_Attribute ''k''], E_Placeholder ''b'')],
     sk_condition = Some (SK_Compare [P_Attribute ''s''] Op_Gt (E_Placeholder ''c'')), extra_sk_conditions = []\<rparr>"

lemma sample_resolves: "resolve_multipart_with sample_kc [''h'', ''k''] [''s''] [] (\<lambda>_ _. Inr ()) = Inr sample_resolved"
  by code_simp

theorem resolve_multipart_assigns_witness:
  "map (\<lambda>p. resolve_path_attr p []) (hash_paths sample_resolved) = map Inr [''h'', ''k''] \<and>
   (\<exists>n. map (\<lambda>p. resolve_path_attr p []) (range_paths sample_resolved) = map Inr (take n [''s'']))"
proof -
  have "length [''h'', ''k''] > 1 \<or> length [''s''] > 1" "[''h'', ''k''] \<noteq> []" by simp_all
  note h = resolve_multipart_assigns [OF sample_resolves this]
  show ?thesis using h [THEN conjunct1] h [THEN conjunct2, THEN conjunct1] by (rule conjI)
qed

definition hash_place :: "string list \<Rightarrow> (string \<times> string) list \<Rightarrow> eq_clause \<Rightarrow> pos_clause option" where
  "hash_place H names c = map_option (\<lambda>p. (p, c)) (position H (projr (resolve_path_attr (fst c) names)))"

definition range_place :: "string list \<Rightarrow> string list \<Rightarrow> (string \<times> string) list \<Rightarrow> eq_clause \<Rightarrow> pos_clause option" where
  "range_place H R names c = (if hash_place H names c = None then hash_place R names c else None)"

definition no_place :: "string list \<Rightarrow> string list \<Rightarrow> (string \<times> string) list \<Rightarrow> eq_clause \<Rightarrow> bool" where
  "no_place H R names c \<longleftrightarrow> hash_place H names c = None \<and> hash_place R names c = None"

lemma map_filter_Cons: "List.map_filter f (x # xs) = (case f x of Some y \<Rightarrow> y # List.map_filter f xs | None \<Rightarrow> List.map_filter f xs)"
  by (simp add: map_filter_def split: option.split)

lemma assign_clauses_closed:
  assumes "assign_clauses H R names cs = Inr (hs, rs, os)"
  shows "(\<forall>c \<in> set cs. \<exists>a. resolve_path_attr (fst c) names = Inr a) \<and>
    hs = List.map_filter (hash_place H names) cs \<and> rs = List.map_filter (range_place H R names) cs \<and>
    os = filter (no_place H R names) cs"
  using assms
proof (induction cs arbitrary: hs rs os)
  case (Cons c cs)
  obtain path v where c: "c = (path, v)" by (cases c)
  from Cons.prems c obtain a hs' rs' os' where x: "resolve_path_attr path names = Inr a"
    "assign_clauses H R names cs = Inr (hs', rs', os')"
    and y: "(case position H a of Some p \<Rightarrow> Inr ((p, path, v) # hs', rs', os')
       | None \<Rightarrow> (case position R a of Some p \<Rightarrow> Inr (hs', (p, path, v) # rs', os') | None \<Rightarrow> Inr (hs', rs', (path, v) # os')))
       = (Inr (hs, rs, os) :: (pos_clause list \<times> pos_clause list \<times> eq_clause list) ddb_result)"
    by auto
  have pl: "hash_place A names c = map_option (\<lambda>p. (p, c)) (position A a)" for A by (simp add: hash_place_def c x(1))
  show ?case using Cons.IH [OF x(2)] y
    by (cases "position H a"; cases "position R a") (simp_all add: map_filter_Cons range_place_def no_place_def pl, simp_all add: c x(1))
qed (simp add: map_filter_def)

lemma assign_clauses_total:
  "\<forall>c \<in> set cs. \<exists>a. resolve_path_attr (fst c) names = Inr a \<Longrightarrow> \<exists>x. assign_clauses H R names cs = Inr x"
  by (induction cs) (fastforce split: option.split)+

lemma mset_map_filter: "mset xs = mset ys \<Longrightarrow> mset (List.map_filter f xs) = mset (List.map_filter f ys)"
  by (simp add: map_filter_def)

lemma assign_clauses_perm:
  assumes "assign_clauses H R names cs = Inr (hs, rs, os)" "mset cs = mset cs'"
  obtains hs' rs' os' where "assign_clauses H R names cs' = Inr (hs', rs', os')"
    "mset hs' = mset hs" "mset rs' = mset rs" "mset os' = mset os"
proof -
  note c = assign_clauses_closed [OF assms(1)]
  have "set cs = set cs'" using assms(2) by (rule mset_eq_setD)
  then obtain hs' rs' os' where a: "assign_clauses H R names cs' = Inr (hs', rs', os')"
    using assign_clauses_total [of cs' names H R] c by auto
  note c' = assign_clauses_closed [OF a]
  have "mset hs' = mset hs" "mset rs' = mset rs" "mset os' = mset os"
    using c c' assms(2) by (auto intro!: mset_map_filter simp: mset_filter)
  with a show thesis by (rule that)
qed

lemma sort_key_perm:
  assumes "mset xs = mset ys" "sorted_wrt (<) (map fst (sort_key fst xs))"
  shows "sort_key fst ys = sort_key fst (xs :: (nat \<times> 'b) list)"
proof (rule btm.ext)
  let ?x = "sort_key fst xs" and ?y = "sort_key fst ys"
  have "mset (map fst ?x) = mset (map fst ?y)" using assms(1) by simp
  then have "distinct (map fst ?y)" using assms(2) by (metis mset_eq_imp_distinct_iff strict_sorted_iff)
  then show y: "bt_wf ?y" by (simp add: bt_wf_def strict_sorted_iff)
  show x: "bt_wf ?x" using assms(2) by (simp add: bt_wf_def)
  have "set ?x = set ?y" using assms(1) by (metis mset_eq_setD set_sort)
  then have "bt_get ?y k = Some v \<longleftrightarrow> bt_get ?x k = Some v" for k v
    by (simp add: bt_get_Some_iff [OF x] bt_get_Some_iff [OF y])
  then show "bt_get ?y = bt_get ?x" by (metis ext option.exhaust)
qed

lemma assemble_base: "hs \<noteq> [] \<Longrightarrow> assemble kc hs rs ne = assemble kc' hs rs ne"
  by (cases hs) (auto simp: assemble_def Let_def split: option.split list.split)

text \<open>
  C29: the order in which the clauses of an expression are written is free: two key conditions with the same
  clauses resolve to the same key condition.
\<close>

theorem resolve_multipart_order_free:
  assumes "resolve_multipart kc1 H R names = Inr r" "length H > 1 \<or> length R > 1" "H \<noteq> []"
    and "mset (fst (gather_clauses kc1)) = mset (fst (gather_clauses kc2))"
    and "snd (gather_clauses kc1) = snd (gather_clauses kc2)"
  shows "resolve_multipart kc2 H R names = Inr r"
proof -
  from assms(2) have multi: "\<not> (length H \<le> 1 \<and> length R \<le> 1)" by auto
  from resolve_multipart_withE [OF assms(1) [unfolded resolve_multipart_def] multi] obtain eqs ne hs rs a where
    g: "gather_clauses kc1 = (eqs, ne)"
    and as: "assign_clauses H R names eqs = Inr (hs, rs, [])"
    and a: "case ne of None \<Rightarrow> a = None | Some c \<Rightarrow> \<exists>n. resolve_path_attr (sk_path c) names = Inr n \<and> a = Some n"
    and ok: "check_structure H R (sort_key fst hs) (sort_key fst rs) [] ne (Option.bind a (position R)) (Option.bind a (position H)) = Inr ()"
    and key: "ne \<noteq> None \<longrightarrow> Option.bind a (position R) \<noteq> None \<or> Option.bind a (position H) \<noteq> None"
    and r: "r = assemble kc1 (map snd (sort_key fst hs)) (map snd (sort_key fst rs)) ne" .
  obtain eqs' where g': "gather_clauses kc2 = (eqs', ne)" "mset eqs = mset eqs'"
    using assms(4,5) g by (cases "gather_clauses kc2") auto
  from assign_clauses_perm [OF as g'(2)] obtain hs' rs' os' where as': "assign_clauses H R names eqs' = Inr (hs', rs', os')"
    and p: "mset hs' = mset hs" "mset rs' = mset rs" "mset os' = mset []" by blast
  have "\<not> adjacent_dup (sort_key fst hs)" "\<not> adjacent_dup (sort_key fst rs)"
    using ok by (auto simp: check_structure_def duplicated_def split: if_split_asm)
  then have s: "sort_key fst hs' = sort_key fst hs" "sort_key fst rs' = sort_key fst rs"
    using p adjacent_dup_strict [OF sorted_sort_key] by (auto intro!: sort_key_perm)
  have os: "os' = []" using p(3) by simp
  have pl: "placed H names hs" "placed R names rs" using assign_clauses_placed [OF as] by simp_all
  have "\<forall>p. Option.bind a (position R) = Some p \<longrightarrow> p < length R" "\<forall>p. Option.bind a (position H) = Some p \<longrightarrow> p < length H"
    by (auto simp: bind_eq_Some_conv dest: position_SomeD)
  from check_structure_ok(1) [OF ok pl this] have "hs \<noteq> []" using assms(3) by (metis length_0_conv length_map length_sort length_upt diff_zero)
  then have base: "assemble kc2 (map snd (sort_key fst hs)) (map snd (sort_key fst rs)) ne = r"
    unfolding r by (intro assemble_base) (metis length_0_conv length_map length_sort)
  have vals: "check_eq_values (\<lambda>_ _. Inr ()) cs = Inr ()" for cs
    by (induction cs) (auto simp: check_eq_values_def)
  have sk: "check_sk_values (\<lambda>_ _. Inr ()) ne = Inr ()"
    by (auto simp: check_sk_values_def split: option.split SortKeyCondition.split)
  have attr: "(case ne of Some cond \<Rightarrow> bind_r (resolve_path_attr (sk_path cond) names) (\<lambda>a. Inr (Some a)) | None \<Rightarrow> Inr None) = Inr a"
    using a by (cases ne) auto
  have nk: "check_non_key H R (sort_key fst rs) [] ne (Option.bind a (position R)) (Option.bind a (position H)) = Inr ()"
    using key by (auto simp: check_non_key_def)
  show ?thesis
    using multi by (auto simp: resolve_multipart_def resolve_multipart_with_def g' as' attr s os ok vals sk nk base Let_def)
qed

theorem resolve_multipart_order_free_witness:
  "resolve_multipart sample_resolved [''h'', ''k''] [''s''] [] = Inr sample_resolved"
proof (rule resolve_multipart_order_free)
  show "resolve_multipart sample_kc [''h'', ''k''] [''s''] [] = Inr sample_resolved"
    using sample_resolves by (simp only: resolve_multipart_def)
qed (simp_all add: sample_kc_def sample_resolved_def gather_clauses_def)

text \<open>
  C27: of two clauses that name the partition key and another attribute, the one on the partition key becomes
  the partition key condition in whichever order they are written.
\<close>

theorem pair_order_free:
  assumes "resolve_path_attr (raw_clause_path a) names = Inr na" "resolve_path_attr (raw_clause_path b) names = Inr nb"
    and "na \<noteq> nb" "pk_attr \<in> {na, nb}"
  shows "bind_r (classify_pair a b) (\<lambda>kc. resolve_pk_sk kc pk_attr names) =
      bind_r (classify_pair b a) (\<lambda>kc. resolve_pk_sk kc pk_attr names) \<and>
    (\<forall>p v q w. a = RC_Eq p v \<longrightarrow> b = RC_Eq q w \<longrightarrow>
      (\<exists>kc. bind_r (classify_pair a b) (\<lambda>kc. resolve_pk_sk kc pk_attr names) = Inr kc \<and>
        resolve_path_attr (pk_path kc) names = Inr pk_attr))"
proof -
  have path: "resolve_path_attr p names = Inr n \<longleftrightarrow> (\<exists>s r. p = P_Attribute s # r \<and> lookup_key_name s names = Inr n)" for p n
    by (auto simp: resolve_path_attr_def split: list.split PathElement.split)
  show ?thesis
  proof (cases "(\<exists>p v. a = RC_Eq p v) \<and> (\<exists>q w. b = RC_Eq q w)")
    case True
    then obtain p v q w where ab: "a = RC_Eq p v" "b = RC_Eq q w" by blast
    with assms(1,2) obtain s r s' r' where "p = P_Attribute s # r" "lookup_key_name s names = Inr na"
      "q = P_Attribute s' # r'" "lookup_key_name s' names = Inr nb" by (auto simp: path)
    then show ?thesis using assms(3,4) ab
      by (auto simp: classify_pair_def pair_condition_def resolve_pk_sk_def path)
  next
    case False
    then show ?thesis by (cases a; cases b) (auto simp: classify_pair_def)
  qed
qed

theorem pair_order_free_witness:
  "bind_r (classify_pair (RC_Eq [P_Attribute ''s''] (E_Placeholder ''x'')) (RC_Eq [P_Attribute ''h''] (E_Placeholder ''y'')))
     (\<lambda>kc. resolve_pk_sk kc ''h'' []) =
   bind_r (classify_pair (RC_Eq [P_Attribute ''h''] (E_Placeholder ''y'')) (RC_Eq [P_Attribute ''s''] (E_Placeholder ''x'')))
     (\<lambda>kc. resolve_pk_sk kc ''h'' [])"
proof -
  have "resolve_path_attr (raw_clause_path (RC_Eq [P_Attribute ''s''] (E_Placeholder ''x''))) [] = Inr ''s''"
    "resolve_path_attr (raw_clause_path (RC_Eq [P_Attribute ''h''] (E_Placeholder ''y''))) [] = Inr ''h''" by code_simp+
  from pair_order_free [OF this, of "''h''"] show ?thesis by simp
qed

subsection \<open>Key clauses are conditions\<close>

text \<open>A clause as a condition expression, with the attribute on the left.\<close>

fun clause_expr :: "RawClause \<Rightarrow> Expr" where
  "clause_expr (RC_Eq path v) = E_Compare (E_Path path) Op_Eq v"
| "clause_expr (RC_Compare path op v) = E_Compare (E_Path path) op v"
| "clause_expr (RC_Between path low high) = E_Between (E_Path path) low high"
| "clause_expr (RC_BeginsWith path prefix) = E_Function ''begins_with'' [E_Path path, prefix]"

lemma clause_expr_compare [simp]: "clause_expr (compare_clause path op v) = E_Compare (E_Path path) op v"
  by (simp add: compare_clause_def)

lemma apply_op_reverse: "apply_op (reverse_ord r) (reverse_comparator op) = apply_op r op"
  by (cases op; cases r) auto

lemma compare_other_reverse: "compare_other r l (reverse_comparator op) = compare_other l r op"
  by (cases op) (auto simp: compare_other_def)

lemma compare_values_reverse:
  assumes "bd_lawful B"
  shows "compare_values B r l (reverse_comparator op) rp lp = compare_values B l r op lp rp"
proof -
  have sw: "bd_cmp B y x = reverse_ord (bd_cmp B x y)" for x y using assms unfolding bd_lawful_def by blast
  have n: "apply_op (bd_cmp B y x) (reverse_comparator op) = apply_op (bd_cmp B x y) op" for x y
    unfolding sw [of y x] by (rule apply_op_reverse)
  have o': "apply_op (cmp_ord y x) (reverse_comparator op) = apply_op (cmp_ord x y) op" for x y :: "u8 list"
    unfolding cmp_ord_swap [of y x] by (rule apply_op_reverse)
  have o: "apply_op (cmp_ord y x) (reverse_comparator op) = apply_op (cmp_ord x y) op" for x y :: "string"
    unfolding cmp_ord_swap [of y x] by (rule apply_op_reverse)
  show ?thesis
    by (cases l; cases r) (auto simp: compare_values_def n o' o compare_other_reverse split: option.split)
qed

lemma evaluate_compare_reverse:
  assumes "bd_lawful B"
  shows "evaluate_condition B (E_Compare r (reverse_comparator op) l) item maps = Inr b \<longleftrightarrow>
    evaluate_condition B (E_Compare l op r) item maps = Inr b"
proof -
  have "reverse_comparator op = Op_Ne \<longleftrightarrow> op = Op_Ne" by (cases op) auto
  then show ?thesis
    by (cases "resolve_to_value l item maps"; cases "resolve_to_value r item maps")
      (auto simp: compare_values_reverse [OF assms] split: option.split)
qed

text \<open>Where the key parser reads a path or a value, the condition parser reads the same operand.\<close>

lemma parse_operand_of_path:
  assumes "parse_key_operand_path ts = Inr (p, r)" "r = [] \<or> hd r \<noteq> T_LParen"
  shows "parse_operand ts = Inr (E_Path p, r)"
proof -
  from assms(1) obtain t ts' where ts: "ts = t # ts'" "parse_path ts = Inr (p, r)" "(\<exists>n. t = T_Ident n) \<or> (\<exists>n. t = T_NameRef n)"
    by (auto simp: parse_key_operand_path_def split: list.split_asm Token.split_asm)
  have "\<not> (ts' \<noteq> [] \<and> hd ts' = T_LParen)"
  proof
    assume "ts' \<noteq> [] \<and> hd ts' = T_LParen"
    then obtain us where "ts' = T_LParen # us" by (cases ts') auto
    with ts have "r = T_LParen # us" by (auto simp: parse_path_def)
    with assms(2) show False by simp
  qed
  with ts show ?thesis by (subst parse_operand.simps) (auto simp: path_expr_def)
qed

lemma parse_operand_of_value: "parse_key_value ts = Inr (v, r) \<Longrightarrow> parse_operand ts = Inr (v, r)"
  by (subst parse_operand.simps) (auto simp: parse_key_value_def split: list.split_asm Token.split_asm)

lemma key_comparator_Inr: "key_comparator t = Inr op \<longleftrightarrow> try_comparator t = Some op \<and> op \<noteq> Op_Ne"
  by (auto simp: key_comparator_def ok_or_def split: option.split)

lemma parse_operand_of_operand:
  assumes "parse_key_operand ts = Inr (x, r)" "r = [] \<or> hd r \<noteq> T_LParen"
  shows "parse_operand ts = Inr (case x of KO_Path p \<Rightarrow> E_Path p | KO_Value v \<Rightarrow> v, r)"
  using assms parse_operand_of_path [of ts _ r] parse_operand_of_value [of ts _ r]
  by (auto simp: parse_key_operand_def parse_key_operand_path_def split: list.split_asm Token.split_asm)

lemma begins_with_name: "eq_ignore_ascii_case n ''begins_with'' \<Longrightarrow> to_ascii_lowercase n = ''begins_with''"
proof -
  have "to_ascii_lowercase ''begins_with'' = ''begins_with''" by code_simp
  then show "eq_ignore_ascii_case n ''begins_with'' \<Longrightarrow> to_ascii_lowercase n = ''begins_with''"
    by (simp add: eq_ignore_ascii_case_def)
qed

lemma parse_primary_begins_with:
  assumes "ts = T_Ident n # T_LParen # r1" "eq_ignore_ascii_case n ''begins_with''"
    and "parse_key_operand_path r1 = Inr (path, T_Comma # r3)" "parse_key_value r3 = Inr (v, T_RParen # r5)"
  shows "parse_primary ts d md = Inr (E_Function ''begins_with'' [E_Path path, v], r5)"
proof -
  note n = begins_with_name [OF assms(2)]
  have p: "parse_operand r1 = Inr (E_Path path, T_Comma # r3)" by (rule parse_operand_of_path [OF assms(3)]) simp
  have v: "parse_operand r3 = Inr (v, T_RParen # r5)" by (rule parse_operand_of_value [OF assms(4)])
  have r1: "r1 \<noteq> []" "hd r1 \<noteq> T_RParen" using assms(3) by (auto simp: parse_key_operand_path_def split: list.split_asm)
  have len: "length (T_Comma # r3) < length r1" using p by (rule parse_operand_progress)
  have "sep_loop T_Comma parse_operand snoc (length r1) [E_Path path] (T_Comma # r3) =
      sep_loop T_Comma parse_operand snoc (length (T_Comma # r3)) [E_Path path] (T_Comma # r3)"
    using len by (intro operand_p.loop_fuel) simp_all
  also have "\<dots> = sep_loop T_Comma parse_operand snoc (length (T_RParen # r5)) ([E_Path path] @ [v]) (T_RParen # r5)"
    by (rule operand_p.loop_step [OF v])
  also have "\<dots> = Inr ([E_Path path, v], T_RParen # r5)" by (simp add: sep_loop_stop)
  finally have l: "sep_loop T_Comma parse_operand snoc (length r1) [E_Path path] (T_Comma # r3) = Inr ([E_Path path, v], T_RParen # r5)" .
  have "parse_function_call ts = Inr (E_Function ''begins_with'' [E_Path path, v], r5)"
    unfolding assms(1) by (subst parse_function_call.simps) (use p l r1 n in \<open>simp add: expect_token_def\<close>)
  moreover have "is_function_name ''begins_with''" by (simp add: is_function_name_def)
  ultimately show ?thesis by (subst parse_primary.simps) (simp add: assms(1) n)
qed

lemma parse_key_clause_inner_cases:
  assumes "parse_key_clause_inner ts = Inr (c, rest)"
  obtains (call) n r1 p r2 v where "ts = T_Ident n # T_LParen # r1" "eq_ignore_ascii_case n ''begins_with''"
      "parse_key_operand_path r1 = Inr (p, T_Comma # r2)" "parse_key_value r2 = Inr (v, T_RParen # rest)" "c = RC_BeginsWith p v"
  | (reversed) v t r1 op p where "parse_key_operand ts = Inr (KO_Value v, t # r1)" "key_comparator t = Inr op"
      "parse_key_operand_path r1 = Inr (p, rest)" "c = compare_clause p (reverse_comparator op) v"
  | (between) p r1 lo r2 hi where "parse_key_operand ts = Inr (KO_Path p, T_Between # r1)" "parse_key_value r1 = Inr (lo, T_And # r2)"
      "parse_key_value r2 = Inr (hi, rest)" "c = RC_Between p lo hi"
  | (compare) p t r1 op v where "parse_key_operand ts = Inr (KO_Path p, t # r1)" "key_comparator t = Inr op"
      "parse_key_value r1 = Inr (v, rest)" "c = compare_clause p op v"
proof -
  from assms obtain t r where ts: "ts = t # r" by (auto simp: parse_key_clause_inner_def split: list.split_asm)
  show thesis
  proof (cases "(case ident_tok t of Some name \<Rightarrow> eq_ignore_ascii_case name ''begins_with'' | None \<Rightarrow> False) \<and> r \<noteq> [] \<and> hd r = T_LParen")
    case True
    with assms ts show thesis
      by (auto simp: parse_key_clause_inner_def split: option.split_asm elim!: ident_tok.elims intro: call)
  next
    case False
    with assms ts obtain left t1 r2 where l: "parse_key_operand ts = Inr (left, t1 # r2)"
      by (auto simp: parse_key_clause_inner_def split: list.split_asm)
    show thesis
    proof (cases left)
      case (KO_Value v)
      with assms ts l False show thesis by (auto simp: parse_key_clause_inner_def intro: reversed)
    next
      case (KO_Path p)
      with assms ts l False show thesis
        by (cases "t1 = T_Between") (auto simp: parse_key_clause_inner_def intro: between compare)
    qed
  qed
qed

lemma parse_primary_of_operand:
  assumes "parse_key_operand ts = Inr (x, t # r)" "t \<noteq> T_LParen"
  shows "parse_primary ts d md = parse_after_operand (case x of KO_Path p \<Rightarrow> E_Path p | KO_Value v \<Rightarrow> v) (t # r)"
proof -
  have o: "parse_operand ts = Inr (case x of KO_Path p \<Rightarrow> E_Path p | KO_Value v \<Rightarrow> v, t # r)"
    using parse_operand_of_operand [OF assms(1)] assms(2) by simp
  have "ts \<noteq> [] \<and> hd ts \<noteq> T_LParen"
    using assms(1) by (auto simp: parse_key_operand_def split: list.split_asm)
  then obtain u us where ts: "ts = u # us" "u \<noteq> T_LParen" by (cases ts) auto
  have "\<not> (\<exists>n. ident_tok u = Some n) \<or> us = [] \<or> hd us \<noteq> T_LParen"
  proof (rule ccontr)
    assume "\<not> ?thesis"
    then obtain n vs where "u = T_Ident n" "us = T_LParen # vs" by (cases u; cases us) auto
    with assms ts(1) show False by (auto simp: parse_key_operand_def parse_path_def)
  qed
  then have "parse_primary ts d md = bind_r (parse_operand ts) (\<lambda>(left, r1). parse_after_operand left r1)"
    unfolding ts(1) using ts(2) by (subst parse_primary.simps) (auto split: option.split)
  with o show ?thesis by simp
qed

lemma comparator_not_paren: "try_comparator t = Some op \<Longrightarrow> t \<noteq> T_LParen"
  by auto

text \<open>
  C30: every clause of a key condition is a condition of the condition language with the same meaning: the
  condition parser reads the same tokens, and its tree and the clause with the attribute on the left have
  the same value on every item.
\<close>

theorem key_clause_is_condition:
  assumes "bd_lawful B" "parse_key_clause_inner ts = Inr (c, rest)" "rest = [] \<or> hd rest \<noteq> T_LParen"
  shows "\<exists>e. parse_primary ts d md = Inr (e, rest) \<and>
    (\<forall>item maps b. evaluate_condition B e item maps = Inr b \<longleftrightarrow> evaluate_condition B (clause_expr c) item maps = Inr b)"
  using assms(2)
proof (cases rule: parse_key_clause_inner_cases)
  case (call n r1 p r2 v)
  then show ?thesis using parse_primary_begins_with [OF call(1-4)] by simp
next
  case (reversed v t r1 op p)
  have "parse_primary ts d md = Inr (E_Compare v op (E_Path p), rest)"
    using reversed parse_primary_of_operand [OF reversed(1)] parse_operand_of_path [OF reversed(3) assms(3)]
    by (auto simp: key_comparator_Inr parse_after_operand_def dest: comparator_not_paren)
  then show ?thesis using reversed(4) evaluate_compare_reverse [OF assms(1)] by simp
next
  case (between p r1 lo r2 hi)
  then have "parse_primary ts d md = Inr (E_Between (E_Path p) lo hi, rest)"
    using parse_primary_of_operand [OF between(1)] parse_operand_of_value by (simp add: parse_after_operand_def expect_token_def)
  then show ?thesis using between(4) by simp
next
  case (compare p t r1 op v)
  then have "parse_primary ts d md = Inr (E_Compare (E_Path p) op v, rest)"
    using parse_primary_of_operand [OF compare(1)] parse_operand_of_value
    by (auto simp: key_comparator_Inr parse_after_operand_def dest: comparator_not_paren)
  then show ?thesis using compare(4) by simp
qed

theorem key_clause_is_condition_witness:
  "\<exists>e. parse_primary [T_Placeholder ''v'', T_Lt, T_Ident ''s''] 0 5 = Inr (e, []) \<and>
    (\<forall>item maps b. evaluate_condition int_bd e item maps = Inr b \<longleftrightarrow>
      evaluate_condition int_bd (E_Compare (E_Path [P_Attribute ''s'']) Op_Gt (E_Placeholder ''v'')) item maps = Inr b)"
proof -
  have "parse_key_clause_inner [T_Placeholder ''v'', T_Lt, T_Ident ''s''] =
      Inr (RC_Compare [P_Attribute ''s''] Op_Gt (E_Placeholder ''v''), [])" by code_simp
  from key_clause_is_condition [OF bd_lawful_int this, of 0 5] show ?thesis by simp
qed

end
