(* ===== verification/Wildcard.thy ===== *)
theory Wildcard
  imports Rust_Prelude "HOL-Library.Word" "HOL-Library.Monad_Syntax"
begin

text \<open>
  The greedy wildcard matcher of \<open>crates/auth/src/policy\<close>: \<open>match_units\<close> of \<open>matcher.rs\<close> and \<open>match_tokens\<close> of
  \<open>variables.rs\<close> run the same loop, over units and over tokens, so the loop is one definition that takes the
  test for a star and the test of one pattern element against one unit.  The loop backtracks, so nothing
  bounds it by its text; it is a partial function and its termination is a theorem.  \<open>glob\<close> is the meaning
  of a pattern.
\<close>

subsection \<open>The loop\<close>

text \<open>\<open>while pi < plen && p[pi] is a star { pi += 1 }; pi == plen\<close>\<close>

definition trailing_stars :: "('p \<Rightarrow> bool) \<Rightarrow> 'p list \<Rightarrow> nat \<Rightarrow> bool" where
  "trailing_stars star p pi \<longleftrightarrow> dropWhile star (drop pi p) = []"

text \<open>\<open>last_star\<close> is \<open>None\<close> for the initial value \<open>usize::MAX\<close>.\<close>

partial_function (option) match_loop ::
    "('p \<Rightarrow> bool) \<Rightarrow> ('p \<Rightarrow> 'v \<Rightarrow> bool) \<Rightarrow> 'p list \<Rightarrow> 'v list \<Rightarrow> nat \<Rightarrow> nat \<Rightarrow> nat option \<Rightarrow> nat \<Rightarrow> bool option" where
  "match_loop star eq p v pi vi last_star match_from =
     (if vi < length v then
        if pi < length p \<and> star (p ! pi) then match_loop star eq p v (pi + 1) vi (Some (pi + 1)) vi
        else if pi < length p \<and> eq (p ! pi) (v ! vi) then match_loop star eq p v (pi + 1) (vi + 1) last_star match_from
        else
          (case last_star of
             Some ls \<Rightarrow> match_loop star eq p v ls (match_from + 1) last_star (match_from + 1)
           | None \<Rightarrow> Some False)
      else Some (trailing_stars star p pi))"

declare match_loop.simps [code]

definition greedy_match :: "('p \<Rightarrow> bool) \<Rightarrow> ('p \<Rightarrow> 'v \<Rightarrow> bool) \<Rightarrow> 'p list \<Rightarrow> 'v list \<Rightarrow> bool option" where
  "greedy_match star eq p v = match_loop star eq p v 0 0 None 0"

subsection \<open>The meaning of a pattern\<close>

inductive glob :: "('p \<Rightarrow> bool) \<Rightarrow> ('p \<Rightarrow> 'v \<Rightarrow> bool) \<Rightarrow> 'p list \<Rightarrow> 'v list \<Rightarrow> bool" for star eq where
  glob_end: "glob star eq [] []"
| glob_star: "star c \<Longrightarrow> glob star eq p v \<Longrightarrow> glob star eq (c # p) (us @ v)"
| glob_one: "\<not> star c \<Longrightarrow> eq c u \<Longrightarrow> glob star eq p v \<Longrightarrow> glob star eq (c # p) (u # v)"

inductive_simps glob_Nil [simp]: "glob star eq [] v"
inductive_cases glob_ConsE: "glob star eq (c # p) v"

lemma glob_Cons_star: "star c \<Longrightarrow> glob star eq (c # p) v \<longleftrightarrow> (\<exists>k \<le> length v. glob star eq p (drop k v))"
proof
  assume "star c" "glob star eq (c # p) v"
  then obtain us w where "v = us @ w" "glob star eq p w" by (auto elim: glob_ConsE)
  then show "\<exists>k \<le> length v. glob star eq p (drop k v)" by (intro exI [of _ "length us"]) simp
next
  assume "star c" "\<exists>k \<le> length v. glob star eq p (drop k v)"
  then obtain k where "glob star eq p (drop k v)" by blast
  from glob_star [of star, OF \<open>star c\<close> this, of "take k v"] show "glob star eq (c # p) v" by simp
qed

lemma glob_Cons_one:
  "\<not> star c \<Longrightarrow> glob star eq (c # p) v \<longleftrightarrow> (\<exists>u w. v = u # w \<and> eq c u \<and> glob star eq p w)"
  by (auto elim: glob_ConsE intro: glob_one)

lemma glob_empty: "glob star eq p [] \<longleftrightarrow> dropWhile star p = []"
  by (induction p) (auto simp: glob_Cons_star glob_Cons_one)

lemma trailing_stars_glob: "trailing_stars star p pi \<longleftrightarrow> glob star eq (drop pi p) []"
  by (simp add: trailing_stars_def glob_empty)

text \<open>A run of elements that are no stars consumes one unit each.\<close>

lemma glob_run:
  "list_all (\<lambda>c. \<not> star c) seg \<Longrightarrow> glob star eq (seg @ p) v \<Longrightarrow> length seg \<le> length v \<and> glob star eq p (drop (length seg) v)"
proof (induction seg arbitrary: v)
  case (Cons c seg)
  then obtain u w where "v = u # w" "glob star eq (seg @ p) w" by (auto simp: glob_Cons_one)
  with Cons show ?case by simp
qed simp

subsection \<open>Correctness of the loop\<close>

text \<open>
  Between the last star and the current position only elements that are no stars were matched, one unit
  each, starting with the unit at \<open>match_from\<close>.
\<close>

definition loop_inv :: "('p \<Rightarrow> bool) \<Rightarrow> 'p list \<Rightarrow> 'v list \<Rightarrow> nat \<Rightarrow> nat \<Rightarrow> nat option \<Rightarrow> nat \<Rightarrow> bool" where
  "loop_inv star p v pi vi last_star match_from \<longleftrightarrow> vi \<le> length v \<and> pi \<le> length p \<and>
     (case last_star of
        None \<Rightarrow> match_from = 0
      | Some ls \<Rightarrow> ls \<le> pi \<and> match_from \<le> vi \<and> vi - match_from = pi - ls \<and>
          list_all (\<lambda>c. \<not> star c) (take (pi - ls) (drop ls p)))"

text \<open>A match from here, or one in which the last star takes more.\<close>

definition loop_claim :: "('p \<Rightarrow> bool) \<Rightarrow> ('p \<Rightarrow> 'v \<Rightarrow> bool) \<Rightarrow> 'p list \<Rightarrow> 'v list \<Rightarrow> nat \<Rightarrow> nat \<Rightarrow> nat option \<Rightarrow> nat \<Rightarrow> bool" where
  "loop_claim star eq p v pi vi last_star match_from \<longleftrightarrow> glob star eq (drop pi p) (drop vi v) \<or>
     (case last_star of
        None \<Rightarrow> False
      | Some ls \<Rightarrow> \<exists>k. match_from < k \<and> k \<le> length v \<and> glob star eq (drop ls p) (drop k v))"

lemma later_start:
  assumes inv: "loop_inv star p v pi vi (Some ls) mf" and k: "mf < k" "k \<le> length v" "glob star eq (drop ls p) (drop k v)"
  shows "vi < k + (pi - ls)" "k + (pi - ls) \<le> length v" "glob star eq (drop pi p) (drop (k + (pi - ls)) v)"
proof -
  let ?seg = "take (pi - ls) (drop ls p)"
  have i: "ls \<le> pi" "mf \<le> vi" "vi - mf = pi - ls" "list_all (\<lambda>c. \<not> star c) ?seg" "pi \<le> length p"
    using inv by (auto simp: loop_inv_def)
  have "drop ls p = ?seg @ drop pi p" using i(1) by (metis append_take_drop_id drop_drop le_add_diff_inverse2)
  then have "glob star eq (?seg @ drop pi p) (drop k v)" using k(3) by simp
  from glob_run [OF i(4) this] i(1,5) have "pi - ls \<le> length v - k" "glob star eq (drop pi p) (drop (pi - ls) (drop k v))"
    by simp_all
  then show "vi < k + (pi - ls)" "k + (pi - ls) \<le> length v" "glob star eq (drop pi p) (drop (k + (pi - ls)) v)"
    using i(2,3) k(1,2) by (auto simp: add.commute)
qed

lemma claim_star:
  assumes "loop_inv star p v pi vi ls mf" "pi < length p" "star (p ! pi)"
  shows "loop_inv star p v (pi + 1) vi (Some (pi + 1)) vi \<and>
    loop_claim star eq p v (pi + 1) vi (Some (pi + 1)) vi = loop_claim star eq p v pi vi ls mf"
proof -
  have p: "drop pi p = p ! pi # drop (pi + 1) p" using assms(2) by (simp add: Cons_nth_drop_Suc)
  have vi: "vi \<le> length v" using assms(1) by (simp add: loop_inv_def)
  have here: "glob star eq (drop pi p) (drop j v) \<longleftrightarrow> (\<exists>k. j \<le> k \<and> k \<le> length v \<and> glob star eq (drop (pi + 1) p) (drop k v))"
    if "j \<le> length v" for j
  proof -
    have "(\<exists>k. j \<le> k \<and> k \<le> length v \<and> P k) \<longleftrightarrow> (\<exists>k \<le> length v - j. P (k + j))" for P
    proof
      assume "\<exists>k. j \<le> k \<and> k \<le> length v \<and> P k"
      then obtain k where "j \<le> k" "k \<le> length v" "P k" by blast
      then show "\<exists>k \<le> length v - j. P (k + j)" by (intro exI [of _ "k - j"]) simp
    next
      assume "\<exists>k \<le> length v - j. P (k + j)"
      then obtain k where "k \<le> length v - j" "P (k + j)" by blast
      then show "\<exists>k. j \<le> k \<and> k \<le> length v \<and> P k" using that by (intro exI [of _ "k + j"]) simp
    qed
    then show ?thesis unfolding p glob_Cons_star [of star, OF assms(3)] drop_drop by simp
  qed
  have old: "glob star eq (drop pi p) (drop vi v)"
    if "ls = Some l" "mf < k" "k \<le> length v" "glob star eq (drop l p) (drop k v)" for l k
  proof -
    note s = later_start [OF assms(1) [unfolded that(1)] that(2-4)]
    from s(3) here [OF s(2)] obtain k' where "k + (pi - l) \<le> k'" "k' \<le> length v" "glob star eq (drop (pi + 1) p) (drop k' v)"
      by blast
    with s(1) show ?thesis unfolding here [OF vi] by (intro exI [of _ k']) simp
  qed
  have "loop_claim star eq p v pi vi ls mf \<longleftrightarrow> glob star eq (drop pi p) (drop vi v)"
    using old by (auto simp: loop_claim_def split: option.split)
  then show ?thesis using assms(1,2) vi
    unfolding loop_claim_def here [OF vi] by (auto simp: loop_inv_def le_less)
qed


lemma claim_match:
  assumes "loop_inv star p v pi vi ls mf" "pi < length p" "vi < length v" "\<not> star (p ! pi)" "eq (p ! pi) (v ! vi)"
  shows "loop_inv star p v (pi + 1) (vi + 1) ls mf \<and>
    loop_claim star eq p v (pi + 1) (vi + 1) ls mf = loop_claim star eq p v pi vi ls mf"
proof -
  have d: "drop pi p = p ! pi # drop (pi + 1) p" "drop vi v = v ! vi # drop (vi + 1) v"
    using assms(2,3) by (simp_all add: Cons_nth_drop_Suc)
  have "l \<le> pi \<Longrightarrow> list_all (\<lambda>c. \<not> star c) (take (pi - l) (drop l p)) \<Longrightarrow>
      list_all (\<lambda>c. \<not> star c) (take (pi + 1 - l) (drop l p))" for l
    using assms(2,4) by (simp add: Suc_diff_le take_Suc_conv_app_nth)
  then have "loop_inv star p v (pi + 1) (vi + 1) ls mf"
    using assms(1-3) by (auto simp: loop_inv_def split: option.split_asm option.split)
  moreover have "glob star eq (drop pi p) (drop vi v) = glob star eq (drop (pi + 1) p) (drop (vi + 1) v)"
    unfolding d glob_Cons_one [of star, OF assms(4)] using assms(5) by simp
  ultimately show ?thesis by (simp add: loop_claim_def)
qed

lemma no_match_here:
  assumes "vi < length v" "\<not> (pi < length p \<and> star (p ! pi))" "\<not> (pi < length p \<and> eq (p ! pi) (v ! vi))"
  shows "\<not> glob star eq (drop pi p) (drop vi v)"
proof (cases "pi < length p")
  case True
  then have "drop pi p = p ! pi # drop (pi + 1) p" "drop vi v = v ! vi # drop (vi + 1) v"
    using assms(1) by (simp_all add: Cons_nth_drop_Suc)
  with assms True show ?thesis by (simp add: glob_Cons_one)
qed (use assms(1) in simp)

lemma claim_backtrack:
  assumes "loop_inv star p v pi vi (Some ls) mf" "vi < length v" "\<not> glob star eq (drop pi p) (drop vi v)"
  shows "loop_inv star p v ls (mf + 1) (Some ls) (mf + 1) \<and>
    loop_claim star eq p v ls (mf + 1) (Some ls) (mf + 1) = loop_claim star eq p v pi vi (Some ls) mf"
proof -
  have "mf \<le> vi" "ls \<le> pi" "pi \<le> length p" using assms(1) by (simp_all add: loop_inv_def)
  then have i: "mf + 1 \<le> length v" "ls \<le> length p" using assms(2) by linarith+
  have split: "(\<exists>k. mf < k \<and> k \<le> length v \<and> P k) \<longleftrightarrow> P (mf + 1) \<or> (\<exists>k. mf + 1 < k \<and> k \<le> length v \<and> P k)" for P
    using i(1) by (metis Suc_eq_plus1 Suc_lessI lessI less_trans)
  have "loop_inv star p v ls (mf + 1) (Some ls) (mf + 1)" using i by (simp add: loop_inv_def)
  moreover have "loop_claim star eq p v ls (mf + 1) (Some ls) (mf + 1) = loop_claim star eq p v pi vi (Some ls) mf"
    unfolding loop_claim_def option.case split [of "\<lambda>k. glob star eq (drop ls p) (drop k v)"] using assms(3) by blast
  ultimately show ?thesis by (rule conjI)
qed

lemma claim_end:
  assumes "loop_inv star p v pi vi ls mf" "\<not> vi < length v"
  shows "loop_claim star eq p v pi vi ls mf = trailing_stars star p pi"
proof -
  have vi: "vi = length v" using assms by (auto simp: loop_inv_def)
  have "\<not> (mf < k \<and> k \<le> length v \<and> glob star eq (drop l p) (drop k v))" if "ls = Some l" for k l
    using later_start(1,2) [OF assms(1) [unfolded that]] vi by fastforce
  then show ?thesis by (auto simp: loop_claim_def trailing_stars_glob [of _ _ _ eq] vi split: option.split)
qed

text \<open>
  Every step that does not move the current position forward gives the last star one more unit or finds a
  later star: the loop returns, with the right answer.
\<close>

lemma match_loop_correct:
  assumes "loop_inv star p v pi vi ls mf"
  shows "match_loop star eq p v pi vi ls mf = Some (loop_claim star eq p v pi vi ls mf)"
proof -
  have "wf (less_than <*lex*> less_than <*lex*> less_than)" by blast
  from this assms show ?thesis
  proof (induction "(length v - mf, length p + 1 - (case ls of None \<Rightarrow> 0 | Some l \<Rightarrow> l + 1), length v - vi)"
      arbitrary: pi vi ls mf rule: wf_induct_rule)
    case (less vi ls mf pi)
    have IH: "match_loop star eq p v pi' vi' ls' mf' = Some (loop_claim star eq p v pi' vi' ls' mf')"
      if "loop_inv star p v pi' vi' ls' mf'"
        "length v - mf' < length v - mf \<or> length v - mf' = length v - mf \<and>
         (length p + 1 - (case ls' of None \<Rightarrow> 0 | Some l \<Rightarrow> l + 1) < length p + 1 - (case ls of None \<Rightarrow> 0 | Some l \<Rightarrow> l + 1) \<or>
          length p + 1 - (case ls' of None \<Rightarrow> 0 | Some l \<Rightarrow> l + 1) = length p + 1 - (case ls of None \<Rightarrow> 0 | Some l \<Rightarrow> l + 1) \<and>
          length v - vi' < length v - vi)" for pi' vi' ls' mf'
      using less(1) [OF _ that(1)] that(2) by auto
    have inv: "vi \<le> length v" "pi \<le> length p" "ls = Some l \<Longrightarrow> l \<le> pi" "mf \<le> vi" for l
      using less(2) by (auto simp: loop_inv_def split: option.split_asm)
    show ?case
    proof (cases "vi < length v")
      case False
      with claim_end [OF less(2) False] show ?thesis by (subst match_loop.simps) simp
    next
      case vi: True
      consider (star) "pi < length p \<and> star (p ! pi)" | (one) "\<not> (pi < length p \<and> star (p ! pi))" "pi < length p \<and> eq (p ! pi) (v ! vi)"
        | (none) "\<not> (pi < length p \<and> star (p ! pi))" "\<not> (pi < length p \<and> eq (p ! pi) (v ! vi))" by blast
      then show ?thesis
      proof cases
        case star
        with claim_star [OF less(2), of eq]
        have c: "loop_inv star p v (pi + 1) vi (Some (pi + 1)) vi"
          "loop_claim star eq p v (pi + 1) vi (Some (pi + 1)) vi = loop_claim star eq p v pi vi ls mf" by simp_all
        have "match_loop star eq p v (pi + 1) vi (Some (pi + 1)) vi = Some (loop_claim star eq p v (pi + 1) vi (Some (pi + 1)) vi)"
          by (rule IH [OF c(1)]) (use inv vi star in \<open>auto split: option.split\<close>)
        with c(2) vi star show ?thesis by (subst match_loop.simps) simp
      next
        case one
        with claim_match [OF less(2) _ vi, of eq]
        have c: "loop_inv star p v (pi + 1) (vi + 1) ls mf"
          "loop_claim star eq p v (pi + 1) (vi + 1) ls mf = loop_claim star eq p v pi vi ls mf" by auto
        have "match_loop star eq p v (pi + 1) (vi + 1) ls mf = Some (loop_claim star eq p v (pi + 1) (vi + 1) ls mf)"
          by (rule IH [OF c(1)]) (use vi in auto)
        with c(2) vi one show ?thesis by (subst match_loop.simps) simp
      next
        case none
        have nm: "\<not> glob star eq (drop pi p) (drop vi v)" by (rule no_match_here) (use vi none in blast)+
        show ?thesis
        proof (cases ls)
          case None
          with nm vi none show ?thesis by (subst match_loop.simps) (auto simp: loop_claim_def)
        next
          case (Some l)
          note c = claim_backtrack [OF less(2) [unfolded Some] vi nm]
          have "match_loop star eq p v l (mf + 1) (Some l) (mf + 1) = Some (loop_claim star eq p v l (mf + 1) (Some l) (mf + 1))"
            by (rule IH) (use c inv(4) vi in auto)
          with c vi none Some show ?thesis by (subst match_loop.simps) auto
        qed
      qed
    qed
  qed
qed

lemma greedy_match_glob: "greedy_match star eq p v = Some (glob star eq p v)"
proof -
  have "loop_inv star p v 0 0 None 0" by (simp add: loop_inv_def)
  from match_loop_correct [OF this] show ?thesis by (simp add: greedy_match_def loop_claim_def)
qed

end
