(* ===== verification/Matcher.thy ===== *)
theory Matcher
  imports Wildcard
begin

unbundle bit_operations_syntax

text \<open>
  \<open>crates/auth/src/policy/matcher.rs\<close>: wildcard patterns over UTF-16 code units with the ASCII fast path, ARN
  patterns field by field, and CIDR ranges with the address parser of the standard library.
\<close>

subsection \<open>UTF-16 code units\<close>

type_synonym u16 = "16 word"

text \<open>\<open>str::chars\<close> as code points, and \<open>str::encode_utf16\<close>, on the UTF-8 bytes.\<close>

definition code_point :: "char \<Rightarrow> string \<Rightarrow> nat" where
  "code_point c conts =
     foldl (\<lambda>acc b. acc * 64 + of_char b mod 64)
       (let b = of_char c in if b < 128 then b else if b < 224 then b mod 32 else if b < 240 then b mod 16 else b mod 8)
       conts"

function (sequential) code_points :: "string \<Rightarrow> nat list" where
  "code_points [] = []"
| "code_points (c # s) = (let w = utf8_width c - 1 in code_point c (take w s) # code_points (drop w s))"
  by pat_completeness auto
termination by (relation "measure length") auto

definition utf16_units :: "nat \<Rightarrow> u16 list" where
  "utf16_units n =
     (if n < 0x10000 then [of_nat n]
      else [of_nat (0xD800 + (n - 0x10000) div 0x400), of_nat (0xDC00 + (n - 0x10000) mod 0x400)])"

definition encode_utf16 :: "string \<Rightarrow> u16 list" where
  "encode_utf16 s = concat (map utf16_units (code_points s))"

definition u16_of_byte :: "char \<Rightarrow> u16" where
  "u16_of_byte c = of_nat (of_char c)"

lemma encode_utf16_Nil [simp]: "encode_utf16 [] = []"
  by (simp add: encode_utf16_def)

lemma encode_utf16_ascii: "is_ascii s \<Longrightarrow> encode_utf16 s = map u16_of_byte s"
  by (induction s)
    (simp_all add: encode_utf16_def is_ascii_def is_ascii_byte_def utf8_width_def code_point_def utf16_units_def
      u16_of_byte_def)

lemma of_char_less_256: "(of_char c :: nat) < 256"
  by (metis of_char_of nat_of_char_less_256)

subsection \<open>Units\<close>

text \<open>The trait \<open>Unit\<close> and its two implementations; a byte of a string is a \<open>char\<close> here.\<close>

record 't unit_trait =
  STAR :: 't
  QUESTION :: 't
  eq_folding_ascii :: "'t \<Rightarrow> 't \<Rightarrow> bool"

definition unit_u8 :: "char unit_trait" where
  "unit_u8 = \<lparr>STAR = CHR ''*'', QUESTION = CHR ''?'', eq_folding_ascii = (\<lambda>a b. ascii_lower a = ascii_lower b)\<rparr>"

definition unit_u16 :: "u16 unit_trait" where
  "unit_u16 = \<lparr>STAR = 0x2A, QUESTION = 0x3F,
     eq_folding_ascii = (\<lambda>a b. if unat a < 256 \<and> unat b < 256
        then ascii_lower (char_of (unat a)) = ascii_lower (char_of (unat b)) else a = b)\<rparr>"

text \<open>One pattern unit that is not a star against one unit of the value.\<close>

definition unit_matches :: "'t unit_trait \<Rightarrow> bool \<Rightarrow> 't \<Rightarrow> 't \<Rightarrow> bool" where
  "unit_matches T ignore_case p v \<longleftrightarrow>
     p = QUESTION T \<or> (if ignore_case then eq_folding_ascii T p v else p = v)"

text \<open>
  The loop returns on every input (\<open>greedy_match_glob\<close>), so the value for a loop that does not return is
  never taken.
\<close>

definition match_units :: "'t unit_trait \<Rightarrow> 't list \<Rightarrow> 't list \<Rightarrow> bool \<Rightarrow> bool" where
  "match_units T p v ignore_case =
     (case greedy_match (\<lambda>c. c = STAR T) (unit_matches T ignore_case) p v of Some b \<Rightarrow> b | None \<Rightarrow> False)"

definition wildcard_match_impl :: "string \<Rightarrow> string \<Rightarrow> bool \<Rightarrow> bool" where
  "wildcard_match_impl pattern val ignore_case =
     (if is_ascii pattern \<and> is_ascii val then match_units unit_u8 pattern val ignore_case
      else match_units unit_u16 (encode_utf16 pattern) (encode_utf16 val) ignore_case)"

definition wildcard_match :: "string \<Rightarrow> string \<Rightarrow> bool" where
  "wildcard_match pattern val = wildcard_match_impl pattern val False"

definition wildcard_match_ignore_case :: "string \<Rightarrow> string \<Rightarrow> bool" where
  "wildcard_match_ignore_case pattern val = wildcard_match_impl pattern val True"

subsection \<open>ARNs\<close>

text \<open>\<open>str::splitn\<close> with a character: at most \<open>n\<close> pieces, the last one keeping what is left.\<close>

fun splitn :: "nat \<Rightarrow> ('a \<Rightarrow> bool) \<Rightarrow> 'a list \<Rightarrow> 'a list list" where
  "splitn 0 P s = []"
| "splitn (Suc n) P s =
     (if n = 0 then [s] else case split_once P s of None \<Rightarrow> [s] | Some (a, b) \<Rightarrow> a # splitn n P b)"

definition is_colon :: "char \<Rightarrow> bool" where
  "is_colon c \<longleftrightarrow> c = CHR '':''"

definition arn_match :: "string \<Rightarrow> string \<Rightarrow> bool" where
  "arn_match pattern val =
     (if pattern = ''*'' then True
      else
        let p_fields = splitn 6 is_colon pattern; v_fields = splitn 6 is_colon val
        in if length p_fields \<noteq> length v_fields then False
           else list_all (\<lambda>(p, v). wildcard_match p v) (zip p_fields v_fields))"

definition is_arn :: "string \<Rightarrow> bool" where
  "is_arn val \<longleftrightarrow> length (splitn 6 is_colon val) = 6"

subsection \<open>Addresses\<close>

datatype IpAddr = V4 "32 word" | V6 "128 word"

text \<open>
  The address parser of \<open>core::net\<close>: each reader takes the unread text and returns its result with what it left;
  \<open>None\<close> leaves the text where it was.
\<close>

definition to_digit :: "nat \<Rightarrow> char \<Rightarrow> nat option" where
  "to_digit radix c =
     (let d = (if is_ascii_digit c then digit_val c
               else if CHR ''a'' \<le> c \<and> c \<le> CHR ''z'' then of_char c - 87
               else if CHR ''A'' \<le> c \<and> c \<le> CHR ''Z'' then of_char c - 55 else 36)
      in if d < radix then Some d else None)"

fun read_digits :: "nat \<Rightarrow> nat \<Rightarrow> nat \<Rightarrow> nat \<Rightarrow> nat \<Rightarrow> string \<Rightarrow> (nat \<times> nat \<times> string) option" where
  "read_digits radix max_digits limit result digit_count [] = Some (result, digit_count, [])"
| "read_digits radix max_digits limit result digit_count (c # s) =
     (case to_digit radix c of
        None \<Rightarrow> Some (result, digit_count, c # s)
      | Some d \<Rightarrow>
          if result * radix + d < limit \<and> digit_count + 1 \<le> max_digits
          then read_digits radix max_digits limit (result * radix + d) (digit_count + 1) s else None)"

definition read_number :: "nat \<Rightarrow> nat \<Rightarrow> bool \<Rightarrow> nat \<Rightarrow> string \<Rightarrow> (nat \<times> string) option" where
  "read_number radix max_digits allow_zero_prefix limit s =
     (case read_digits radix max_digits limit 0 0 s of
        None \<Rightarrow> None
      | Some (result, digit_count, rest) \<Rightarrow>
          if digit_count = 0 then None
          else if \<not> allow_zero_prefix \<and> starts_with s ''0'' \<and> 1 < digit_count then None
          else Some (result, rest))"

definition read_given_char :: "char \<Rightarrow> string \<Rightarrow> string option" where
  "read_given_char c s = strip_prefix s [c]"

definition read_separator :: "char \<Rightarrow> nat \<Rightarrow> (string \<Rightarrow> 'a option) \<Rightarrow> string \<Rightarrow> 'a option" where
  "read_separator sep index inner s =
     (if 0 < index then case read_given_char sep s of None \<Rightarrow> None | Some t \<Rightarrow> inner t else inner s)"

fun read_octets :: "nat \<Rightarrow> nat \<Rightarrow> nat \<Rightarrow> string \<Rightarrow> (nat \<times> string) option" where
  "read_octets 0 index acc s = Some (acc, s)"
| "read_octets (Suc n) index acc s =
     (case read_separator (CHR ''.'') index (read_number 10 3 False 256) s of
        None \<Rightarrow> None | Some (d, t) \<Rightarrow> read_octets n (index + 1) (acc * 256 + d) t)"

text \<open>The address is the number its octets spell, most significant first.\<close>

definition read_ipv4_addr :: "string \<Rightarrow> (nat \<times> string) option" where
  "read_ipv4_addr s = read_octets 4 0 0 s"

text \<open>\<open>read_groups\<close>: the groups read, whether the last two are an embedded IPv4 address, and what is left.\<close>

fun read_groups :: "nat \<Rightarrow> nat \<Rightarrow> string \<Rightarrow> nat list \<times> bool \<times> string" where
  "read_groups 0 i s = ([], False, s)"
| "read_groups (Suc n) i s =
     (case (if 0 < n then read_separator (CHR '':'') i read_ipv4_addr s else None) of
        Some (a, t) \<Rightarrow> ([a div 0x10000, a mod 0x10000], True, t)
      | None \<Rightarrow>
          (case read_separator (CHR '':'') i (read_number 16 4 True 0x10000) s of
             Some (g, t) \<Rightarrow> (case read_groups n (i + 1) t of (gs, v4, u) \<Rightarrow> (g # gs, v4, u))
           | None \<Rightarrow> ([], False, s)))"

definition read_ipv6_addr :: "string \<Rightarrow> (nat list \<times> string) option" where
  "read_ipv6_addr s =
     (case read_groups 8 0 s of (head, head_ipv4, s1) \<Rightarrow>
        if length head = 8 then Some (head, s1)
        else if head_ipv4 then None
        else
          (case strip_prefix s1 ''::'' of
             None \<Rightarrow> None
           | Some s2 \<Rightarrow>
               (case read_groups (8 - (length head + 1)) 0 s2 of (tail, _, s3) \<Rightarrow>
                  Some (head @ replicate (8 - length head - length tail) 0 @ tail, s3))))"

definition groups_word :: "nat list \<Rightarrow> 128 word" where
  "groups_word gs = of_nat (foldl (\<lambda>acc g. acc * 0x10000 + g) 0 gs)"

text \<open>\<open>str::parse::<Ipv6Addr>()\<close> and \<open>str::parse::<IpAddr>()\<close>: the whole text must be read.\<close>

definition parse_Ipv6Addr :: "string \<Rightarrow> 128 word option" where
  "parse_Ipv6Addr s = (case read_ipv6_addr s of Some (gs, rest) \<Rightarrow> if rest = [] then Some (groups_word gs) else None | None \<Rightarrow> None)"

definition parse_IpAddr :: "string \<Rightarrow> IpAddr option" where
  "parse_IpAddr s =
     (case read_ipv4_addr s of
        Some (a, rest) \<Rightarrow> if rest = [] then Some (V4 (of_nat a)) else None
      | None \<Rightarrow> map_option V6 (parse_Ipv6Addr s))"

text \<open>\<open>Ipv6Addr::to_ipv4_mapped\<close>, as a test: eighty zero bits and sixteen one bits.\<close>

definition is_ipv4_mapped :: "128 word \<Rightarrow> bool" where
  "is_ipv4_mapped a \<longleftrightarrow> drop_bit 32 a = 0xFFFF"

text \<open>\<open>str::parse::<u32>()\<close>.\<close>

definition parse_u32 :: "string \<Rightarrow> nat option" where
  "parse_u32 s = (case parse_usize s of Some n \<Rightarrow> if n < 2 ^ 32 then Some n else None | None \<Rightarrow> None)"

subsection \<open>CIDR ranges\<close>

fun read_decimal_octets :: "nat \<Rightarrow> nat \<Rightarrow> string list \<Rightarrow> (nat \<times> string list) option" where
  "read_decimal_octets 0 acc parts = Some (acc, parts)"
| "read_decimal_octets (Suc n) acc [] = None"
| "read_decimal_octets (Suc n) acc (part # parts) =
     (if part = [] \<or> \<not> list_all is_ascii_digit part then None
      else case parse_u32 part of
        None \<Rightarrow> None
      | Some v \<Rightarrow> if 255 < v then None else read_decimal_octets n (acc * 256 + v) parts)"

definition parse_ipv4_decimal :: "string \<Rightarrow> 32 word option" where
  "parse_ipv4_decimal s =
     (case read_decimal_octets 4 0 (splitn (length s + 1) (\<lambda>c. c = CHR ''.'') s) of
        None \<Rightarrow> None
      | Some (a, parts) \<Rightarrow> if parts \<noteq> [] then None else Some (of_nat a))"

definition parse_network :: "string \<Rightarrow> IpAddr option" where
  "parse_network net_str =
     (if contains_sub net_str '':'' then
        (case parse_Ipv6Addr net_str of
           None \<Rightarrow> None
         | Some v6 \<Rightarrow> if is_ipv4_mapped v6 then None else Some (V6 v6))
      else map_option V4 (parse_ipv4_decimal net_str))"

text \<open>\<open>match cidr.split_once('/')\<close> of both functions.\<close>

definition cidr_parts :: "string \<Rightarrow> string \<times> string option" where
  "cidr_parts cidr = (case split_once (\<lambda>c. c = CHR ''/'') cidr of Some (n, p) \<Rightarrow> (n, Some p) | None \<Rightarrow> (cidr, None))"

definition is_valid_cidr :: "string \<Rightarrow> bool" where
  "is_valid_cidr cidr =
     (case cidr_parts cidr of (net_str, prefix_str) \<Rightarrow>
        (case parse_network net_str of
           None \<Rightarrow> False
         | Some net \<Rightarrow>
             (case prefix_str of
                None \<Rightarrow> True
              | Some p \<Rightarrow>
                  (case (net, parse_u32 p) of
                     (V4 _, Some prefix) \<Rightarrow> prefix \<le> 32
                   | (V6 _, Some prefix) \<Rightarrow> prefix \<le> 128
                   | _ \<Rightarrow> False))))"

text \<open>The mask \<open>MAX << (width - prefix)\<close>; a shift by the whole width would panic, so the code tests for it.\<close>

definition prefix_mask :: "nat \<Rightarrow> 'w::len word" where
  "prefix_mask prefix = (if prefix = 0 then 0 else push_bit (LENGTH('w) - prefix) (- 1))"

definition ip_in_cidr :: "string \<Rightarrow> string \<Rightarrow> bool option" where
  "ip_in_cidr cidr addr =
     (case parse_IpAddr addr of
        None \<Rightarrow> None
      | Some ip \<Rightarrow>
          (case cidr_parts cidr of (net_str, prefix_str) \<Rightarrow>
             (case parse_network net_str of
                None \<Rightarrow> None
              | Some net \<Rightarrow>
                  (case (ip, net) of
                     (V4 ip, V4 net) \<Rightarrow>
                       (case (case prefix_str of Some p \<Rightarrow> parse_u32 p | None \<Rightarrow> Some 32) of
                          None \<Rightarrow> None
                        | Some prefix \<Rightarrow>
                            if 32 < prefix then None
                            else Some (ip AND prefix_mask prefix = net AND prefix_mask prefix))
                   | (V6 ip, V6 net) \<Rightarrow>
                       (case (case prefix_str of Some p \<Rightarrow> parse_u32 p | None \<Rightarrow> Some 128) of
                          None \<Rightarrow> None
                        | Some prefix \<Rightarrow>
                            if 128 < prefix then None
                            else Some (ip AND prefix_mask prefix = net AND prefix_mask prefix))
                   | _ \<Rightarrow> None))))"

subsection \<open>The fast path and the meaning of a pattern\<close>

lemma match_units_glob: "match_units T p v ic \<longleftrightarrow> glob (\<lambda>c. c = STAR T) (unit_matches T ic) p v"
  by (simp add: match_units_def greedy_match_glob)

lemma glob_map:
  assumes "\<And>a. a \<in> set p \<Longrightarrow> star' (f a) = star a" "\<And>a b. a \<in> set p \<Longrightarrow> \<not> star a \<Longrightarrow> b \<in> set v \<Longrightarrow> eq' (f a) (g b) = eq a b"
  shows "glob star' eq' (map f p) (map g v) \<longleftrightarrow> glob star eq p v"
  using assms
proof (induction p arbitrary: v)
  case (Cons c p)
  have sub: "glob star' eq' (map f p) (map g w) \<longleftrightarrow> glob star eq p w" if "set w \<subseteq> set v" for w
    using Cons.IH [of w] Cons.prems that by auto
  show ?case
  proof (cases "star c")
    case True
    then show ?thesis using Cons.prems(1) [of c] sub [OF set_drop_subset]
      by (simp add: glob_Cons_star drop_map)
  next
    case False
    then have "\<not> star' (f c)" using Cons.prems(1) [of c] by simp
    with False show ?thesis using Cons.prems(2) [of c] sub by (cases v) (auto simp: glob_Cons_one glob_empty)
  qed
qed simp


lemma unat_u16_of_byte [simp]: "unat (u16_of_byte c) = of_char c"
proof -
  have "(of_char c :: nat) < 65536" by (rule less_trans [OF of_char_less_256]) simp
  then show ?thesis by (simp add: u16_of_byte_def unat_of_nat)
qed

lemma u16_of_byte_inject [simp]: "u16_of_byte a = u16_of_byte b \<longleftrightarrow> a = b"
  by (simp add: word_unat_eq_iff)

lemma ascii_unit_matches:
  "unit_matches unit_u16 ic (u16_of_byte a) (u16_of_byte b) = unit_matches unit_u8 ic a b"
  "u16_of_byte a = STAR unit_u16 \<longleftrightarrow> a = STAR unit_u8"
proof -
  have q: "u16_of_byte CHR ''?'' = 0x3F" and s: "u16_of_byte CHR ''*'' = 0x2A" by (simp_all add: u16_of_byte_def)
  show "unit_matches unit_u16 ic (u16_of_byte a) (u16_of_byte b) = unit_matches unit_u8 ic a b"
    by (simp add: unit_matches_def unit_u8_def unit_u16_def of_char_less_256 flip: q)
  show "u16_of_byte a = STAR unit_u16 \<longleftrightarrow> a = STAR unit_u8"
    by (simp add: unit_u8_def unit_u16_def flip: s)
qed

lemma wildcard_match_is_glob:
  "wildcard_match_impl pattern val ignore_case \<longleftrightarrow>
     glob (\<lambda>c. c = STAR unit_u16) (unit_matches unit_u16 ignore_case) (encode_utf16 pattern) (encode_utf16 val)"
  by (simp add: wildcard_match_impl_def match_units_glob encode_utf16_ascii glob_map ascii_unit_matches)

text \<open>
  C31: \<open>wildcard_match\<close> and \<open>wildcard_match_ignore_case\<close> return on every input, and decide exactly whether the
  UTF-16 code units of the value can be cut into the pieces the pattern asks for: a star takes any run of
  units, a question mark one unit, any other unit an equal one.  The matching of bytes, which ASCII inputs
  take, gives the same answer as the conversion to UTF-16.
\<close>

theorem wildcard_match_glob:
  "(wildcard_match pattern val \<longleftrightarrow>
      glob (\<lambda>c. c = STAR unit_u16) (unit_matches unit_u16 False) (encode_utf16 pattern) (encode_utf16 val)) \<and>
   (wildcard_match_ignore_case pattern val \<longleftrightarrow>
      glob (\<lambda>c. c = STAR unit_u16) (unit_matches unit_u16 True) (encode_utf16 pattern) (encode_utf16 val))"
  by (simp add: wildcard_match_def wildcard_match_ignore_case_def wildcard_match_is_glob)

text \<open>
  C32: The loop of the matcher, which backtracks to the last star, ends on every pattern and value, for the
  units of \<open>match_units\<close> and for the tokens of \<open>match_tokens\<close> alike, and returns the meaning of the pattern.
\<close>

theorem greedy_match_returns: "\<exists>b. greedy_match star eq p v = Some b \<and> (b \<longleftrightarrow> glob star eq p v)"
  by (simp add: greedy_match_glob)


subsection \<open>Membership\<close>

text \<open>The network of a range is read by its leading bits.\<close>

definition same_leading_bits :: "nat \<Rightarrow> 'w::len word \<Rightarrow> 'w word \<Rightarrow> bool" where
  "same_leading_bits n a b \<longleftrightarrow> drop_bit (LENGTH('w) - n) a = drop_bit (LENGTH('w) - n) b"

definition prefix_length :: "nat \<Rightarrow> string \<Rightarrow> nat option" where
  "prefix_length full cidr = (case snd (cidr_parts cidr) of Some p \<Rightarrow> parse_u32 p | None \<Rightarrow> Some full)"

lemma bit_prefix_mask:
  "n \<le> LENGTH('w::len) \<Longrightarrow> bit (prefix_mask n :: 'w word) i \<longleftrightarrow> i < LENGTH('w) \<and> LENGTH('w) - n \<le> i"
  by (auto simp: prefix_mask_def bit_simps)

lemma same_leading_bits_iff:
  "same_leading_bits n a (b :: 'w::len word) \<longleftrightarrow> (\<forall>i. LENGTH('w) - n \<le> i \<longrightarrow> bit a i = bit b i)"
proof -
  have "k < LENGTH('w)" if "bit c (LENGTH('w) - n + k)" for c :: "'w word" and k
    using bit_imp_le_length [OF that] by simp
  then have "same_leading_bits n a b \<longleftrightarrow> (\<forall>k. bit a (LENGTH('w) - n + k) = bit b (LENGTH('w) - n + k))"
    by (simp add: same_leading_bits_def bit_eq_iff bit_simps) blast
  also have "\<dots> \<longleftrightarrow> (\<forall>i. LENGTH('w) - n \<le> i \<longrightarrow> bit a i = bit b i)"
    by (metis le_add1 le_add_diff_inverse)
  finally show ?thesis .
qed

lemma mask_leading_bits:
  assumes "n \<le> LENGTH('w::len)"
  shows "(a AND prefix_mask n = b AND prefix_mask n) \<longleftrightarrow> same_leading_bits n a (b :: 'w word)"
proof -
  have "(a AND prefix_mask n = b AND prefix_mask n) \<longleftrightarrow>
      (\<forall>i. i < LENGTH('w) \<and> LENGTH('w) - n \<le> i \<longrightarrow> bit a i = bit b i)"
    by (auto simp: bit_eq_iff bit_and_iff bit_prefix_mask [OF assms])
  also have "\<dots> \<longleftrightarrow> same_leading_bits n a b"
    unfolding same_leading_bits_iff by (auto dest: bit_imp_le_length)
  finally show ?thesis .
qed

text \<open>
  C33: \<open>ip_in_cidr\<close> gives an answer exactly for a range that \<open>is_valid_cidr\<close> accepts and an address of the same
  family, and the answer is whether the leading bits that the prefix counts agree; on no input does the shift
  that makes the mask run over the width of the address.
\<close>

theorem ip_in_cidr_answer:
  "ip_in_cidr cidr addr = Some b \<longleftrightarrow>
     is_valid_cidr cidr \<and>
     (case (parse_IpAddr addr, parse_network (fst (cidr_parts cidr))) of
        (Some (V4 ip), Some (V4 net)) \<Rightarrow> \<exists>n. prefix_length 32 cidr = Some n \<and> n \<le> 32 \<and> b = same_leading_bits n ip net
      | (Some (V6 ip), Some (V6 net)) \<Rightarrow> \<exists>n. prefix_length 128 cidr = Some n \<and> n \<le> 128 \<and> b = same_leading_bits n ip net
      | _ \<Rightarrow> False)"
proof (cases "cidr_parts cidr")
  case (Pair net_str prefix_str)
  show ?thesis
    by (cases "parse_IpAddr addr"; cases "parse_network net_str"; cases prefix_str)
      (auto simp: ip_in_cidr_def is_valid_cidr_def prefix_length_def Pair mask_leading_bits
        split: IpAddr.split option.split)
qed

end
