(* ===== verification/Policy_Document.thy ===== *)
theory Policy_Document
  imports Matcher
begin

text \<open>
  \<open>crates/auth/src/policy/document.rs\<close> and \<open>validate_version\<close> of \<open>variables.rs\<close>: the policy document, its reading
  from a JSON value, and the checks of the write path.  The text parser of \<open>serde_json\<close> and the printing of a
  JSON value are parameters; \<open>json\<close> is its public \<open>Value\<close> type, with the type of its numbers left open.
\<close>

subsection \<open>JSON values\<close>

datatype 'n json =
    JNull
  | JBool bool
  | JNumber 'n
  | JString string
  | JArray "'n json list"
  | JObject "(string \<times> 'n json) list"

text \<open>\<open>value[key]\<close>: \<open>Null\<close> for a missing key and for a value that is no object.\<close>

definition json_index :: "'n json \<Rightarrow> string \<Rightarrow> 'n json" where
  "json_index v k = (case v of JObject m \<Rightarrow> (case map_of m k of Some x \<Rightarrow> x | None \<Rightarrow> JNull) | _ \<Rightarrow> JNull)"

definition json_get :: "'n json \<Rightarrow> string \<Rightarrow> 'n json option" where
  "json_get v k = (case v of JObject m \<Rightarrow> map_of m k | _ \<Rightarrow> None)"

definition as_str :: "'n json \<Rightarrow> string option" where
  "as_str v = (case v of JString s \<Rightarrow> Some s | _ \<Rightarrow> None)"

definition is_null :: "'n json \<Rightarrow> bool" where
  "is_null v = (case v of JNull \<Rightarrow> True | _ \<Rightarrow> False)"

subsection \<open>The document\<close>

datatype Effect = Allow | Deny

datatype ActionMatch = Actions "string list" | NotActions "string list"

datatype ResourceMatch = Resources "string list" | NotResources "string list"

datatype PrincipalMatch = Principals "string list" | NotPrincipals "string list"

datatype ConditionOperator =
    StringEquals | StringNotEquals | StringEqualsIgnoreCase | StringNotEqualsIgnoreCase | StringLike | StringNotLike
  | NumericEquals | NumericNotEquals | NumericLessThan | NumericLessThanEquals | NumericGreaterThan
  | NumericGreaterThanEquals
  | DateEquals | DateNotEquals | DateLessThan | DateLessThanEquals | DateGreaterThan | DateGreaterThanEquals
  | BoolOp
  | NullOp
  | ArnEquals | ArnNotEquals | ArnLike | ArnNotLike
  | IpAddressOp | NotIpAddressOp
  | ForAllValues ConditionOperator
  | ForAnyValue ConditionOperator
  | IfExists ConditionOperator

record Condition =
  operator :: ConditionOperator
  cond_key :: string
  cond_values :: "string list"

record Statement =
  sid :: "string option"
  effect :: Effect
  action_match :: ActionMatch
  resource_match :: ResourceMatch
  conditions :: "Condition list"
  principal_match :: "PrincipalMatch option"

record PolicyDocument =
  version :: "string option"
  statements :: "Statement list"

datatype PolicyParseError = PolicyParseError string

type_synonym 'a parsed = "PolicyParseError + 'a"

definition PolicyParseError_to_string :: "PolicyParseError \<Rightarrow> string" where
  "PolicyParseError_to_string e = (case e of PolicyParseError m \<Rightarrow> ''policy parse error: '' @ m)"

subsection \<open>Operators\<close>

fun base_operator :: "ConditionOperator \<Rightarrow> ConditionOperator" where
  "base_operator (ForAllValues inner) = base_operator inner"
| "base_operator (ForAnyValue inner) = base_operator inner"
| "base_operator (IfExists inner) = base_operator inner"
| "base_operator op = op"

text \<open>The arms of the match of \<open>parse_base_operator\<close>.\<close>

definition base_operator_names :: "(string \<times> ConditionOperator) list" where
  "base_operator_names =
    [(''StringEquals'', StringEquals), (''StringNotEquals'', StringNotEquals),
     (''StringEqualsIgnoreCase'', StringEqualsIgnoreCase), (''StringNotEqualsIgnoreCase'', StringNotEqualsIgnoreCase),
     (''StringLike'', StringLike), (''StringNotLike'', StringNotLike),
     (''NumericEquals'', NumericEquals), (''NumericNotEquals'', NumericNotEquals),
     (''NumericLessThan'', NumericLessThan), (''NumericLessThanEquals'', NumericLessThanEquals),
     (''NumericGreaterThan'', NumericGreaterThan), (''NumericGreaterThanEquals'', NumericGreaterThanEquals),
     (''DateEquals'', DateEquals), (''DateNotEquals'', DateNotEquals),
     (''DateLessThan'', DateLessThan), (''DateLessThanEquals'', DateLessThanEquals),
     (''DateGreaterThan'', DateGreaterThan), (''DateGreaterThanEquals'', DateGreaterThanEquals),
     (''Bool'', BoolOp), (''Null'', NullOp),
     (''ArnEquals'', ArnEquals), (''ArnNotEquals'', ArnNotEquals),
     (''ArnLike'', ArnLike), (''ArnNotLike'', ArnNotLike),
     (''IpAddress'', IpAddressOp), (''NotIpAddress'', NotIpAddressOp)]"

definition parse_base_operator :: "string \<Rightarrow> ConditionOperator parsed" where
  "parse_base_operator name =
     (case map_of base_operator_names name of
        Some op \<Rightarrow> Inr op
      | None \<Rightarrow> Inl (PolicyParseError (''unknown operator: '' @ name)))"

text \<open>\<open>str::strip_suffix\<close>.\<close>

definition strip_suffix :: "'a list \<Rightarrow> 'a list \<Rightarrow> 'a list option" where
  "strip_suffix s p = map_option rev (strip_prefix (rev s) (rev p))"

definition for_all_prefix :: string where
  "for_all_prefix = ''ForAllValues:''"

definition for_any_prefix :: string where
  "for_any_prefix = ''ForAnyValue:''"

definition if_exists_suffix :: string where
  "if_exists_suffix = ''IfExists''"

text \<open>\<open>set_prefix\<close> is the constructor the prefix stands for.\<close>

definition parse_operator :: "string \<Rightarrow> ConditionOperator parsed" where
  "parse_operator name =
     (let (set_prefix, rest) =
            (case strip_prefix name for_all_prefix of
               Some r \<Rightarrow> (Some ForAllValues, r)
             | None \<Rightarrow> (case strip_prefix name for_any_prefix of Some r \<Rightarrow> (Some ForAnyValue, r) | None \<Rightarrow> (None, name)));
          (base_name, has_if_exists) =
            (case strip_suffix rest if_exists_suffix of Some b \<Rightarrow> (b, True) | None \<Rightarrow> (rest, False))
      in bind_r (parse_base_operator base_name) (\<lambda>base.
           let with_if_exists = (if has_if_exists then IfExists base else base)
           in Inr (case set_prefix of Some f \<Rightarrow> f with_if_exists | None \<Rightarrow> with_if_exists)))"

subsection \<open>Reading a statement\<close>

definition parse_string_or_array :: "'n json \<Rightarrow> string list parsed" where
  "parse_string_or_array val =
     (case val of
        JString s \<Rightarrow> Inr [s]
      | JArray arr \<Rightarrow> try_map (\<lambda>v. ok_or (as_str v) (PolicyParseError ''expected string in array'')) arr
      | _ \<Rightarrow> Inl (PolicyParseError ''expected string or array''))"

definition parse_action_match :: "'n json \<Rightarrow> ActionMatch parsed" where
  "parse_action_match val =
     (case (\<not> is_null (json_index val ''Action''), \<not> is_null (json_index val ''NotAction'')) of
        (True, True) \<Rightarrow> Inl (PolicyParseError ''statement has both Action and NotAction'')
      | (False, False) \<Rightarrow> Inl (PolicyParseError ''statement has neither Action nor NotAction'')
      | (True, False) \<Rightarrow> bind_r (parse_string_or_array (json_index val ''Action'')) (\<lambda>xs. Inr (Actions xs))
      | (False, True) \<Rightarrow> bind_r (parse_string_or_array (json_index val ''NotAction'')) (\<lambda>xs. Inr (NotActions xs)))"

definition parse_resource_match :: "'n json \<Rightarrow> ResourceMatch parsed" where
  "parse_resource_match val =
     (case (\<not> is_null (json_index val ''Resource''), \<not> is_null (json_index val ''NotResource'')) of
        (True, True) \<Rightarrow> Inl (PolicyParseError ''statement has both Resource and NotResource'')
      | (False, False) \<Rightarrow> Inl (PolicyParseError ''statement has neither Resource nor NotResource'')
      | (True, False) \<Rightarrow> bind_r (parse_string_or_array (json_index val ''Resource'')) (\<lambda>xs. Inr (Resources xs))
      | (False, True) \<Rightarrow> bind_r (parse_string_or_array (json_index val ''NotResource'')) (\<lambda>xs. Inr (NotResources xs)))"

definition parse_principal_value :: "'n json \<Rightarrow> string list parsed" where
  "parse_principal_value val =
     (case val of
        JString s \<Rightarrow> Inr [s]
      | JObject m \<Rightarrow>
          (case map_of m ''AWS'' of
             Some aws \<Rightarrow> parse_string_or_array aws
           | None \<Rightarrow> Inl (PolicyParseError ''Principal object must have AWS key''))
      | _ \<Rightarrow> Inl (PolicyParseError ''invalid Principal value''))"

definition parse_principal_match :: "'n json \<Rightarrow> PrincipalMatch option parsed" where
  "parse_principal_match val =
     (case (\<not> is_null (json_index val ''Principal''), \<not> is_null (json_index val ''NotPrincipal'')) of
        (True, True) \<Rightarrow> Inl (PolicyParseError ''statement has both Principal and NotPrincipal'')
      | (False, False) \<Rightarrow> Inr None
      | (True, False) \<Rightarrow>
          bind_r (parse_principal_value (json_index val ''Principal'')) (\<lambda>ps. Inr (Some (Principals ps)))
      | (False, True) \<Rightarrow>
          bind_r (parse_principal_value (json_index val ''NotPrincipal'')) (\<lambda>ps. Inr (Some (NotPrincipals ps))))"

text \<open>The two loops of \<open>parse_conditions\<close>, with \<open>conditions\<close> as the accumulator.\<close>

definition push_conditions ::
    "ConditionOperator \<Rightarrow> Condition list \<Rightarrow> (string \<times> 'n json) list \<Rightarrow> Condition list parsed" where
  "push_conditions op acc keys =
     try_fold (\<lambda>acc (key, vals).
       bind_r (parse_string_or_array vals) (\<lambda>values.
         Inr (acc @ [\<lparr>operator = op, cond_key = key, cond_values = values\<rparr>]))) acc keys"

definition push_operator :: "Condition list \<Rightarrow> string \<times> 'n json \<Rightarrow> Condition list parsed" where
  "push_operator acc = (\<lambda>(op_name, keys_obj).
     bind_r (parse_operator op_name) (\<lambda>op.
       case keys_obj of
         JObject keys \<Rightarrow> push_conditions op acc keys
       | _ \<Rightarrow> Inl (PolicyParseError (''condition '' @ op_name @ '' must be an object''))))"

definition parse_conditions :: "'n json \<Rightarrow> Condition list parsed" where
  "parse_conditions val =
     (case val of
        JNull \<Rightarrow> Inr []
      | JObject obj \<Rightarrow> try_fold push_operator [] obj
      | _ \<Rightarrow> Inl (PolicyParseError ''Condition must be an object''))"

definition parse_effect :: "'n json \<Rightarrow> Effect parsed" where
  "parse_effect val =
     (case as_str (json_index val ''Effect'') of
        Some s \<Rightarrow>
          if eq_ignore_ascii_case s ''Allow'' then Inr Allow
          else if eq_ignore_ascii_case s ''Deny'' then Inr Deny
          else Inl (PolicyParseError (''invalid Effect: '' @ s))
      | None \<Rightarrow> Inl (PolicyParseError ''missing Effect''))"

definition parse_statement :: "'n json \<Rightarrow> Statement parsed" where
  "parse_statement val =
     bind_r (parse_effect val) (\<lambda>eff.
     bind_r (parse_action_match val) (\<lambda>am.
     bind_r (parse_resource_match val) (\<lambda>rm.
     bind_r (parse_conditions (json_index val ''Condition'')) (\<lambda>conds.
     bind_r (parse_principal_match val) (\<lambda>pm.
       Inr \<lparr>sid = as_str (json_index val ''Sid''), effect = eff, action_match = am, resource_match = rm,
            conditions = conds, principal_match = pm\<rparr>)))))"

definition parse_statements :: "'n json \<Rightarrow> Statement list parsed" where
  "parse_statements val =
     (case val of
        JArray arr \<Rightarrow> try_map parse_statement arr
      | JObject _ \<Rightarrow> bind_r (parse_statement val) (\<lambda>s. Inr [s])
      | _ \<Rightarrow> Inl (PolicyParseError ''Statement must be an object or array''))"

subsection \<open>Reading and checking a document\<close>

definition is_ip_operator :: "ConditionOperator \<Rightarrow> bool" where
  "is_ip_operator op \<longleftrightarrow> op = IpAddressOp \<or> op = NotIpAddressOp"

definition validate_statement_cidrs :: "Statement list \<Rightarrow> unit parsed" where
  "validate_statement_cidrs stmts =
     try_each (\<lambda>stmt.
       try_each (\<lambda>cond.
         if is_ip_operator (base_operator (operator cond)) then
           try_each (\<lambda>v.
             if \<not> is_valid_cidr v
             then Inl (PolicyParseError (''malformed CIDR in condition '' @ cond_key cond @ '': '' @ v))
             else Inr ()) (cond_values cond)
         else Inr ()) (conditions stmt)) stmts"

definition validate_statement_sids :: "Statement list \<Rightarrow> unit parsed" where
  "validate_statement_sids stmts =
     try_each (\<lambda>stmt.
       case sid stmt of
         Some label \<Rightarrow>
           if \<not> list_all is_ascii_alphanumeric label
           then Inl (PolicyParseError (''invalid Sid (must be ASCII letters and digits only): '' @ label))
           else Inr ()
       | None \<Rightarrow> Inr ()) stmts"

definition from_json_with_size_limit ::
    "(string \<Rightarrow> string + 'n json) \<Rightarrow> string \<Rightarrow> nat \<Rightarrow> PolicyDocument parsed" where
  "from_json_with_size_limit from_str json max_bytes =
     (if max_bytes < length json
      then Inl (PolicyParseError (''policy document exceeds maximum size ('' @ show_nat max_bytes @ '' bytes)''))
      else
        bind_r (map_err PolicyParseError (from_str json)) (\<lambda>raw.
        bind_r (parse_statements (json_index raw ''Statement'')) (\<lambda>stmts.
        bind_r (validate_statement_cidrs stmts) (\<lambda>_.
          Inr \<lparr>version = as_str (json_index raw ''Version''), statements = stmts\<rparr>))))"

definition from_json :: "(string \<Rightarrow> string + 'n json) \<Rightarrow> string \<Rightarrow> PolicyDocument parsed" where
  "from_json from_str json = from_json_with_size_limit from_str json 6144"

definition version_2012 :: string where
  "version_2012 = ''2012-10-17''"

definition version_2008 :: string where
  "version_2008 = ''2008-10-17''"

definition validate_version ::
    "(string \<Rightarrow> string + 'n json) \<Rightarrow> ('n json \<Rightarrow> string) \<Rightarrow> string \<Rightarrow> unit parsed" where
  "validate_version from_str show_json json =
     bind_r (map_err PolicyParseError (from_str json)) (\<lambda>raw.
       case json_get raw ''Version'' of
         None \<Rightarrow> Inr ()
       | Some other \<Rightarrow>
           if other = JString version_2012 \<or> other = JString version_2008 then Inr ()
           else Inl (PolicyParseError
             (''invalid Version (must be the string 2012-10-17 or 2008-10-17): '' @ show_json other)))"

definition from_json_for_write ::
    "(string \<Rightarrow> string + 'n json) \<Rightarrow> ('n json \<Rightarrow> string) \<Rightarrow> string \<Rightarrow> PolicyDocument parsed" where
  "from_json_for_write from_str show_json json =
     bind_r (from_json from_str json) (\<lambda>doc.
     bind_r (validate_version from_str show_json json) (\<lambda>_.
     bind_r (validate_statement_sids (statements doc)) (\<lambda>_.
       Inr doc)))"

definition expands_policy_variables :: "PolicyDocument \<Rightarrow> bool" where
  "expands_policy_variables doc \<longleftrightarrow> version doc = Some version_2012"

subsection \<open>Operator names\<close>

text \<open>The name of an operator, and the nestings that have one.\<close>

definition is_base_operator :: "ConditionOperator \<Rightarrow> bool" where
  "is_base_operator op \<longleftrightarrow> op \<in> snd ` set base_operator_names"

fun operator_name :: "ConditionOperator \<Rightarrow> string" where
  "operator_name (ForAllValues op) = for_all_prefix @ operator_name op"
| "operator_name (ForAnyValue op) = for_any_prefix @ operator_name op"
| "operator_name (IfExists op) = operator_name op @ if_exists_suffix"
| "operator_name op = (case map_of (map prod.swap base_operator_names) op of Some n \<Rightarrow> n | None \<Rightarrow> [])"

definition plain_operator :: "ConditionOperator \<Rightarrow> bool" where
  "plain_operator op \<longleftrightarrow> is_base_operator op \<or> (\<exists>b. op = IfExists b \<and> is_base_operator b)"

definition valid_operator :: "ConditionOperator \<Rightarrow> bool" where
  "valid_operator op \<longleftrightarrow>
     plain_operator op \<or> (\<exists>p. (op = ForAllValues p \<or> op = ForAnyValue p) \<and> plain_operator p)"

lemma strip_suffix_Some_iff: "strip_suffix s p = Some t \<longleftrightarrow> s = t @ p"
proof -
  have "strip_suffix s p = Some t \<longleftrightarrow> strip_prefix (rev s) (rev p) = Some (rev t)"
    by (auto simp: strip_suffix_def)
  then show ?thesis by (simp add: strip_prefix_Some_iff flip: rev_append)
qed

lemma base_operator_names_distinct:
  "distinct (map fst base_operator_names)" "distinct (map snd base_operator_names)"
  by (simp_all add: base_operator_names_def)

lemma parse_base_operator_iff: "parse_base_operator n = Inr op \<longleftrightarrow> (n, op) \<in> set base_operator_names"
proof -
  have "parse_base_operator n = Inr op \<longleftrightarrow> map_of base_operator_names n = Some op"
    by (simp add: parse_base_operator_def split: option.split)
  then show ?thesis by (simp add: map_of_eq_Some_iff [OF base_operator_names_distinct(1)])
qed

lemma base_names_plain:
  "list_all (\<lambda>(n, op). operator_name op = n \<and> \<not> starts_with (n @ if_exists_suffix) for_all_prefix
     \<and> \<not> starts_with (n @ if_exists_suffix) for_any_prefix \<and> \<not> starts_with n for_all_prefix
     \<and> \<not> starts_with n for_any_prefix \<and> strip_suffix n if_exists_suffix = None) base_operator_names"
  by code_simp

lemma base_name:
  assumes "is_base_operator op"
  shows "parse_base_operator n = Inr op \<longleftrightarrow> operator_name op = n"
    "\<not> starts_with (operator_name op @ if_exists_suffix) for_all_prefix"
    "\<not> starts_with (operator_name op @ if_exists_suffix) for_any_prefix"
    "\<not> starts_with (operator_name op) for_all_prefix" "\<not> starts_with (operator_name op) for_any_prefix"
    "strip_suffix (operator_name op) if_exists_suffix = None"
proof -
  obtain m where m: "(m, op) \<in> set base_operator_names" using assms by (auto simp: is_base_operator_def)
  have all: "operator_name op = k" if "(k, op) \<in> set base_operator_names" for k
    using base_names_plain that by (auto simp: list_all_iff)
  show "parse_base_operator n = Inr op \<longleftrightarrow> operator_name op = n"
    using m all by (auto simp: parse_base_operator_iff)
  show "\<not> starts_with (operator_name op @ if_exists_suffix) for_all_prefix"
    "\<not> starts_with (operator_name op @ if_exists_suffix) for_any_prefix"
    "\<not> starts_with (operator_name op) for_all_prefix" "\<not> starts_with (operator_name op) for_any_prefix"
    "strip_suffix (operator_name op) if_exists_suffix = None"
    using base_names_plain m all [OF m] by (auto simp: list_all_iff)
qed

lemma parse_base_operator_base: "parse_base_operator n = Inr op \<Longrightarrow> is_base_operator op"
  by (force simp: parse_base_operator_iff is_base_operator_def)

lemma parse_base_operator_name: "parse_base_operator n = Inr op \<longleftrightarrow> is_base_operator op \<and> operator_name op = n"
  using base_name(1) parse_base_operator_base by blast

text \<open>The part of an operator name after the set prefix.\<close>

definition parse_plain :: "string \<Rightarrow> ConditionOperator parsed" where
  "parse_plain rest =
     (case strip_suffix rest if_exists_suffix of
        Some b \<Rightarrow> bind_r (parse_base_operator b) (\<lambda>base. Inr (IfExists base))
      | None \<Rightarrow> parse_base_operator rest)"

lemma parse_plain_iff: "parse_plain rest = Inr op \<longleftrightarrow> plain_operator op \<and> operator_name op = rest"
proof (cases "strip_suffix rest if_exists_suffix")
  case None
  then have no: "operator_name b @ if_exists_suffix \<noteq> rest" for b
    by (metis option.distinct(1) strip_suffix_Some_iff)
  have "plain_operator op \<and> operator_name op = rest \<longleftrightarrow> is_base_operator op \<and> operator_name op = rest"
    by (metis no operator_name.simps(3) plain_operator_def)
  with None show ?thesis by (simp add: parse_plain_def parse_base_operator_name)
next
  case (Some b)
  then have rest: "rest = b @ if_exists_suffix" by (simp add: strip_suffix_Some_iff)
  have no: "\<not> (is_base_operator op \<and> operator_name op = rest)" using base_name(6) [of op] Some by auto
  have "plain_operator op \<and> operator_name op = rest \<longleftrightarrow> (\<exists>c. op = IfExists c \<and> is_base_operator c \<and> operator_name c = b)"
    using no by (auto simp: plain_operator_def rest)
  with Some show ?thesis by (auto simp: parse_plain_def parse_base_operator_name res_simps)
qed

lemma bind_r_Inr_right [simp]: "bind_r x Inr = x"
  by (cases x) simp_all

lemma parse_operator_plain:
  "parse_operator name =
     (case strip_prefix name for_all_prefix of
        Some r \<Rightarrow> bind_r (parse_plain r) (\<lambda>p. Inr (ForAllValues p))
      | None \<Rightarrow>
          (case strip_prefix name for_any_prefix of
             Some r \<Rightarrow> bind_r (parse_plain r) (\<lambda>p. Inr (ForAnyValue p))
           | None \<Rightarrow> parse_plain name))"
  by (simp add: parse_operator_def parse_plain_def bind_r_assoc split: option.split)


lemma parse_operator_valid: "parse_operator name = Inr op \<Longrightarrow> valid_operator op"
  by (auto simp: parse_operator_plain parse_plain_iff valid_operator_def res_simps split: option.split_asm)


subsection \<open>Well-formed documents\<close>

text \<open>
  What evaluation relies on: every operator is nested in a way it knows, and every value of an address
  operator is a range that \<open>ip_in_cidr\<close> can read.
\<close>

definition condition_wf :: "Condition \<Rightarrow> bool" where
  "condition_wf c \<longleftrightarrow>
     valid_operator (operator c) \<and>
     (is_ip_operator (base_operator (operator c)) \<longrightarrow> list_all is_valid_cidr (cond_values c))"

definition document_wf :: "PolicyDocument \<Rightarrow> bool" where
  "document_wf doc \<longleftrightarrow> list_all (\<lambda>stmt. list_all condition_wf (conditions stmt)) (statements doc)"

lemma push_conditions_valid:
  assumes "push_conditions op acc keys = Inr cs" "valid_operator op" "list_all (\<lambda>c. valid_operator (operator c)) acc"
  shows "list_all (\<lambda>c. valid_operator (operator c)) cs"
  using assms(1) unfolding push_conditions_def
  by (rule try_fold_invariant [where P = "list_all (\<lambda>c. valid_operator (operator c))"])
    (use assms(2,3) in \<open>auto simp: res_simps\<close>)

lemma push_operator_valid:
  "push_operator acc x = Inr cs \<Longrightarrow> list_all (\<lambda>c. valid_operator (operator c)) acc \<Longrightarrow>
     list_all (\<lambda>c. valid_operator (operator c)) cs"
  by (cases x; cases "snd x")
    (auto simp: push_operator_def intro: push_conditions_valid [OF _ parse_operator_valid])

lemma parse_conditions_valid:
  assumes "parse_conditions v = Inr cs"
  shows "list_all (\<lambda>c. valid_operator (operator c)) cs"
proof (cases v)
  case (JObject obj)
  then have "try_fold push_operator [] obj = Inr cs" using assms by (simp add: parse_conditions_def)
  then show ?thesis by (rule try_fold_invariant) (auto intro: push_operator_valid)
qed (use assms in \<open>simp_all add: parse_conditions_def\<close>)

lemma parse_statement_valid: "parse_statement v = Inr stmt \<Longrightarrow> list_all (\<lambda>c. valid_operator (operator c)) (conditions stmt)"
  by (auto simp: parse_statement_def intro: parse_conditions_valid)

lemma parse_statements_valid:
  assumes "parse_statements (v :: 'n json) = Inr stmts" "stmt \<in> set stmts"
  shows "list_all (\<lambda>c. valid_operator (operator c)) (conditions stmt)"
proof -
  obtain w :: "'n json" where "parse_statement w = Inr stmt"
    using assms
    by (auto simp: parse_statements_def try_map_Inr_iff list_all2_conv_all_nth in_set_conv_nth split: json.split_asm)
  then show ?thesis by (rule parse_statement_valid)
qed

lemma validate_statement_cidrs_Inr:
  "validate_statement_cidrs stmts = Inr u \<longleftrightarrow>
     (\<forall>stmt \<in> set stmts. \<forall>c \<in> set (conditions stmt).
        is_ip_operator (base_operator (operator c)) \<longrightarrow> list_all is_valid_cidr (cond_values c))"
  by (simp add: validate_statement_cidrs_def try_each_Inr_iff list_all_iff)

lemma from_json_wf: "from_json from_str json = Inr doc \<Longrightarrow> document_wf doc"
  by (auto simp: from_json_def from_json_with_size_limit_def document_wf_def condition_wf_def list_all_iff
      validate_statement_cidrs_Inr split: if_split_asm
      dest!: parse_statements_valid)

lemma validate_statement_sids_Inr:
  "validate_statement_sids stmts = Inr u \<longleftrightarrow>
     (\<forall>stmt \<in> set stmts. pred_option (list_all is_ascii_alphanumeric) (sid stmt))"
  unfolding validate_statement_sids_def try_each_Inr_iff by (rule ball_cong [OF refl]) (simp split: option.split)

lemma from_json_version:
  assumes "from_json from_str json = Inr doc" "validate_version from_str show_json json = Inr u"
  shows "version doc \<in> {None, Some version_2012, Some version_2008}"
proof -
  obtain raw where raw: "from_str json = Inr raw" and v: "version doc = as_str (json_index raw ''Version'')"
    using assms(1) by (auto simp: from_json_def from_json_with_size_limit_def split: if_split_asm)
  show ?thesis
    using assms(2) raw v
    by (cases raw; cases "json_get raw ''Version''")
      (auto simp: validate_version_def json_get_def json_index_def as_str_def split: if_split_asm)
qed

text \<open>
  C35: A document that \<open>from_json_for_write\<close> accepts has at most 6144 bytes, one of the two versions or none, only
  letters and digits in its statement labels, only operator nestings that evaluation knows, and in every
  address condition only ranges that \<open>ip_in_cidr\<close> can read, whatever the JSON parser returns.
\<close>

theorem from_json_for_write_wf:
  assumes "from_json_for_write from_str show_json json = Inr doc"
  shows "length json \<le> 6144 \<and> document_wf doc \<and> version doc \<in> {None, Some version_2012, Some version_2008} \<and>
    list_all (\<lambda>stmt. pred_option (list_all is_ascii_alphanumeric) (sid stmt)) (statements doc)"
proof -
  obtain u where d: "from_json from_str json = Inr doc" and v: "validate_version from_str show_json json = Inr u"
    and s: "validate_statement_sids (statements doc) = Inr ()"
    using assms by (auto simp: from_json_for_write_def)
  have "length json \<le> 6144"
    using d by (auto simp: from_json_def from_json_with_size_limit_def split: if_split_asm)
  with from_json_wf [OF d] from_json_version [OF d v] s show ?thesis
    by (auto simp: validate_statement_sids_Inr list_all_iff)
qed

definition sample_policy :: "unit json" where
  "sample_policy = JObject
     [(''Version'', JString version_2012),
      (''Statement'', JObject
         [(''Sid'', JString ''A1''), (''Effect'', JString ''Allow''), (''Action'', JString ''*''), (''Resource'', JString ''*''),
          (''Condition'', JObject [(''IpAddress'', JObject [(''aws:SourceIp'', JString ''10.0.0.0/8'')])])])]"

lemma read_decimal_octets_numeral:
  "read_decimal_octets (numeral k) acc (part # parts) =
     (if part = [] \<or> \<not> list_all is_ascii_digit part then None
      else case parse_u32 part of
        None \<Rightarrow> None
      | Some v \<Rightarrow> if 255 < v then None else read_decimal_octets (pred_numeral k) (acc * 256 + v) parts)"
  by (simp add: numeral_eq_Suc)

lemma sample_range_valid: "is_valid_cidr ''10.0.0.0/8''"
proof -
  have "parse_u32 ''10'' = Some 10" "parse_u32 ''0'' = Some 0" "parse_u32 ''8'' = Some 8"
    by (simp_all add: parse_u32_def parse_usize_def digits_val_def digit_val_def is_ascii_digit_of_char)
  then show ?thesis
    by (simp add: is_valid_cidr_def cidr_parts_def split_once_def parse_network_def contains_sub_def
        parse_ipv4_decimal_def read_decimal_octets_numeral is_ascii_digit_of_char)
qed

definition sample_statement :: Statement where
  "sample_statement =
     \<lparr>sid = Some ''A1'', effect = Allow, action_match = Actions [''*''], resource_match = Resources [''*''],
      conditions = [\<lparr>operator = IpAddressOp, cond_key = ''aws:SourceIp'', cond_values = [''10.0.0.0/8'']\<rparr>],
      principal_match = None\<rparr>"

lemma sample_policy_accepted:
  "from_json_for_write (\<lambda>_. Inr sample_policy) (\<lambda>_. []) ''{}'' =
     Inr \<lparr>version = Some version_2012, statements = [sample_statement]\<rparr>"
proof -
  have "parse_statements (json_index sample_policy ''Statement'') = Inr [sample_statement]"
    "as_str (json_index sample_policy ''Version'') = Some version_2012"
    "validate_version (\<lambda>_. Inr sample_policy) (\<lambda>_. []) ''{}'' = Inr ()"
    "validate_statement_sids [sample_statement] = Inr ()" by code_simp+
  moreover have "validate_statement_cidrs [sample_statement] = Inr ()"
    by (simp add: validate_statement_cidrs_Inr sample_statement_def sample_range_valid)
  ultimately show ?thesis
    by (simp add: from_json_for_write_def from_json_def from_json_with_size_limit_def)
qed

theorem from_json_for_write_wf_witness:
  "document_wf \<lparr>version = Some version_2012, statements = [sample_statement]\<rparr>"
  using from_json_for_write_wf [OF sample_policy_accepted] by blast

end
