(* ===== verification/Policy_Context.thy ===== *)
theory Policy_Context
  imports Matcher "HOL-Library.Multiset"
begin

text \<open>
  \<open>crates/auth/src/policy/context.rs\<close>, \<open>context/request_tags.rs\<close> and \<open>case_fold\<close> of \<open>casefold.rs\<close>: the keys a policy
  condition can read.  The trait \<open>ConditionContext\<close> is a record of functions; \<open>RequestContext\<close> and
  \<open>AssumeRoleContext\<close> are records, and \<open>request_context\<close> and \<open>assume_role_context\<close> their implementations of the
  trait.  A \<open>HashMap\<close> is the list of its entries in iteration order, with distinct keys; the generated fld
  table and the two texts of the clock are parameters.
\<close>

record ConditionContext =
  resolve_key :: "string \<Rightarrow> string list option"
  is_multivalued_key :: "string \<Rightarrow> bool"
  is_unresolvable_key :: "string \<Rightarrow> bool"
  bare_negated_matches_absent_multivalued_key :: "string \<Rightarrow> bool"

subsection \<open>Case folding\<close>

text \<open>\<open>str::chars\<close>, each character as its bytes.\<close>

function (sequential) utf8_chars :: "string \<Rightarrow> string list" where
  "utf8_chars [] = []"
| "utf8_chars (c # s) = (c # take (utf8_width c - 1) s) # utf8_chars (drop (utf8_width c - 1) s)"
  by pat_completeness auto
termination by (relation "measure length") auto

text \<open>The table is sorted, so its binary search finds the entry of the code point.\<close>

definition case_fold :: "(nat \<times> string) list \<Rightarrow> string \<Rightarrow> string" where
  "case_fold CASE_FOLD s =
     (if is_ascii s then to_ascii_lowercase s
      else concat (map (\<lambda>c. case map_of CASE_FOLD (code_point (hd c) (tl c)) of Some t \<Rightarrow> t | None \<Rightarrow> c) (utf8_chars s)))"

subsection \<open>Tags\<close>

text \<open>\<open>Iterator::min_by\<close> on the keys: the first of the least entries.\<close>

fun min_by_key :: "('k::linorder \<times> 'v) list \<Rightarrow> ('k \<times> 'v) option" where
  "min_by_key [] = None"
| "min_by_key (x # xs) =
     (case min_by_key xs of None \<Rightarrow> Some x | Some y \<Rightarrow> if fst y < fst x then Some y else Some x)"

definition tag_lookup :: "(string \<times> string) list \<Rightarrow> string \<Rightarrow> (string \<Rightarrow> string) \<Rightarrow> string list option" where
  "tag_lookup m sub_key norm =
     (case map_of m sub_key of
        Some v \<Rightarrow> Some [v]
      | None \<Rightarrow>
          let want = norm sub_key
          in map_option (\<lambda>e. [snd e]) (min_by_key (filter (\<lambda>e. norm (fst e) = want) m)))"

text \<open>\<open>key.get(..n)\<close> is \<open>None\<close> where \<open>n\<close> is beyond the end or inside a character.\<close>

definition strip_prefix_ci :: "string \<Rightarrow> string \<Rightarrow> string option" where
  "strip_prefix_ci key pre =
     (if length pre \<le> length key \<and> is_char_boundary key (length pre) then
        if eq_ignore_ascii_case (take (length pre) key) pre then Some (drop (length pre) key) else None
      else None)"

definition FAIL_CLOSED_GLOBAL_KEYS :: "string list" where
  "FAIL_CLOSED_GLOBAL_KEYS = []"

definition aws_key_is_unresolvable :: "(string \<Rightarrow> string) \<Rightarrow> string \<Rightarrow> bool" where
  "aws_key_is_unresolvable fld key \<longleftrightarrow> list_ex (\<lambda>k. fld k = fld key) FAIL_CLOSED_GLOBAL_KEYS"

datatype FoldedTag = FT_Value string | FT_Ambiguous

datatype RequestTagLookup = Tag_Absent | Tag_Value string | Tag_Ambiguous

type_synonym RequestTagIndex = "(string \<times> FoldedTag) list"

text \<open>One entry of \<open>RequestTagIndex::new\<close>: a vacant slot takes the value, an occupied one may become ambiguous.\<close>

definition index_tag :: "(string \<Rightarrow> string) \<Rightarrow> string \<times> string \<Rightarrow> RequestTagIndex \<Rightarrow> RequestTagIndex" where
  "index_tag fld nv ix =
     (let k = fld (fst nv)
      in case map_of ix k of
           None \<Rightarrow> (k, FT_Value (snd nv)) # ix
         | Some (FT_Value seen) \<Rightarrow>
             if seen \<noteq> snd nv then (k, FT_Ambiguous) # filter (\<lambda>e. fst e \<noteq> k) ix else ix
         | Some FT_Ambiguous \<Rightarrow> ix)"

definition new_index :: "(string \<Rightarrow> string) \<Rightarrow> (string \<times> string) list \<Rightarrow> RequestTagIndex" where
  "new_index fld tags = fold (index_tag fld) tags []"

definition from_tags :: "(string \<Rightarrow> string) \<Rightarrow> (string \<times> string) list option \<Rightarrow> RequestTagIndex option" where
  "from_tags fld tags =
     (case tags of None \<Rightarrow> None | Some t \<Rightarrow> if t = [] then None else Some (new_index fld t))"

definition lookup_index :: "(string \<Rightarrow> string) \<Rightarrow> RequestTagIndex \<Rightarrow> string \<Rightarrow> RequestTagLookup" where
  "lookup_index fld ix sub_key =
     (case map_of ix (fld sub_key) of
        None \<Rightarrow> Tag_Absent
      | Some (FT_Value v) \<Rightarrow> Tag_Value v
      | Some FT_Ambiguous \<Rightarrow> Tag_Ambiguous)"

subsection \<open>The request context\<close>

record RequestParams =
  p_leading_keys :: "string list option"
  p_attributes :: "string list option"
  p_select :: "string option"
  p_return_values :: "string option"
  p_return_consumed_capacity :: "string option"
  p_enclosing_operation :: "string option"
  p_principal_arn :: "string option"
  p_principal_account :: "string option"
  p_region :: "string option"
  p_secure_transport :: bool
  p_principal_type :: "string option"
  p_username :: "string option"
  p_source_ip :: "string option"
  p_user_agent :: "string option"
  p_userid :: "string option"
  p_resource_account :: "string option"
  p_token_issue_time :: "string option"
  p_multi_factor_auth_present :: "bool option"
  p_request_tags :: "(string \<times> string) list option"
  p_request_tag_keys :: "string list option"

record RequestContext =
  rc_principal_tags :: "(string \<times> string) list"
  rc_resource_tags :: "(string \<times> string) list"
  rc_leading_keys :: "string list option"
  rc_attributes :: "string list option"
  rc_select :: "string option"
  rc_return_values :: "string option"
  rc_return_consumed_capacity :: "string option"
  rc_full_table_scan :: "bool option"
  rc_enclosing_operation :: "string option"
  rc_principal_arn :: "string option"
  rc_principal_account :: "string option"
  rc_region :: "string option"
  rc_secure_transport :: bool
  rc_principal_type :: "string option"
  rc_username :: "string option"
  rc_source_ip :: "string option"
  rc_user_agent :: "string option"
  rc_userid :: "string option"
  rc_resource_account :: "string option"
  rc_token_issue_time :: "string option"
  rc_multi_factor_auth_present :: "bool option"
  rc_current_time :: string
  rc_epoch_time :: string
  rc_request_tags :: "RequestTagIndex option"
  rc_request_tag_keys :: "string list option"

definition RequestContext_build ::
    "(string \<Rightarrow> string) \<Rightarrow> string \<times> string \<Rightarrow> (string \<times> string) list \<Rightarrow> (string \<times> string) list \<Rightarrow> bool \<Rightarrow>
     RequestParams \<Rightarrow> RequestContext" where
  "RequestContext_build fld request_time_strings principal_tags resource_tags is_scan params =
     \<lparr>rc_principal_tags = principal_tags,
      rc_resource_tags = resource_tags,
      rc_leading_keys = p_leading_keys params,
      rc_attributes = p_attributes params,
      rc_select = p_select params,
      rc_return_values = p_return_values params,
      rc_return_consumed_capacity = p_return_consumed_capacity params,
      rc_full_table_scan = (if is_scan then Some True else None),
      rc_enclosing_operation = p_enclosing_operation params,
      rc_principal_arn = p_principal_arn params,
      rc_principal_account = p_principal_account params,
      rc_region = p_region params,
      rc_secure_transport = p_secure_transport params,
      rc_principal_type = p_principal_type params,
      rc_username = p_username params,
      rc_source_ip = p_source_ip params,
      rc_user_agent = p_user_agent params,
      rc_userid = p_userid params,
      rc_resource_account = p_resource_account params,
      rc_token_issue_time = p_token_issue_time params,
      rc_multi_factor_auth_present = p_multi_factor_auth_present params,
      rc_current_time = fst request_time_strings,
      rc_epoch_time = snd request_time_strings,
      rc_request_tags = from_tags fld (p_request_tags params),
      rc_request_tag_keys =
        (case p_request_tag_keys params of None \<Rightarrow> None | Some k \<Rightarrow> if k = [] then None else Some k)\<rparr>"

definition request_tag_values :: "(string \<Rightarrow> string) \<Rightarrow> RequestContext \<Rightarrow> string \<Rightarrow> RequestTagLookup" where
  "request_tag_values fld rc sub_key =
     (case rc_request_tags rc of None \<Rightarrow> Tag_Absent | Some ix \<Rightarrow> lookup_index fld ix sub_key)"

definition bool_text :: "bool \<Rightarrow> string" where
  "bool_text b = (if b then ''true'' else ''false'')"

text \<open>\<open>as_deref().map(|v| vec![v])\<close>.\<close>

definition single :: "string option \<Rightarrow> string list option" where
  "single v = map_option (\<lambda>x. [x]) v"

definition principal_tag_prefix :: string where
  "principal_tag_prefix = ''aws:PrincipalTag/''"

definition request_tag_prefix :: string where
  "request_tag_prefix = ''aws:RequestTag/''"

definition resource_tag_prefix :: string where
  "resource_tag_prefix = ''aws:ResourceTag/''"

text \<open>The arms of the match on the folded key name, in order.\<close>

definition request_keys :: "RequestContext \<Rightarrow> (string \<times> string list option) list" where
  "request_keys rc =
    [(''dynamodb:leadingkeys'', rc_leading_keys rc),
     (''dynamodb:attributes'', rc_attributes rc),
     (''dynamodb:select'', single (rc_select rc)),
     (''dynamodb:returnvalues'', single (rc_return_values rc)),
     (''dynamodb:returnconsumedcapacity'', single (rc_return_consumed_capacity rc)),
     (''dynamodb:fulltablescan'', single (map_option bool_text (rc_full_table_scan rc))),
     (''dynamodb:enclosingoperation'', single (rc_enclosing_operation rc)),
     (''aws:principalarn'', single (rc_principal_arn rc)),
     (''aws:principalaccount'', single (rc_principal_account rc)),
     (''aws:requestedregion'', single (rc_region rc)),
     (''aws:securetransport'', Some [bool_text (rc_secure_transport rc)]),
     (''aws:currenttime'', Some [rc_current_time rc]),
     (''aws:epochtime'', Some [rc_epoch_time rc]),
     (''aws:principaltype'', single (rc_principal_type rc)),
     (''aws:username'', single (rc_username rc)),
     (''aws:sourceip'', single (rc_source_ip rc)),
     (''aws:useragent'', single (rc_user_agent rc)),
     (''aws:userid'', single (rc_userid rc)),
     (''aws:resourceaccount'', single (rc_resource_account rc)),
     (''aws:tokenissuetime'', single (rc_token_issue_time rc)),
     (''aws:tagkeys'', rc_request_tag_keys rc),
     (''aws:multifactorauthpresent'', single (map_option bool_text (rc_multi_factor_auth_present rc))),
     (''aws:viaawsservice'', Some [''false'']),
     (''aws:principalisawsservice'', Some [''false''])]"

definition request_resolve_key :: "(string \<Rightarrow> string) \<Rightarrow> RequestContext \<Rightarrow> string \<Rightarrow> string list option" where
  "request_resolve_key fld rc key =
     (case strip_prefix_ci key principal_tag_prefix of
        Some sub \<Rightarrow> tag_lookup (rc_principal_tags rc) sub fld
      | None \<Rightarrow>
          (case strip_prefix_ci key request_tag_prefix of
             Some sub \<Rightarrow>
               (case request_tag_values fld rc sub of Tag_Value v \<Rightarrow> Some [v] | Tag_Absent \<Rightarrow> None | Tag_Ambiguous \<Rightarrow> None)
           | None \<Rightarrow>
               (case strip_prefix_ci key resource_tag_prefix of
                  Some sub \<Rightarrow> tag_lookup (rc_resource_tags rc) sub fld
                | None \<Rightarrow> (case map_of (request_keys rc) (fld key) of Some v \<Rightarrow> v | None \<Rightarrow> None))))"

definition request_is_unresolvable_key :: "(string \<Rightarrow> string) \<Rightarrow> RequestContext \<Rightarrow> string \<Rightarrow> bool" where
  "request_is_unresolvable_key fld rc key =
     (case strip_prefix_ci key request_tag_prefix of
        Some sub \<Rightarrow> request_tag_values fld rc sub = Tag_Ambiguous
      | None \<Rightarrow> aws_key_is_unresolvable fld key)"

definition request_context :: "(string \<Rightarrow> string) \<Rightarrow> RequestContext \<Rightarrow> ConditionContext" where
  "request_context fld rc =
     \<lparr>resolve_key = request_resolve_key fld rc,
      is_multivalued_key = (\<lambda>key. fld key \<in> {''dynamodb:leadingkeys'', ''dynamodb:attributes'', ''aws:tagkeys''}),
      is_unresolvable_key = request_is_unresolvable_key fld rc,
      bare_negated_matches_absent_multivalued_key = (\<lambda>key. fld key = ''aws:tagkeys'')\<rparr>"

subsection \<open>The context of \<open>AssumeRole\<close>\<close>

record AssumeRoleContext =
  ar_principal_tags :: "(string \<times> string) list"
  ar_external_id :: "string option"
  ar_session_name :: "string option"
  ar_principal_arn :: string
  ar_principal_account :: "string option"
  ar_request_tags :: "(string \<times> string) list"
  ar_region :: "string option"
  ar_secure_transport :: bool
  ar_principal_type :: "string option"
  ar_username :: "string option"
  ar_source_ip :: "string option"
  ar_user_agent :: "string option"
  ar_userid :: "string option"
  ar_resource_account :: "string option"
  ar_current_time :: string
  ar_epoch_time :: string

definition assume_role_keys :: "AssumeRoleContext \<Rightarrow> (string \<times> string list option) list" where
  "assume_role_keys ar =
    [(''sts:externalid'', single (ar_external_id ar)),
     (''sts:rolesessionname'', single (ar_session_name ar)),
     (''aws:principalarn'', Some [ar_principal_arn ar]),
     (''aws:principalaccount'', single (ar_principal_account ar)),
     (''aws:requestedregion'', single (ar_region ar)),
     (''aws:securetransport'', Some [bool_text (ar_secure_transport ar)]),
     (''aws:currenttime'', Some [ar_current_time ar]),
     (''aws:epochtime'', Some [ar_epoch_time ar]),
     (''aws:principaltype'', single (ar_principal_type ar)),
     (''aws:username'', single (ar_username ar)),
     (''aws:sourceip'', single (ar_source_ip ar)),
     (''aws:useragent'', single (ar_user_agent ar)),
     (''aws:userid'', single (ar_userid ar)),
     (''aws:resourceaccount'', single (ar_resource_account ar)),
     (''aws:viaawsservice'', Some [''false'']),
     (''aws:principalisawsservice'', Some [''false'']),
     (''aws:tagkeys'', if ar_request_tags ar = [] then None else Some (map fst (ar_request_tags ar)))]"

definition assume_role_resolve_key :: "AssumeRoleContext \<Rightarrow> string \<Rightarrow> string list option" where
  "assume_role_resolve_key ar key =
     (case strip_prefix_ci key principal_tag_prefix of
        Some sub \<Rightarrow> tag_lookup (ar_principal_tags ar) sub to_ascii_lowercase
      | None \<Rightarrow>
          (case strip_prefix_ci key request_tag_prefix of
             Some sub \<Rightarrow> tag_lookup (ar_request_tags ar) sub to_ascii_lowercase
           | None \<Rightarrow> (case map_of (assume_role_keys ar) (to_ascii_lowercase key) of Some v \<Rightarrow> v | None \<Rightarrow> None)))"

text \<open>The trait's default applies to \<open>bare_negated_matches_absent_multivalued_key\<close>.\<close>

definition assume_role_context :: "(string \<Rightarrow> string) \<Rightarrow> AssumeRoleContext \<Rightarrow> ConditionContext" where
  "assume_role_context fld ar =
     \<lparr>resolve_key = assume_role_resolve_key ar,
      is_multivalued_key = (\<lambda>key. eq_ignore_ascii_case key ''aws:TagKeys''),
      is_unresolvable_key = aws_key_is_unresolvable fld,
      bare_negated_matches_absent_multivalued_key = (\<lambda>_. False)\<rparr>"

subsection \<open>Tag lookups\<close>

text \<open>The values of the tags whose name folds to \<open>k\<close>: the order in which a map is walked plays no part.\<close>

definition tag_values :: "(string \<Rightarrow> string) \<Rightarrow> (string \<times> string) list \<Rightarrow> string \<Rightarrow> string set" where
  "tag_values fld tags k = {v. \<exists>n. (n, v) \<in> set tags \<and> fld n = k}"

lemma tag_values_snoc: "tag_values fld (tags @ [nv]) k = tag_values fld tags k \<union> (if fld (fst nv) = k then {snd nv} else {})"
  by (cases nv) (auto simp: tag_values_def)

lemma map_of_filter_other: "k' \<noteq> k \<Longrightarrow> map_of (filter (\<lambda>e. fst e \<noteq> k) m) k' = map_of m k'"
  by (induction m) auto

lemma map_of_index_tag:
  "map_of (index_tag fld nv ix) k =
     (if fld (fst nv) \<noteq> k then map_of ix k
      else Some (case map_of ix k of
          None \<Rightarrow> FT_Value (snd nv)
        | Some (FT_Value seen) \<Rightarrow> if seen \<noteq> snd nv then FT_Ambiguous else FT_Value seen
        | Some FT_Ambiguous \<Rightarrow> FT_Ambiguous))"
  by (auto simp: index_tag_def Let_def map_of_filter_other split: option.split FoldedTag.split)

text \<open>What a slot of the index says of the values seen so far.\<close>

definition slot_says :: "FoldedTag option \<Rightarrow> string set \<Rightarrow> bool" where
  "slot_says slot vs =
     (case slot of
        None \<Rightarrow> vs = {}
      | Some (FT_Value v) \<Rightarrow> vs = {v}
      | Some FT_Ambiguous \<Rightarrow> \<exists>v w. v \<in> vs \<and> w \<in> vs \<and> v \<noteq> w)"

lemma new_index_slot: "slot_says (map_of (new_index fld tags) k) (tag_values fld tags k)"
proof (induction tags rule: rev_induct)
  case Nil
  then show ?case by (simp add: new_index_def slot_says_def tag_values_def)
next
  case (snoc nv tags)
  have step: "new_index fld (tags @ [nv]) = index_tag fld nv (new_index fld tags)" by (simp add: new_index_def)
  consider "map_of (new_index fld tags) k = None" | v where "map_of (new_index fld tags) k = Some (FT_Value v)"
    | "map_of (new_index fld tags) k = Some FT_Ambiguous"
    using FoldedTag.exhaust by (metis option.exhaust)
  then show ?case
    by cases (use snoc in \<open>auto simp: step slot_says_def map_of_index_tag tag_values_snoc\<close>)
qed

lemma lookup_index_iff:
  "lookup_index fld (new_index fld tags) sub = Tag_Absent \<longleftrightarrow> tag_values fld tags (fld sub) = {}"
  "lookup_index fld (new_index fld tags) sub = Tag_Value v \<longleftrightarrow> tag_values fld tags (fld sub) = {v}"
  "lookup_index fld (new_index fld tags) sub = Tag_Ambiguous \<longleftrightarrow>
     (\<exists>v \<in> tag_values fld tags (fld sub). \<exists>w \<in> tag_values fld tags (fld sub). v \<noteq> w)"
proof -
  consider (none) "map_of (new_index fld tags) (fld sub) = None"
    | (val) u where "map_of (new_index fld tags) (fld sub) = Some (FT_Value u)"
    | (amb) "map_of (new_index fld tags) (fld sub) = Some FT_Ambiguous"
    using FoldedTag.exhaust by (metis option.exhaust)
  then show "lookup_index fld (new_index fld tags) sub = Tag_Absent \<longleftrightarrow> tag_values fld tags (fld sub) = {}"
    "lookup_index fld (new_index fld tags) sub = Tag_Value v \<longleftrightarrow> tag_values fld tags (fld sub) = {v}"
    "lookup_index fld (new_index fld tags) sub = Tag_Ambiguous \<longleftrightarrow>
       (\<exists>v \<in> tag_values fld tags (fld sub). \<exists>w \<in> tag_values fld tags (fld sub). v \<noteq> w)"
    by (cases; use new_index_slot [of fld tags "fld sub"] in \<open>force simp: lookup_index_def slot_says_def\<close>)+
qed

lemma min_by_key_None [simp]: "min_by_key xs = None \<longleftrightarrow> xs = []"
  by (cases xs) (auto split: option.split)

lemma min_by_key_Some:
  "min_by_key xs = Some e \<Longrightarrow> e \<in> set xs \<and> (\<forall>x \<in> set xs. fst e \<le> fst x)"
  by (induction xs arbitrary: e) (fastforce split: option.split_asm if_split_asm)+

text \<open>The lookup of a tag depends on the entries of the map alone.\<close>

lemma tag_lookup_order_free:
  assumes "set m = set m'" "distinct (map fst m)" "distinct (map fst m')"
  shows "tag_lookup m sub norm = tag_lookup m' sub norm"
proof -
  let ?f = "filter (\<lambda>e. norm (fst e) = norm sub)"
  have eq: "map_of m = map_of m'" by (rule map_of_inject_set [THEN iffD2, OF assms(2,3,1)])
  have "min_by_key (?f m) = min_by_key (?f m')"
  proof (cases "?f m = []")
    case True
    then have "?f m' = []" using assms(1) by (auto simp: filter_empty_conv)
    with True show ?thesis by (simp del: filter.simps)
  next
    case False
    moreover from False have "?f m' \<noteq> []" using assms(1) by (auto simp: filter_empty_conv)
    ultimately obtain e e' where e: "min_by_key (?f m) = Some e" "min_by_key (?f m') = Some e'"
      by (meson min_by_key_None not_Some_eq)
    have same: "set (?f m) = set (?f m')" using assms(1) by simp
    from min_by_key_Some [OF e(1)] have 1: "e \<in> set (?f m)" "\<forall>x \<in> set (?f m). fst e \<le> fst x" by auto
    from min_by_key_Some [OF e(2)] have 2: "e' \<in> set (?f m)" "\<forall>x \<in> set (?f m). fst e' \<le> fst x"
      unfolding same by auto
    have "fst e = fst e'" by (rule antisym) (use 1 2 in blast)+
    moreover have "e \<in> set m" "e' \<in> set m" using 1(1) 2(1) by auto
    ultimately have "e = e'" using assms(2) by (metis eq_key_imp_eq_value prod.collapse)
    with e show ?thesis by simp
  qed
  with eq show ?thesis by (simp add: tag_lookup_def Let_def split: option.split)
qed


lemma strip_prefix_ci_lower:
  assumes "strip_prefix_ci key pre = Some sub"
  shows "map ascii_lower (take (length pre) key) = map ascii_lower pre"
  using assms by (auto simp: strip_prefix_ci_def eq_ignore_ascii_case_def to_ascii_lowercase_def split: if_split_asm)

lemma request_tag_prefix_only:
  assumes "strip_prefix_ci key request_tag_prefix = Some sub"
  shows "strip_prefix_ci key principal_tag_prefix = None"
proof (rule ccontr)
  assume "strip_prefix_ci key principal_tag_prefix \<noteq> None"
  then obtain t where "strip_prefix_ci key principal_tag_prefix = Some t" by blast
  from strip_prefix_ci_lower [OF this]
  have "take 5 (map ascii_lower (take (length principal_tag_prefix) key)) = take 5 (map ascii_lower principal_tag_prefix)"
    by simp
  moreover from strip_prefix_ci_lower [OF assms]
  have "take 5 (map ascii_lower (take (length request_tag_prefix) key)) = take 5 (map ascii_lower request_tag_prefix)"
    by simp
  moreover have "take 5 (map ascii_lower principal_tag_prefix) \<noteq> take 5 (map ascii_lower request_tag_prefix)"
    by code_simp
  moreover have "length principal_tag_prefix = 17" "length request_tag_prefix = 15"
    by (simp_all add: principal_tag_prefix_def request_tag_prefix_def)
  ultimately show False by (simp add: take_map)
qed

text \<open>
  C36: In the context of a request, \<open>aws:RequestTag/<name>\<close> has the value \<open>v\<close> exactly when every tag of the request
  whose name folds to the name carries \<open>v\<close> and there is one; it is unresolvable, so that statements on it fail
  closed, exactly when two such tags carry different values; otherwise it is absent.  The order in which the
  request's tags are walked plays no part.
\<close>

theorem request_tag_resolution:
  assumes "strip_prefix_ci key request_tag_prefix = Some sub"
  shows "let vs = (case p_request_tags params of None \<Rightarrow> {} | Some tags \<Rightarrow> tag_values fld tags (fld sub));
      ctx = request_context fld (RequestContext_build fld now ptags rtags is_scan params)
    in (resolve_key ctx key = Some [v] \<longleftrightarrow> vs = {v}) \<and> (resolve_key ctx key = None \<longleftrightarrow> (\<nexists>u. vs = {u})) \<and>
       (is_unresolvable_key ctx key \<longleftrightarrow> (\<exists>u w. u \<in> vs \<and> w \<in> vs \<and> u \<noteq> w))"
proof -
  note no = request_tag_prefix_only [OF assms]
  show ?thesis
  proof (cases "p_request_tags params")
    case None
    then show ?thesis
      by (simp add: request_context_def RequestContext_build_def request_resolve_key_def request_is_unresolvable_key_def
          request_tag_values_def from_tags_def assms no)
  next
    case (Some tags)
    let ?L = "lookup_index fld (new_index fld tags) sub"
    have v: "request_tag_values fld (RequestContext_build fld now ptags rtags is_scan params) sub = ?L"
      by (simp add: RequestContext_build_def request_tag_values_def from_tags_def Some new_index_def lookup_index_def)
    have "(case ?L of Tag_Value v \<Rightarrow> Some [v] | Tag_Absent \<Rightarrow> None | Tag_Ambiguous \<Rightarrow> None) = Some [v] \<longleftrightarrow> ?L = Tag_Value v"
      "(case ?L of Tag_Value v \<Rightarrow> Some [v] | Tag_Absent \<Rightarrow> None | Tag_Ambiguous \<Rightarrow> None) = None \<longleftrightarrow> (\<nexists>u. ?L = Tag_Value u)"
      by (cases ?L; simp)+
    then show ?thesis
      unfolding Let_def Some option.case request_context_def ConditionContext.simps request_resolve_key_def
        request_is_unresolvable_key_def assms no v lookup_index_iff
      by blast
  qed
qed

definition sample_params :: "(string \<times> string) list \<Rightarrow> RequestParams" where
  "sample_params tags =
     \<lparr>p_leading_keys = None, p_attributes = None, p_select = None, p_return_values = None,
      p_return_consumed_capacity = None, p_enclosing_operation = None, p_principal_arn = None,
      p_principal_account = None, p_region = None, p_secure_transport = True, p_principal_type = None,
      p_username = None, p_source_ip = None, p_user_agent = None, p_userid = None, p_resource_account = None,
      p_token_issue_time = None, p_multi_factor_auth_present = None, p_request_tags = Some tags,
      p_request_tag_keys = Some (map fst tags)\<rparr>"

definition sample_request :: "(string \<times> string) list \<Rightarrow> ConditionContext" where
  "sample_request tags =
     request_context to_ascii_lowercase (RequestContext_build to_ascii_lowercase ([], []) [] [] False (sample_params tags))"

theorem request_tag_resolution_witness:
  "is_unresolvable_key (sample_request [(''Env'', ''prod''), (''env'', ''dev'')]) ''aws:RequestTag/ENV''"
proof -
  have "strip_prefix_ci ''aws:RequestTag/ENV'' request_tag_prefix = Some ''ENV''" by code_simp
  note R = request_tag_resolution [OF this, where params = "sample_params [(''Env'', ''prod''), (''env'', ''dev'')]"
      and fld = to_ascii_lowercase and now = "([], [])" and ptags = "[]" and rtags = "[]" and is_scan = False, unfolded Let_def, THEN conjunct2, THEN conjunct2]
  have opt: "p_request_tags (sample_params tags) = Some tags" for tags by (simp add: sample_params_def)
  have mem: "v \<in> tag_values fld tags k" if "(n, v) \<in> set tags" "fld n = k" for fld tags k n v
    using that unfolding tag_values_def by blast
  have "\<exists>u w. u \<in> tag_values to_ascii_lowercase [(''Env'', ''prod''), (''env'', ''dev'')] (to_ascii_lowercase ''ENV'') \<and>
      w \<in> tag_values to_ascii_lowercase [(''Env'', ''prod''), (''env'', ''dev'')] (to_ascii_lowercase ''ENV'') \<and> u \<noteq> w"
  proof (intro exI conjI)
    show "''prod'' \<in> tag_values to_ascii_lowercase [(''Env'', ''prod''), (''env'', ''dev'')] (to_ascii_lowercase ''ENV'')"
      by (rule mem [of "''Env''"]) (simp, code_simp)
    show "''dev'' \<in> tag_values to_ascii_lowercase [(''Env'', ''prod''), (''env'', ''dev'')] (to_ascii_lowercase ''ENV'')"
      by (rule mem [of "''env''"]) (simp, code_simp)
  qed simp
  then show ?thesis unfolding sample_request_def R opt option.case .
qed

end
