(* ===== verification/Policy_Variables.thy ===== *)
theory Policy_Variables
  imports Policy_Document Policy_Context
begin

text \<open>
  \<open>crates/auth/src/policy/variables.rs\<close>: the expansion of \<open>${...}\<close> references in resource patterns and condition
  values.  Expansion makes tokens, so that what the policy wrote and what a request supplied stay apart.
\<close>

subsection \<open>References\<close>

datatype VarToken = Star | Question | Colon | Unit u16

definition Token_written :: "u16 \<Rightarrow> VarToken" where
  "Token_written unit = (if unit = 0x2A then Star else if unit = 0x3F then Question else if unit = 0x3A then Colon else Unit unit)"

datatype Reference = Ref_Key string "string option" | Ref_Escape char

text \<open>The characters up to the space are single bytes, and no byte of another character is one of them.\<close>

definition trim_up_to_space :: "string \<Rightarrow> string" where
  "trim_up_to_space text = rev (dropWhile (\<lambda>c. c \<le> CHR '' '') (rev (dropWhile (\<lambda>c. c \<le> CHR '' '') text)))"

definition parse_reference :: "string \<Rightarrow> Reference" where
  "parse_reference inner0 =
     (let inner = trim_up_to_space inner0
      in if inner = ''*'' then Ref_Escape CHR ''*''
         else if inner = ''?'' then Ref_Escape CHR ''?''
         else if inner = ''$'' then Ref_Escape CHR ''$''
         else
           (case split_once (\<lambda>c. c = CHR '','') inner of
              Some (name, dflt0) \<Rightarrow>
                (let dflt = trim_up_to_space dflt0
                 in if 2 \<le> length dflt \<and> hd dflt = CHR 0x27 \<and> last dflt = CHR 0x27
                    then Ref_Key (trim_up_to_space name) (Some (take (length dflt - 2) (drop 1 dflt)))
                    else Ref_Key inner None)
            | None \<Rightarrow> Ref_Key inner None))"

text \<open>A part keeps the raw text of a reference, braces included.\<close>

datatype Part = Text string | Ref string Reference

definition dollar_brace :: string where
  "dollar_brace = [CHR 0x24, CHR 0x7B]"

lemma find_sub_Some: "find_sub s p = Some i \<Longrightarrow> i + length p \<le> length s"
proof (induction s arbitrary: i)
  case (Cons c s)
  then show ?case by (auto simp: starts_with_iff dest: arg_cong [of _ _ length] split: if_split_asm)
qed (simp split: if_split_asm)

text \<open>The loop of \<open>parts\<close>: what it pushes from \<open>rest\<close> on.\<close>

function (sequential) parts :: "string \<Rightarrow> Part list" where
  "parts rest =
     (case find_sub rest dollar_brace of
        None \<Rightarrow> [Text rest]
      | Some start \<Rightarrow>
          let after_start = drop (start + 2) rest
          in case find_sub after_start [CHR 0x7D] of
               Some end' \<Rightarrow>
                 Text (take start rest) # Ref (take (3 + end') (drop start rest)) (parse_reference (take end' after_start))
                   # parts (drop (end' + 1) after_start)
             | None \<Rightarrow> [Text (take start rest), Text (drop start rest), Text []])"
  by pat_completeness auto

termination
  by (relation "measure length") (auto simp: dollar_brace_def dest!: find_sub_Some)

declare parts.simps [simp del]

subsection \<open>Expansion\<close>

datatype Missing = Absent | Unresolvable

definition resolve :: "string \<Rightarrow> string option \<Rightarrow> ConditionContext \<Rightarrow> Missing + string" where
  "resolve name dflt context =
     (let values = resolve_key context name
      in if values = None \<and> is_unresolvable_key context name then Inl Unresolvable
         else if is_multivalued_key context name then
           (case values of Some _ \<Rightarrow> Inl Absent | None \<Rightarrow> ok_or dflt Absent)
         else
           (case values of
              Some vs \<Rightarrow> Inr (case vs of [] \<Rightarrow> [] | v # _ \<Rightarrow> v)
            | None \<Rightarrow> ok_or dflt Absent))"

text \<open>
  One iteration of the loop of \<open>expand_tokens\<close> on its two mutable variables.
\<close>

definition expand_part :: "ConditionContext \<Rightarrow> VarToken list \<times> bool \<Rightarrow> Part \<Rightarrow> Missing + VarToken list \<times> bool" where
  "expand_part context st part =
     (case st of (tokens, unresolvable) \<Rightarrow>
        (case part of
           Text text \<Rightarrow> Inr (tokens @ map Token_written (encode_utf16 text), unresolvable)
         | Ref _ (Ref_Escape byte) \<Rightarrow> Inr (tokens @ [Unit (u16_of_byte byte)], unresolvable)
         | Ref _ (Ref_Key name dflt) \<Rightarrow>
             (case resolve name dflt context of
                Inr v \<Rightarrow> Inr (tokens @ map Unit (encode_utf16 v), unresolvable)
              | Inl Unresolvable \<Rightarrow> Inr (tokens, True)
              | Inl Absent \<Rightarrow> Inl Absent)))"

definition expand_tokens :: "string \<Rightarrow> ConditionContext \<Rightarrow> Missing + VarToken list" where
  "expand_tokens pattern context =
     bind_r (try_fold (expand_part context) ([], False) (parts pattern)) (\<lambda>(tokens, unresolvable).
       if unresolvable then Inl Unresolvable else Inr tokens)"

subsection \<open>Matching tokens\<close>

definition token_matches :: "VarToken \<Rightarrow> u16 \<Rightarrow> bool" where
  "token_matches t u \<longleftrightarrow> t = Question \<or> t = Unit u \<or> (t = Colon \<and> u = 0x3A)"

definition match_tokens :: "VarToken list \<Rightarrow> u16 list \<Rightarrow> bool" where
  "match_tokens p v = (case greedy_match (\<lambda>t. t = Star) token_matches p v of Some b \<Rightarrow> b | None \<Rightarrow> False)"

text \<open>\<open>split_fields\<close> cuts at the first five written colons.\<close>

fun split_fields_from :: "nat \<Rightarrow> VarToken list \<Rightarrow> VarToken list list" where
  "split_fields_from 0 rest = [rest]"
| "split_fields_from (Suc n) rest =
     (case split_once (\<lambda>t. t = Colon) rest of
        Some (field, rest') \<Rightarrow> field # split_fields_from n rest'
      | None \<Rightarrow> [rest])"

definition split_fields :: "VarToken list \<Rightarrow> VarToken list list" where
  "split_fields pattern = split_fields_from 5 pattern"

definition arn_match_tokens :: "VarToken list \<Rightarrow> string \<Rightarrow> bool" where
  "arn_match_tokens pattern val =
     (if pattern = [Star] then True
      else
        let p_fields = split_fields pattern; v_fields = splitn 6 is_colon val
        in if length p_fields \<noteq> length v_fields then False
           else list_all (\<lambda>(p, v). match_tokens p (encode_utf16 v)) (zip p_fields v_fields))"

definition resource_pattern_matches :: "string \<Rightarrow> string \<Rightarrow> bool \<Rightarrow> ConditionContext \<Rightarrow> bool" where
  "resource_pattern_matches pattern resource_arn expand context =
     (if \<not> expand \<or> \<not> contains_sub pattern dollar_brace then arn_match pattern resource_arn
      else case expand_tokens pattern context of
        Inr tokens \<Rightarrow> arn_match_tokens tokens resource_arn
      | Inl _ \<Rightarrow> False)"

definition resource_pattern_is_unresolvable :: "string \<Rightarrow> bool \<Rightarrow> ConditionContext \<Rightarrow> bool" where
  "resource_pattern_is_unresolvable pattern expand context \<longleftrightarrow>
     expand \<and> contains_sub pattern dollar_brace \<and> expand_tokens pattern context = Inl Unresolvable"

definition variable_key_names :: "string \<Rightarrow> string list" where
  "variable_key_names val =
     List.map_filter (\<lambda>part. case part of Ref _ (Ref_Key name _) \<Rightarrow> Some name | _ \<Rightarrow> None) (parts val)"

subsection \<open>Condition values\<close>

datatype ConditionValue =
    CV_Literal string
  | CV_Expanded string "VarToken list"
  | CV_Unresolved

definition CV_text :: "ConditionValue \<Rightarrow> string option" where
  "CV_text cv = (case cv of CV_Literal t \<Rightarrow> Some t | CV_Expanded t _ \<Rightarrow> Some t | CV_Unresolved \<Rightarrow> None)"

definition wildcard_matches :: "ConditionValue \<Rightarrow> string \<Rightarrow> bool" where
  "wildcard_matches cv val =
     (case cv of
        CV_Literal pattern \<Rightarrow> wildcard_match pattern val
      | CV_Expanded _ tokens \<Rightarrow> match_tokens tokens (encode_utf16 val)
      | CV_Unresolved \<Rightarrow> False)"

definition arn_matches :: "ConditionValue \<Rightarrow> string \<Rightarrow> bool" where
  "arn_matches cv val =
     (case cv of
        CV_Literal pattern \<Rightarrow> arn_match pattern val
      | CV_Expanded _ tokens \<Rightarrow> arn_match_tokens tokens val
      | CV_Unresolved \<Rightarrow> False)"

text \<open>The loop of \<open>expand_condition_value\<close>; \<open>None\<close> is its early return.\<close>

fun expand_value_parts :: "ConditionContext \<Rightarrow> string \<Rightarrow> VarToken list \<Rightarrow> Part list \<Rightarrow> ConditionValue" where
  "expand_value_parts context text tokens [] = CV_Expanded text tokens"
| "expand_value_parts context text tokens (Text written # ps) =
     expand_value_parts context (text @ written) (tokens @ map Token_written (encode_utf16 written)) ps"
| "expand_value_parts context text tokens (Ref _ (Ref_Escape byte) # ps) =
     expand_value_parts context (text @ [byte]) (tokens @ [Unit (u16_of_byte byte)]) ps"
| "expand_value_parts context text tokens (Ref _ (Ref_Key name dflt) # ps) =
     (case resolve name dflt context of
        Inr resolved \<Rightarrow>
          expand_value_parts context (text @ resolved) (tokens @ map Unit (encode_utf16 resolved)) ps
      | Inl _ \<Rightarrow> CV_Unresolved)"

definition expand_condition_value :: "string \<Rightarrow> bool \<Rightarrow> ConditionContext \<Rightarrow> ConditionValue" where
  "expand_condition_value val expand context =
     (if \<not> expand \<or> \<not> contains_sub val dollar_brace then CV_Literal val
      else expand_value_parts context [] [] (parts val))"

definition arn_value_lacks_fields :: "string \<Rightarrow> bool" where
  "arn_value_lacks_fields val \<longleftrightarrow>
     contains_sub val dollar_brace \<and>
     sum_list (map (\<lambda>part. case part of Text text \<Rightarrow> length (filter is_colon text) | Ref _ _ \<Rightarrow> 0) (parts val)) < 5"

subsection \<open>Substituted text is literal\<close>

text \<open>Regrouping three pieces.\<close>

lemma piece_assoc:
  "(\<exists>a w. v = a @ w \<and> P a \<and> (\<exists>b c. w = b @ c \<and> Q b \<and> R c)) \<longleftrightarrow>
     (\<exists>u c. v = u @ c \<and> (\<exists>a b. u = a @ b \<and> P a \<and> Q b) \<and> R c)"
proof
  assume "\<exists>a w. v = a @ w \<and> P a \<and> (\<exists>b c. w = b @ c \<and> Q b \<and> R c)"
  then obtain a b c where "v = (a @ b) @ c" "P a" "Q b" "R c" by auto
  then show "\<exists>u c. v = u @ c \<and> (\<exists>a b. u = a @ b \<and> P a \<and> Q b) \<and> R c" by blast
next
  assume "\<exists>u c. v = u @ c \<and> (\<exists>a b. u = a @ b \<and> P a \<and> Q b) \<and> R c"
  then obtain a b c where "v = a @ (b @ c)" "P a" "Q b" "R c" by auto
  then show "\<exists>a w. v = a @ w \<and> P a \<and> (\<exists>b c. w = b @ c \<and> Q b \<and> R c)" by blast
qed

lemma glob_Cons:
  "glob star eq (c # p) v \<longleftrightarrow> (\<exists>a w. v = a @ w \<and> (star c \<or> (\<exists>x. a = [x] \<and> eq c x)) \<and> glob star eq p w)"
proof (cases "star c")
  case True
  then show ?thesis by (auto intro: glob_star elim!: glob_ConsE)
next
  case False
  have "(\<exists>u w. v = u # w \<and> eq c u \<and> glob star eq p w) \<longleftrightarrow> (\<exists>a w. v = a @ w \<and> (\<exists>x. a = [x] \<and> eq c x) \<and> glob star eq p w)"
    by (metis append_Cons append_Nil)
  with False show ?thesis by (simp add: glob_Cons_one)
qed

lemma glob_append: "glob star eq (p @ q) v \<longleftrightarrow> (\<exists>u w. v = u @ w \<and> glob star eq p u \<and> glob star eq q w)"
proof (induction p arbitrary: v)
  case (Cons c p)
  show ?case unfolding append_Cons glob_Cons Cons.IH by (rule piece_assoc)
qed simp

lemma glob_exact:
  "(\<And>a b. a \<in> set p \<Longrightarrow> \<not> star (f a) \<and> (eq (f a) b \<longleftrightarrow> b = a)) \<Longrightarrow> glob star eq (map f p) v \<longleftrightarrow> v = p"
  by (induction p arbitrary: v) (auto simp: glob_Cons_one)

abbreviation token_glob :: "VarToken list \<Rightarrow> u16 list \<Rightarrow> bool" where
  "token_glob \<equiv> glob (\<lambda>t. t = Star) token_matches"

lemma match_tokens_glob: "match_tokens p v \<longleftrightarrow> token_glob p v"
  by (simp add: match_tokens_def greedy_match_glob)

lemma token_glob_units: "token_glob (map Unit us) v \<longleftrightarrow> v = us"
  by (rule glob_exact) (auto simp: token_matches_def)

lemma token_glob_written:
  "token_glob (map Token_written us) v \<longleftrightarrow> glob (\<lambda>c. c = STAR unit_u16) (unit_matches unit_u16 False) us v"
proof -
  have "token_glob (map Token_written us) (map id v) \<longleftrightarrow>
      glob (\<lambda>c. c = STAR unit_u16) (unit_matches unit_u16 False) us v"
    by (rule glob_map) (auto simp: Token_written_def unit_u16_def unit_matches_def token_matches_def)
  then show ?thesis by simp
qed

text \<open>
  What one part of a policy string stands for: written text is a pattern, a reference is one text and nothing
  else, and a variable without a value stands for nothing.
\<close>

fun part_accepts :: "ConditionContext \<Rightarrow> Part \<Rightarrow> u16 list \<Rightarrow> bool" where
  "part_accepts context (Text written) us =
     glob (\<lambda>c. c = STAR unit_u16) (unit_matches unit_u16 False) (encode_utf16 written) us"
| "part_accepts context (Ref _ (Ref_Escape byte)) us = (us = [u16_of_byte byte])"
| "part_accepts context (Ref _ (Ref_Key name dflt)) us =
     (case resolve name dflt context of Inr v \<Rightarrow> us = encode_utf16 v | Inl _ \<Rightarrow> False)"

definition parts_accept :: "ConditionContext \<Rightarrow> Part list \<Rightarrow> u16 list \<Rightarrow> bool" where
  "parts_accept context ps us \<longleftrightarrow> (\<exists>pieces. us = concat pieces \<and> list_all2 (part_accepts context) ps pieces)"

lemma parts_accept_Nil [simp]: "parts_accept context [] us \<longleftrightarrow> us = []"
  by (simp add: parts_accept_def)

lemma parts_accept_Cons:
  "parts_accept context (p # ps) us \<longleftrightarrow>
     (\<exists>u w. us = u @ w \<and> part_accepts context p u \<and> parts_accept context ps w)"
proof
  assume "parts_accept context (p # ps) us"
  then show "\<exists>u w. us = u @ w \<and> part_accepts context p u \<and> parts_accept context ps w"
    by (auto simp: parts_accept_def list_all2_Cons1) blast
next
  assume "\<exists>u w. us = u @ w \<and> part_accepts context p u \<and> parts_accept context ps w"
  then obtain u pieces where "us = concat (u # pieces)" "list_all2 (part_accepts context) (p # ps) (u # pieces)"
    by (auto simp: parts_accept_def)
  then show "parts_accept context (p # ps) us" unfolding parts_accept_def by blast
qed

lemma expand_value_parts_matches:
  "wildcard_matches (expand_value_parts ctx t tokens ps) s \<longleftrightarrow>
     (\<exists>u w. encode_utf16 s = u @ w \<and> token_glob tokens u \<and> parts_accept ctx ps w)"
proof (induction ctx t tokens ps rule: expand_value_parts.induct)
  case (1 ctx t tokens)
  then show ?case by (simp add: wildcard_matches_def match_tokens_glob)
next
  case (2 ctx t tokens written ps)
  show ?case
    unfolding expand_value_parts.simps 2 parts_accept_Cons part_accepts.simps glob_append token_glob_written
    by (rule piece_assoc [symmetric])
next
  case (3 ctx t tokens r byte ps)
  have "token_glob [Unit (u16_of_byte byte)] u \<longleftrightarrow> u = [u16_of_byte byte]" for u
    using token_glob_units [of "[u16_of_byte byte]"] by simp
  then show ?case
    unfolding expand_value_parts.simps 3 parts_accept_Cons part_accepts.simps glob_append
    by (simp only: piece_assoc)
next
  case (4 ctx t tokens r name dflt ps)
  show ?case
  proof (cases "resolve name dflt ctx")
    case (Inr v)
    have "wildcard_matches (expand_value_parts ctx t tokens (Ref r (Ref_Key name dflt) # ps)) s \<longleftrightarrow>
        (\<exists>u w. encode_utf16 s = u @ w \<and> (\<exists>a b. u = a @ b \<and> token_glob tokens a \<and> b = encode_utf16 v) \<and>
           parts_accept ctx ps w)"
      using 4 [OF Inr] unfolding expand_value_parts.simps Inr sum.case glob_append token_glob_units .
    also have "\<dots> \<longleftrightarrow> (\<exists>u w. encode_utf16 s = u @ w \<and> token_glob tokens u \<and>
        parts_accept ctx (Ref r (Ref_Key name dflt) # ps) w)"
      unfolding parts_accept_Cons part_accepts.simps Inr sum.case by (rule piece_assoc [symmetric])
    finally show ?thesis .
  qed (simp add: wildcard_matches_def parts_accept_Cons)
qed

text \<open>
  C37: A string matches an expanded condition value exactly when its UTF-16 code units can be cut into one piece per
  part of the value, where written text is read as a wildcard pattern and the piece of a variable, a default or
  an escape is that text itself: no value that a request supplies can widen a pattern.
\<close>

theorem expanded_value_is_literal:
  "wildcard_matches (expand_condition_value val True context) s \<longleftrightarrow> parts_accept context (parts val) (encode_utf16 s)"
proof (cases "contains_sub val dollar_brace")
  case True
  then show ?thesis
    by (simp add: expand_condition_value_def expand_value_parts_matches)
next
  case False
  then have "find_sub val dollar_brace = None" by (simp add: contains_sub_def)
  then have "parts val = [Text val]" by (simp add: parts.simps)
  with False show ?thesis
    by (simp add: expand_condition_value_def wildcard_matches_def wildcard_match_def wildcard_match_is_glob
        parts_accept_Cons)
qed

end
