(* ===== verification/Rust_F64.thy ===== *)
theory Rust_F64
  imports Rust_Prelude Complex_Main "HOL-Library.Log_Nat"
begin

text \<open>
  \<open>f64\<close> of the Rust language as far as the policy conditions use it: parsing with rounding to the nearest
  representable number, ties to even, the partial order, multiplication and the saturating conversion to \<open>i128\<close>.
  A finite number is its exact rational value; the sign of a zero is not kept, since no comparison sees it.
\<close>

datatype f64 = F_NaN | F_Inf bool | F_Fin rat

subsection \<open>Rounding\<close>

definition round_half_even :: "rat \<Rightarrow> int" where
  "round_half_even x =
     (let f = floor x; d = x - of_int f
      in if d < 1 / 2 then f else if 1 / 2 < d then f + 1 else if even f then f else f + 1)"

text \<open>\<open>floor_log2 x\<close> is the binary exponent of a positive \<open>x\<close>, from the bit lengths of its two parts.\<close>

definition floor_log2 :: "rat \<Rightarrow> int" where
  "floor_log2 x =
     (case quotient_of x of (p, q) \<Rightarrow>
        let k = int (floorlog 2 (nat p)) - int (floorlog 2 (nat q))
        in if 2 powi k \<le> x then k else k - 1)"

text \<open>52 fraction bits, least exponent \<open>-1074\<close>, values from \<open>2 ^ 1024\<close> on become infinite.\<close>

definition round_f64 :: "rat \<Rightarrow> f64" where
  "round_f64 x =
     (if x = 0 then F_Fin 0
      else
        let e = max (- 1074) (floor_log2 \<bar>x\<bar> - 52);
            r = of_int (round_half_even (\<bar>x\<bar> / 2 powi e)) * 2 powi e
        in if 2 ^ 1024 \<le> r then F_Inf (x < 0) else F_Fin (if x < 0 then - r else r))"

subsection \<open>Parsing\<close>

text \<open>An optional sign: whether it was a minus, and the rest.\<close>

definition split_sign :: "string \<Rightarrow> bool \<times> string" where
  "split_sign s = (case s of [] \<Rightarrow> (False, s) | c # r \<Rightarrow>
     if c = CHR ''-'' then (True, r) else if c = CHR ''+'' then (False, r) else (False, s))"

definition parse_exponent :: "string \<Rightarrow> int option" where
  "parse_exponent s =
     (case s of
        [] \<Rightarrow> Some 0
      | c # r \<Rightarrow>
          if c = CHR ''e'' \<or> c = CHR ''E'' then
            (case split_sign r of (neg, ds) \<Rightarrow>
               if ds \<noteq> [] \<and> list_all is_ascii_digit ds
               then Some (if neg then - int (digits_val ds) else int (digits_val ds)) else None)
          else None)"

definition parse_decimal :: "string \<Rightarrow> rat option" where
  "parse_decimal s =
     (let ip = takeWhile is_ascii_digit s; r = dropWhile is_ascii_digit s;
          (fp, r') = (case r of [] \<Rightarrow> ([], r) | c # t \<Rightarrow>
             if c = CHR ''.'' then (takeWhile is_ascii_digit t, dropWhile is_ascii_digit t) else ([], r))
      in if ip = [] \<and> fp = [] then None
         else map_option (\<lambda>e. of_nat (digits_val (ip @ fp)) * 10 powi (e - int (length fp))) (parse_exponent r'))"

text \<open>\<open>str::parse::<f64>()\<close>.\<close>

definition parse_f64 :: "string \<Rightarrow> f64 option" where
  "parse_f64 s =
     (case split_sign s of (neg, t) \<Rightarrow>
        let l = to_ascii_lowercase t
        in if l = ''nan'' then Some F_NaN
           else if l = ''inf'' \<or> l = ''infinity'' then Some (F_Inf neg)
           else map_option (\<lambda>x. round_f64 (if neg then - x else x)) (parse_decimal t))"

subsection \<open>Comparison and conversion\<close>

definition f64_partial_cmp :: "f64 \<Rightarrow> f64 \<Rightarrow> Ordering option" where
  "f64_partial_cmp a b =
     (case (a, b) of
        (F_NaN, _) \<Rightarrow> None
      | (_, F_NaN) \<Rightarrow> None
      | (F_Fin x, F_Fin y) \<Rightarrow> Some (cmp_ord x y)
      | (F_Inf s, F_Inf t) \<Rightarrow> Some (cmp_ord (\<not> s) (\<not> t))
      | (F_Inf s, F_Fin _) \<Rightarrow> Some (if s then Less else Greater)
      | (F_Fin _, F_Inf t) \<Rightarrow> Some (if t then Greater else Less))"

definition f64_eq :: "f64 \<Rightarrow> f64 \<Rightarrow> bool" where
  "f64_eq a b \<longleftrightarrow> f64_partial_cmp a b = Some Equal"

definition f64_lt :: "f64 \<Rightarrow> f64 \<Rightarrow> bool" where
  "f64_lt a b \<longleftrightarrow> f64_partial_cmp a b = Some Less"

definition f64_le :: "f64 \<Rightarrow> f64 \<Rightarrow> bool" where
  "f64_le a b \<longleftrightarrow> f64_lt a b \<or> f64_eq a b"

definition is_finite :: "f64 \<Rightarrow> bool" where
  "is_finite a \<longleftrightarrow> (case a of F_Fin _ \<Rightarrow> True | _ \<Rightarrow> False)"

text \<open>The product of two numbers of which the second is finite and positive.\<close>

definition f64_mul_pos :: "f64 \<Rightarrow> rat \<Rightarrow> f64" where
  "f64_mul_pos a k = (case a of F_Fin x \<Rightarrow> round_f64 (x * k) | _ \<Rightarrow> a)"

text \<open>\<open>as i128\<close>: towards zero, saturating, zero for NaN.\<close>

definition f64_as_i128 :: "f64 \<Rightarrow> int" where
  "f64_as_i128 a =
     (case a of
        F_NaN \<Rightarrow> 0
      | F_Inf neg \<Rightarrow> if neg then - (2 ^ 127) else 2 ^ 127 - 1
      | F_Fin x \<Rightarrow> max (- (2 ^ 127)) (min (2 ^ 127 - 1) (if x < 0 then - floor (- x) else floor x)))"

end
