(* ===== verification/Policy_Condition.thy ===== *)
theory Policy_Condition
  imports Policy_Variables Rust_F64
begin

text \<open>
  \<open>crates/auth/src/policy/condition.rs\<close>: one condition, the three-valued outcome of a condition, and the condition
  block of a statement.  The RFC 3339 parser of the \<open>time\<close> crate is the parameter \<open>parse_rfc3339\<close>, which gives the
  nanoseconds since the epoch.
\<close>

subsection \<open>Single comparisons\<close>

definition is_negative_operator :: "ConditionOperator \<Rightarrow> bool" where
  "is_negative_operator op \<longleftrightarrow>
     op \<in> {StringNotEquals, StringNotEqualsIgnoreCase, NumericNotEquals, DateNotEquals, StringNotLike, ArnNotEquals,
           ArnNotLike, NotIpAddressOp}"

definition is_arn_operator :: "ConditionOperator \<Rightarrow> bool" where
  "is_arn_operator op \<longleftrightarrow> op \<in> {ArnEquals, ArnNotEquals, ArnLike, ArnNotLike}"

definition arn_operator_sees_non_arn :: "ConditionOperator \<Rightarrow> string list \<Rightarrow> bool" where
  "arn_operator_sees_non_arn op context_values \<longleftrightarrow> is_arn_operator op \<and> \<not> list_all is_arn context_values"

definition parse_f64_cmp :: "string \<Rightarrow> string \<Rightarrow> (f64 \<Rightarrow> f64 \<Rightarrow> bool) \<Rightarrow> bool" where
  "parse_f64_cmp a b cmp =
     (case (parse_f64 a, parse_f64 b) of (Some va, Some vb) \<Rightarrow> cmp va vb | _ \<Rightarrow> False)"

text \<open>The division of \<open>i128\<close> rounds towards zero.\<close>

definition i128_div :: "int \<Rightarrow> int \<Rightarrow> int" where
  "i128_div a b = sgn a * (\<bar>a\<bar> div b)"

definition parse_epoch_millis :: "(string \<Rightarrow> int option) \<Rightarrow> string \<Rightarrow> int option" where
  "parse_epoch_millis parse_rfc3339 s =
     (case parse_f64 s of
        Some n \<Rightarrow>
          if \<not> contains_sub s ''T'' \<and> \<not> contains_sub s ''-'' then
            if \<not> is_finite n then None else Some (f64_as_i128 (f64_mul_pos n 1000))
          else map_option (\<lambda>ns. i128_div ns 1000000) (parse_rfc3339 s)
      | None \<Rightarrow> map_option (\<lambda>ns. i128_div ns 1000000) (parse_rfc3339 s))"

definition compare_dates :: "(string \<Rightarrow> int option) \<Rightarrow> string \<Rightarrow> string \<Rightarrow> (int \<Rightarrow> int \<Rightarrow> bool) \<Rightarrow> bool" where
  "compare_dates parse_rfc3339 a b cmp =
     (case (parse_epoch_millis parse_rfc3339 a, parse_epoch_millis parse_rfc3339 b) of
        (Some va, Some vb) \<Rightarrow> cmp va vb
      | _ \<Rightarrow> False)"

definition null_holds :: "string \<Rightarrow> bool \<Rightarrow> bool" where
  "null_holds policy_value key_absent =
     (if contains_sub policy_value dollar_brace then \<not> key_absent
      else (policy_value = ''true'' \<and> key_absent) \<or> (policy_value = ''false'' \<and> \<not> key_absent))"

definition bool_matches :: "string \<Rightarrow> string \<Rightarrow> bool" where
  "bool_matches context_value policy_value =
     (if contains_sub policy_value dollar_brace then \<not> eq_ignore_ascii_case context_value ''true''
      else eq_ignore_ascii_case context_value policy_value)"

text \<open>The last arm of the source, for \<open>Null\<close> and the wrappers, is \<open>False\<close>.\<close>

definition compare_single ::
    "(string \<Rightarrow> int option) \<Rightarrow> ConditionOperator \<Rightarrow> string \<Rightarrow> ConditionValue \<Rightarrow> bool" where
  "compare_single rfc op context_value val =
     (if is_arn_operator op \<and> \<not> is_arn context_value then False
      else case CV_text val of
        None \<Rightarrow> is_negative_operator op
      | Some policy_value \<Rightarrow>
          (case op of
             StringEquals \<Rightarrow> context_value = policy_value
           | StringNotEquals \<Rightarrow> context_value \<noteq> policy_value
           | StringEqualsIgnoreCase \<Rightarrow> eq_ignore_ascii_case context_value policy_value
           | StringNotEqualsIgnoreCase \<Rightarrow> \<not> eq_ignore_ascii_case context_value policy_value
           | StringLike \<Rightarrow> wildcard_matches val context_value
           | StringNotLike \<Rightarrow> \<not> wildcard_matches val context_value
           | NumericEquals \<Rightarrow> parse_f64_cmp context_value policy_value f64_eq
           | NumericNotEquals \<Rightarrow> parse_f64_cmp context_value policy_value (\<lambda>a b. \<not> f64_eq a b)
           | NumericLessThan \<Rightarrow> parse_f64_cmp context_value policy_value f64_lt
           | NumericLessThanEquals \<Rightarrow> parse_f64_cmp context_value policy_value f64_le
           | NumericGreaterThan \<Rightarrow> parse_f64_cmp context_value policy_value (\<lambda>a b. f64_lt b a)
           | NumericGreaterThanEquals \<Rightarrow> parse_f64_cmp context_value policy_value (\<lambda>a b. f64_le b a)
           | DateEquals \<Rightarrow> compare_dates rfc context_value policy_value (=)
           | DateNotEquals \<Rightarrow> compare_dates rfc context_value policy_value (\<noteq>)
           | DateLessThan \<Rightarrow> compare_dates rfc context_value policy_value (<)
           | DateLessThanEquals \<Rightarrow> compare_dates rfc context_value policy_value (\<le>)
           | DateGreaterThan \<Rightarrow> compare_dates rfc context_value policy_value (>)
           | DateGreaterThanEquals \<Rightarrow> compare_dates rfc context_value policy_value (\<ge>)
           | BoolOp \<Rightarrow> bool_matches context_value policy_value
           | ArnEquals \<Rightarrow> arn_matches val context_value
           | ArnLike \<Rightarrow> arn_matches val context_value
           | ArnNotEquals \<Rightarrow> \<not> arn_matches val context_value
           | ArnNotLike \<Rightarrow> \<not> arn_matches val context_value
           | IpAddressOp \<Rightarrow> ip_in_cidr policy_value context_value = Some True
           | NotIpAddressOp \<Rightarrow> ip_in_cidr policy_value context_value = Some False
           | _ \<Rightarrow> False))"

subsection \<open>One condition\<close>

text \<open>The two inner combinators, for one context value.\<close>

definition value_satisfies ::
    "(string \<Rightarrow> int option) \<Rightarrow> ConditionOperator \<Rightarrow> ConditionValue list \<Rightarrow> string \<Rightarrow> bool" where
  "value_satisfies rfc op policy_values cv =
     (if is_negative_operator op then list_all (compare_single rfc op cv) policy_values
      else list_ex (compare_single rfc op cv) policy_values)"

definition evaluate_single_value_condition ::
    "(string \<Rightarrow> int option) \<Rightarrow> ConditionOperator \<Rightarrow> string list \<Rightarrow> ConditionValue list \<Rightarrow> bool" where
  "evaluate_single_value_condition rfc op context_values policy_values =
     list_all (value_satisfies rfc op policy_values) context_values"

definition unwrap_if_exists :: "ConditionOperator \<Rightarrow> bool \<times> ConditionOperator" where
  "unwrap_if_exists op = (case op of IfExists base \<Rightarrow> (True, base) | other \<Rightarrow> (False, other))"

fun operator_expands_variables :: "ConditionOperator \<Rightarrow> bool" where
  "operator_expands_variables (ForAllValues inner) = operator_expands_variables inner"
| "operator_expands_variables (ForAnyValue inner) = operator_expands_variables inner"
| "operator_expands_variables (IfExists inner) = operator_expands_variables inner"
| "operator_expands_variables op =
     (op \<in> {StringEquals, StringNotEquals, StringEqualsIgnoreCase, StringNotEqualsIgnoreCase, StringLike, StringNotLike} \<or>
      is_arn_operator op)"

definition expands_variables :: "ConditionOperator \<Rightarrow> bool \<Rightarrow> bool" where
  "expands_variables op v2012 \<longleftrightarrow> v2012 \<and> operator_expands_variables op"

text \<open>
  The match of \<open>evaluate_condition_with\<close> on the operator; \<open>bare_negated\<close> is the context's answer for the key of the
  condition.
\<close>

definition match_operator ::
    "(string \<Rightarrow> int option) \<Rightarrow> ConditionOperator \<Rightarrow> string list option \<Rightarrow> bool \<Rightarrow> bool \<Rightarrow> ConditionValue list \<Rightarrow> bool" where
  "match_operator rfc op context_values is_multivalued bare_negated expanded_values =
     (case op of
        NullOp \<Rightarrow>
          (let key_absent = (context_values = None)
           in case expanded_values of
                [] \<Rightarrow> False
              | ev # _ \<Rightarrow> (case CV_text ev of Some v \<Rightarrow> null_holds v key_absent | None \<Rightarrow> False))
      | ForAllValues inner \<Rightarrow>
          (let base_op = snd (unwrap_if_exists inner)
           in case context_values of
                None \<Rightarrow> True
              | Some vals \<Rightarrow> list_all (value_satisfies rfc base_op expanded_values) vals)
      | ForAnyValue inner \<Rightarrow>
          (let (absent_passes, base_op) = unwrap_if_exists inner
           in case context_values of
                None \<Rightarrow> absent_passes
              | Some vals \<Rightarrow>
                  if arn_operator_sees_non_arn base_op vals then False
                  else list_ex (value_satisfies rfc base_op expanded_values) vals)
      | IfExists inner \<Rightarrow>
          (case context_values of
             None \<Rightarrow> True
           | Some vals \<Rightarrow>
               if is_multivalued then False else evaluate_single_value_condition rfc inner vals expanded_values)
      | other \<Rightarrow>
          (case context_values of
             None \<Rightarrow> is_negative_operator other \<and> (\<not> is_multivalued \<or> bare_negated)
           | Some vals \<Rightarrow>
               if is_multivalued then False else evaluate_single_value_condition rfc other vals expanded_values))"

definition evaluate_condition_with ::
    "(string \<Rightarrow> int option) \<Rightarrow> Condition \<Rightarrow> bool \<Rightarrow> ConditionContext \<Rightarrow> bool" where
  "evaluate_condition_with rfc condition v2012 ctx =
     match_operator rfc (operator condition)
       (resolve_key ctx (cond_key condition))
       (is_multivalued_key ctx (cond_key condition))
       (bare_negated_matches_absent_multivalued_key ctx (cond_key condition))
       (map (\<lambda>v. expand_condition_value v (expands_variables (operator condition) v2012) ctx) (cond_values condition))"

definition policy_evaluate_condition :: "(string \<Rightarrow> int option) \<Rightarrow> Condition \<Rightarrow> ConditionContext \<Rightarrow> bool" where
  "policy_evaluate_condition rfc condition ctx = evaluate_condition_with rfc condition True ctx"

subsection \<open>Three values\<close>

datatype ConditionMatch = CM_Match | CM_NoMatch | CM_Unresolvable

definition is_unresolvable :: "string \<Rightarrow> ConditionContext \<Rightarrow> bool" where
  "is_unresolvable key ctx \<longleftrightarrow> resolve_key ctx key = None \<and> is_unresolvable_key ctx key"

definition reads_unresolvable_variable :: "Condition \<Rightarrow> ConditionContext \<Rightarrow> bool" where
  "reads_unresolvable_variable condition ctx \<longleftrightarrow>
     list_ex (\<lambda>val. list_ex (\<lambda>name. is_unresolvable name ctx) (variable_key_names val)) (cond_values condition)"

definition evaluate_condition_match ::
    "(string \<Rightarrow> int option) \<Rightarrow> Condition \<Rightarrow> bool \<Rightarrow> ConditionContext \<Rightarrow> ConditionMatch" where
  "evaluate_condition_match rfc condition v2012 ctx =
     (if is_unresolvable (cond_key condition) ctx \<or>
         (expands_variables (operator condition) v2012 \<and> reads_unresolvable_variable condition ctx) then CM_Unresolvable
      else if is_arn_operator (base_operator (operator condition)) \<and>
              list_ex arn_value_lacks_fields (cond_values condition) then CM_Unresolvable
      else if evaluate_condition_with rfc condition v2012 ctx then CM_Match else CM_NoMatch)"

text \<open>The loop of \<open>evaluate_statement_conditions\<close>, with \<open>any_unresolvable\<close> as its state.\<close>

fun evaluate_conditions_from ::
    "(string \<Rightarrow> int option) \<Rightarrow> bool \<Rightarrow> ConditionContext \<Rightarrow> bool \<Rightarrow> Condition list \<Rightarrow> ConditionMatch" where
  "evaluate_conditions_from rfc v2012 ctx any_unresolvable [] = (if any_unresolvable then CM_Unresolvable else CM_Match)"
| "evaluate_conditions_from rfc v2012 ctx any_unresolvable (c # cs) =
     (case evaluate_condition_match rfc c v2012 ctx of
        CM_Match \<Rightarrow> evaluate_conditions_from rfc v2012 ctx any_unresolvable cs
      | CM_NoMatch \<Rightarrow> CM_NoMatch
      | CM_Unresolvable \<Rightarrow> evaluate_conditions_from rfc v2012 ctx True cs)"

definition evaluate_statement_conditions ::
    "(string \<Rightarrow> int option) \<Rightarrow> Condition list \<Rightarrow> bool \<Rightarrow> ConditionContext \<Rightarrow> ConditionMatch" where
  "evaluate_statement_conditions rfc conds v2012 ctx = evaluate_conditions_from rfc v2012 ctx False conds"

subsection \<open>A context that knows more\<close>

text \<open>
  \<open>context_refines ctx ctx'\<close>: the second context has an answer, of any kind, for the keys the first one reports as
  unresolvable, and agrees with it on every other key.  It stands for what the service knows.
\<close>

definition context_refines :: "ConditionContext \<Rightarrow> ConditionContext \<Rightarrow> bool" where
  "context_refines ctx ctx' \<longleftrightarrow>
     (\<forall>k. \<not> is_unresolvable k ctx \<longrightarrow> resolve_key ctx' k = resolve_key ctx k \<and> \<not> is_unresolvable k ctx') \<and>
     is_multivalued_key ctx' = is_multivalued_key ctx \<and>
     bare_negated_matches_absent_multivalued_key ctx' = bare_negated_matches_absent_multivalued_key ctx"

lemma context_refinesD:
  assumes "context_refines ctx ctx'"
  shows "\<not> is_unresolvable k ctx \<Longrightarrow> resolve_key ctx' k = resolve_key ctx k"
    "\<not> is_unresolvable k ctx \<Longrightarrow> \<not> is_unresolvable k ctx'"
    "is_multivalued_key ctx' = is_multivalued_key ctx"
    "bare_negated_matches_absent_multivalued_key ctx' = bare_negated_matches_absent_multivalued_key ctx"
  using assms by (auto simp: context_refines_def)

lemma resolve_alt:
  "resolve name dflt ctx =
     (if is_unresolvable name ctx then Inl Unresolvable
      else if is_multivalued_key ctx name then
        (case resolve_key ctx name of Some _ \<Rightarrow> Inl Absent | None \<Rightarrow> ok_or dflt Absent)
      else
        (case resolve_key ctx name of
           Some vs \<Rightarrow> Inr (case vs of [] \<Rightarrow> [] | v # _ \<Rightarrow> v)
         | None \<Rightarrow> ok_or dflt Absent))"
  by (simp only: resolve_def is_unresolvable_def Let_def)

lemma resolve_unresolvable: "resolve name dflt ctx = Inl Unresolvable \<longleftrightarrow> is_unresolvable name ctx"
  by (auto simp: resolve_alt ok_or_def split: option.split)

lemma resolve_refines:
  assumes "context_refines ctx ctx'" "\<not> is_unresolvable name ctx"
  shows "resolve name dflt ctx' = resolve name dflt ctx"
  unfolding resolve_alt context_refinesD(1,3) [OF assms(1)] context_refinesD(1) [OF assms]
  using assms(2) context_refinesD(2) [OF assms] by simp

subsubsection \<open>Patterns\<close>

text \<open>An expansion that succeeds does not change, and neither does one that fails on an absent key.\<close>

lemma expand_part_flag: "expand_part ctx (t, True) p = Inr (t', u) \<Longrightarrow> u"
  by (auto simp: expand_part_def split: Part.split_asm Reference.split_asm sum.split_asm Missing.split_asm)

lemma expand_fold_flag: "try_fold (expand_part ctx) (t, True) ps = Inr (r, u) \<Longrightarrow> u"
proof (induction ps arbitrary: t)
  case (Cons p ps)
  then obtain t1 u1 where 1: "expand_part ctx (t, True) p = Inr (t1, u1)"
    and 2: "try_fold (expand_part ctx) (t1, u1) ps = Inr (r, u)" by auto
  from expand_part_flag [OF 1] 2 show ?case using Cons.IH by simp
qed simp

lemma expand_part_ok:
  assumes "context_refines ctx ctx'" "expand_part ctx (t, False) p = Inr (t1, False)"
  shows "expand_part ctx' (t, False) p = Inr (t1, False)"
proof (cases p)
  case (Ref raw rf)
  then show ?thesis
  proof (cases rf)
    case (Ref_Key name dflt)
    then have "\<not> is_unresolvable name ctx"
      using assms(2) Ref by (auto simp: expand_part_def simp flip: resolve_unresolvable [of _ dflt])
    from resolve_refines [OF assms(1) this] show ?thesis using assms(2) Ref Ref_Key by (simp add: expand_part_def)
  qed (use assms(2) Ref in \<open>simp add: expand_part_def\<close>)
qed (use assms(2) in \<open>simp add: expand_part_def\<close>)

lemma expand_part_absent:
  assumes "context_refines ctx ctx'" "expand_part ctx st p = Inl e"
  shows "expand_part ctx' st' p = Inl Absent"
proof -
  obtain raw name dflt where p: "p = Ref raw (Ref_Key name dflt)" and r: "resolve name dflt ctx = Inl Absent"
    using assms(2)
    by (auto simp: expand_part_def split: Part.split_asm Reference.split_asm sum.split_asm Missing.split_asm prod.split_asm)
  from r have "\<not> is_unresolvable name ctx" using resolve_unresolvable [of name dflt ctx] by simp
  from resolve_refines [OF assms(1) this] r p show ?thesis by (simp add: expand_part_def split: prod.split)
qed

lemma expand_part_error: "expand_part ctx st p = Inl e \<Longrightarrow> e = Absent"
  by (auto simp: expand_part_def split: Part.split_asm Reference.split_asm sum.split_asm Missing.split_asm prod.split_asm)

lemma expand_fold_ok:
  assumes "context_refines ctx ctx'"
  shows "try_fold (expand_part ctx) (t, False) ps = Inr (r, False) \<Longrightarrow>
    try_fold (expand_part ctx') (t, False) ps = Inr (r, False)"
proof (induction ps arbitrary: t)
  case (Cons p ps)
  then obtain t1 u1 where 1: "expand_part ctx (t, False) p = Inr (t1, u1)"
    and 2: "try_fold (expand_part ctx) (t1, u1) ps = Inr (r, False)" by auto
  have "\<not> u1" using 2 expand_fold_flag [of ctx t1 ps r False] by (cases u1) auto
  then show ?case using expand_part_ok [OF assms] 1 2 Cons.IH by simp
qed simp

lemma expand_fold_absent:
  assumes "context_refines ctx ctx'"
  shows "try_fold (expand_part ctx) st ps = Inl e \<Longrightarrow> try_fold (expand_part ctx') st' ps = Inl Absent"
proof (induction ps arbitrary: st st')
  case (Cons p ps)
  show ?case
  proof (cases "expand_part ctx st p")
    case (Inl e')
    from expand_part_absent [OF assms Inl] show ?thesis by simp
  next
    case (Inr st1)
    with Cons.prems have "try_fold (expand_part ctx) st1 ps = Inl e" by simp
    from Cons.IH [OF this] show ?thesis
      by (cases "expand_part ctx' st' p") (auto dest: expand_part_error)
  qed
qed simp

lemma expand_tokens_refines:
  assumes "context_refines ctx ctx'" "expand_tokens p ctx \<noteq> Inl Unresolvable"
  shows "expand_tokens p ctx' = expand_tokens p ctx"
proof (cases "try_fold (expand_part ctx) ([], False) (parts p)")
  case (Inl e)
  from expand_fold_absent [OF assms(1) Inl] expand_fold_absent [OF _ Inl, of ctx] show ?thesis
    by (simp add: expand_tokens_def Inl context_refines_def)
next
  case (Inr tu)
  obtain t u where tu: "tu = (t, u)" by (cases tu)
  with assms(2) Inr have "\<not> u" by (auto simp: expand_tokens_def)
  with Inr tu expand_fold_ok [OF assms(1)] show ?thesis by (simp add: expand_tokens_def)
qed

lemma resource_pattern_refines:
  assumes "context_refines ctx ctx'" "\<not> resource_pattern_is_unresolvable p e ctx"
  shows "resource_pattern_matches p r e ctx' = resource_pattern_matches p r e ctx"
    "\<not> resource_pattern_is_unresolvable p e ctx'"
  using assms(2) expand_tokens_refines [OF assms(1), of p]
  by (auto simp: resource_pattern_matches_def resource_pattern_is_unresolvable_def)

lemma unresolvable_pattern_no_match:
  "resource_pattern_is_unresolvable p e ctx \<Longrightarrow> \<not> resource_pattern_matches p r e ctx"
  by (simp add: resource_pattern_matches_def resource_pattern_is_unresolvable_def)

subsubsection \<open>Conditions\<close>

lemma expand_value_parts_refines:
  "context_refines ctx ctx' \<Longrightarrow> (\<And>raw n d. Ref raw (Ref_Key n d) \<in> set ps \<Longrightarrow> \<not> is_unresolvable n ctx) \<Longrightarrow>
    expand_value_parts ctx' t tokens ps = expand_value_parts ctx t tokens ps"
proof (induction ctx t tokens ps rule: expand_value_parts.induct)
  case (4 ctx t tokens raw name dflt ps)
  have "\<not> is_unresolvable name ctx" by (rule 4(3) [of raw _ dflt]) simp
  from resolve_refines [OF 4(2) this]
  have r: "resolve name dflt ctx' = resolve name dflt ctx" .
  show ?case
  proof (cases "resolve name dflt ctx")
    case (Inr v)
    have "expand_value_parts ctx' (t @ v) (tokens @ map Unit (encode_utf16 v)) ps =
        expand_value_parts ctx (t @ v) (tokens @ map Unit (encode_utf16 v)) ps"
      by (rule 4(1) [OF Inr 4(2)]) (use 4(3) in \<open>meson list.set_intros(2)\<close>)
    then show ?thesis by (simp add: r Inr)
  qed (simp add: r)
qed simp_all

lemma variable_key_names_iff: "name \<in> set (variable_key_names val) \<longleftrightarrow> (\<exists>raw d. Ref raw (Ref_Key name d) \<in> set (parts val))"
  by (force simp: variable_key_names_def List.map_filter_def split: Part.split_asm Reference.split_asm)

lemma expand_condition_value_refines:
  assumes "context_refines ctx ctx'" "e \<Longrightarrow> \<forall>n \<in> set (variable_key_names val). \<not> is_unresolvable n ctx"
  shows "expand_condition_value val e ctx' = expand_condition_value val e ctx"
proof (cases e)
  case True
  have "expand_value_parts ctx' [] [] (parts val) = expand_value_parts ctx [] [] (parts val)"
    by (rule expand_value_parts_refines [OF assms(1)]) (use assms(2) True in \<open>auto simp: variable_key_names_iff\<close>)
  then show ?thesis by (simp add: expand_condition_value_def)
qed (simp add: expand_condition_value_def)

text \<open>A condition with a definite outcome keeps it when more becomes known.\<close>

lemma evaluate_condition_match_refines:
  assumes "context_refines ctx ctx'" "evaluate_condition_match rfc c v ctx \<noteq> CM_Unresolvable"
  shows "evaluate_condition_match rfc c v ctx' = evaluate_condition_match rfc c v ctx"
proof -
  have k: "\<not> is_unresolvable (cond_key c) ctx"
    and n: "expands_variables (operator c) v \<Longrightarrow> \<not> reads_unresolvable_variable c ctx"
    using assms(2) by (auto simp: evaluate_condition_match_def split: if_split_asm)
  note R = context_refinesD [OF assms(1)]
  have vals: "map (\<lambda>w. expand_condition_value w (expands_variables (operator c) v) ctx') (cond_values c) =
      map (\<lambda>w. expand_condition_value w (expands_variables (operator c) v) ctx) (cond_values c)"
    by (rule map_cong [OF refl], rule expand_condition_value_refines [OF assms(1)])
      (use n in \<open>auto simp: reads_unresolvable_variable_def list_ex_iff\<close>)
  have "evaluate_condition_with rfc c v ctx' = evaluate_condition_with rfc c v ctx"
    unfolding evaluate_condition_with_def vals R(1) [OF k] R(3,4) ..
  moreover have "reads_unresolvable_variable c ctx' \<Longrightarrow> reads_unresolvable_variable c ctx"
    using R(2) by (auto simp: reads_unresolvable_variable_def list_ex_iff)
  ultimately show ?thesis
    using k n R(2) [OF k] by (auto simp: evaluate_condition_match_def)
qed

lemma evaluate_conditions_from_iff:
  "evaluate_conditions_from rfc v ctx u cs = CM_NoMatch \<longleftrightarrow> (\<exists>c \<in> set cs. evaluate_condition_match rfc c v ctx = CM_NoMatch)"
  "evaluate_conditions_from rfc v ctx u cs = CM_Match \<longleftrightarrow> \<not> u \<and> (\<forall>c \<in> set cs. evaluate_condition_match rfc c v ctx = CM_Match)"
  by (induction cs arbitrary: u) (auto split: ConditionMatch.split)

lemma statement_conditions_refines:
  assumes "context_refines ctx ctx'" "evaluate_statement_conditions rfc cs v ctx \<noteq> CM_Unresolvable"
  shows "evaluate_statement_conditions rfc cs v ctx' = evaluate_statement_conditions rfc cs v ctx"
proof (cases "evaluate_statement_conditions rfc cs v ctx")
  case CM_Match
  then have "\<forall>c \<in> set cs. evaluate_condition_match rfc c v ctx' = CM_Match"
    using evaluate_condition_match_refines [OF assms(1)]
    by (simp add: evaluate_statement_conditions_def evaluate_conditions_from_iff)
  then have "evaluate_statement_conditions rfc cs v ctx' = CM_Match"
    by (simp add: evaluate_statement_conditions_def evaluate_conditions_from_iff)
  with CM_Match show ?thesis by simp
next
  case CM_NoMatch
  then obtain c where c: "c \<in> set cs" "evaluate_condition_match rfc c v ctx = CM_NoMatch"
    by (auto simp: evaluate_statement_conditions_def evaluate_conditions_from_iff)
  then have "evaluate_condition_match rfc c v ctx' = CM_NoMatch"
    using evaluate_condition_match_refines [OF assms(1), of rfc c v] by simp
  with c(1) have "\<exists>c \<in> set cs. evaluate_condition_match rfc c v ctx' = CM_NoMatch" by blast
  then have "evaluate_statement_conditions rfc cs v ctx' = CM_NoMatch"
    by (simp add: evaluate_statement_conditions_def evaluate_conditions_from_iff)
  with CM_NoMatch show ?thesis by simp
qed (use assms in simp)

end
