(* ===== verification/Policy_Evaluator.thy ===== *)
theory Policy_Evaluator
  imports Policy_Condition
begin

text \<open>
  \<open>crates/auth/src/policy/evaluator.rs\<close>: the decision over identity policies, permissions boundary and session
  policy.  The properties say when a request is allowed, and that a decision taken with a context that cannot
  resolve some keys is never wider than the one a context that can would give.
\<close>

datatype AuthzDecision = Authz_Allow | Authz_Deny

definition action_matches :: "Statement \<Rightarrow> string \<Rightarrow> bool" where
  "action_matches statement request_action =
     (case action_match statement of
        Actions patterns \<Rightarrow> list_ex (\<lambda>p. wildcard_match_ignore_case p request_action) patterns
      | NotActions patterns \<Rightarrow> \<not> list_ex (\<lambda>p. wildcard_match_ignore_case p request_action) patterns)"

definition resource_matches :: "PolicyDocument \<Rightarrow> Statement \<Rightarrow> string \<Rightarrow> ConditionContext \<Rightarrow> bool" where
  "resource_matches policy statement request_resource ctx =
     (let expand = expands_policy_variables policy;
          any_match = list_ex (\<lambda>p. resource_pattern_matches p request_resource expand ctx);
          unresolvable = list_ex (\<lambda>p. resource_pattern_is_unresolvable p expand ctx);
          deny = (effect statement = Deny)
      in case resource_match statement of
           Resources patterns \<Rightarrow> any_match patterns \<or> (deny \<and> unresolvable patterns)
         | NotResources patterns \<Rightarrow> \<not> any_match patterns \<and> (deny \<or> \<not> unresolvable patterns))"

definition statement_conditions ::
    "(string \<Rightarrow> int option) \<Rightarrow> PolicyDocument \<Rightarrow> Statement \<Rightarrow> ConditionContext \<Rightarrow> ConditionMatch" where
  "statement_conditions rfc policy statement ctx =
     evaluate_statement_conditions rfc (conditions statement) (expands_policy_variables policy) ctx"

definition deny_conditions_apply ::
    "(string \<Rightarrow> int option) \<Rightarrow> PolicyDocument \<Rightarrow> Statement \<Rightarrow> ConditionContext \<Rightarrow> bool" where
  "deny_conditions_apply rfc policy statement ctx \<longleftrightarrow>
     statement_conditions rfc policy statement ctx \<in> {CM_Match, CM_Unresolvable}"

definition allow_conditions_grant ::
    "(string \<Rightarrow> int option) \<Rightarrow> PolicyDocument \<Rightarrow> Statement \<Rightarrow> ConditionContext \<Rightarrow> bool" where
  "allow_conditions_grant rfc policy statement ctx \<longleftrightarrow> statement_conditions rfc policy statement ctx = CM_Match"

text \<open>The two tests of the loops.\<close>

definition deny_applies ::
    "(string \<Rightarrow> int option) \<Rightarrow> string \<Rightarrow> string \<Rightarrow> ConditionContext \<Rightarrow> PolicyDocument \<Rightarrow> Statement \<Rightarrow> bool" where
  "deny_applies rfc action resource_arn ctx policy stmt \<longleftrightarrow>
     effect stmt = Deny \<and> action_matches stmt action \<and> resource_matches policy stmt resource_arn ctx \<and>
     deny_conditions_apply rfc policy stmt ctx"

definition allow_grants ::
    "(string \<Rightarrow> int option) \<Rightarrow> string \<Rightarrow> string \<Rightarrow> ConditionContext \<Rightarrow> PolicyDocument \<Rightarrow> Statement \<Rightarrow> bool" where
  "allow_grants rfc action resource_arn ctx policy stmt \<longleftrightarrow>
     effect stmt = Allow \<and> action_matches stmt action \<and> resource_matches policy stmt resource_arn ctx \<and>
     allow_conditions_grant rfc policy stmt ctx"

definition explicit_deny_matches_arc ::
    "(string \<Rightarrow> int option) \<Rightarrow> PolicyDocument list \<Rightarrow> PolicyDocument option \<Rightarrow> PolicyDocument option \<Rightarrow>
     string \<Rightarrow> string \<Rightarrow> ConditionContext \<Rightarrow> bool" where
  "explicit_deny_matches_arc rfc identity_policies permissions_boundary session_policy action resource_arn ctx =
     list_ex (\<lambda>policy. list_ex (deny_applies rfc action resource_arn ctx policy) (statements policy))
       (identity_policies @ List.map_filter id [permissions_boundary, session_policy])"

text \<open>The two nested loops of the phases that return from inside.\<close>

fun scan_policies :: "(PolicyDocument \<Rightarrow> Statement \<Rightarrow> bool) \<Rightarrow> PolicyDocument list \<Rightarrow> bool" where
  "scan_policies test [] = False"
| "scan_policies test (policy # ps) = (if list_ex (test policy) (statements policy) then True else scan_policies test ps)"

definition evaluate_with ::
    "(string \<Rightarrow> int option) \<Rightarrow> PolicyDocument list \<Rightarrow> PolicyDocument option \<Rightarrow> PolicyDocument option \<Rightarrow>
     string \<Rightarrow> string \<Rightarrow> ConditionContext \<Rightarrow> AuthzDecision" where
  "evaluate_with rfc identity_policies permissions_boundary session_policy action resource_arn ctx =
     (let all_policies = identity_policies @ List.map_filter id [permissions_boundary, session_policy]
      in if scan_policies (deny_applies rfc action resource_arn ctx) all_policies then Authz_Deny
         else if (case permissions_boundary of
                    Some boundary \<Rightarrow> \<not> list_ex (allow_grants rfc action resource_arn ctx boundary) (statements boundary)
                  | None \<Rightarrow> False) then Authz_Deny
         else if (case session_policy of
                    Some session \<Rightarrow> \<not> list_ex (allow_grants rfc action resource_arn ctx session) (statements session)
                  | None \<Rightarrow> False) then Authz_Deny
         else if scan_policies (allow_grants rfc action resource_arn ctx) identity_policies then Authz_Allow
         else Authz_Deny)"

text \<open>\<open>evaluate_policies\<close> and \<open>evaluate_policies_arc\<close> differ only in how the slice holds the documents.\<close>

definition evaluate_policies ::
    "(string \<Rightarrow> int option) \<Rightarrow> PolicyDocument list \<Rightarrow> PolicyDocument option \<Rightarrow> PolicyDocument option \<Rightarrow>
     string \<Rightarrow> string \<Rightarrow> ConditionContext \<Rightarrow> AuthzDecision" where
  "evaluate_policies rfc identity_policies permissions_boundary session_policy action resource_arn ctx =
     evaluate_with rfc identity_policies permissions_boundary session_policy action resource_arn ctx"

definition evaluate_policies_arc ::
    "(string \<Rightarrow> int option) \<Rightarrow> PolicyDocument list \<Rightarrow> PolicyDocument option \<Rightarrow> PolicyDocument option \<Rightarrow>
     string \<Rightarrow> string \<Rightarrow> ConditionContext \<Rightarrow> AuthzDecision" where
  "evaluate_policies_arc rfc identity_policies permissions_boundary session_policy action resource_arn ctx =
     evaluate_with rfc identity_policies permissions_boundary session_policy action resource_arn ctx"

subsection \<open>The decision\<close>

lemma scan_policies_iff: "scan_policies test ps \<longleftrightarrow> (\<exists>policy \<in> set ps. \<exists>stmt \<in> set (statements policy). test policy stmt)"
  by (induction ps) (auto simp: list_ex_iff)

definition policy_allows :: "(string \<Rightarrow> int option) \<Rightarrow> string \<Rightarrow> string \<Rightarrow> ConditionContext \<Rightarrow> PolicyDocument \<Rightarrow> bool" where
  "policy_allows rfc action resource_arn ctx policy \<longleftrightarrow>
     (\<exists>stmt \<in> set (statements policy). allow_grants rfc action resource_arn ctx policy stmt)"

lemma evaluate_with_Allow:
  "evaluate_with rfc ids boundary session action arn ctx = Authz_Allow \<longleftrightarrow>
     \<not> explicit_deny_matches_arc rfc ids boundary session action arn ctx \<and>
     list_ex (policy_allows rfc action arn ctx) ids \<and>
     pred_option (policy_allows rfc action arn ctx) boundary \<and> pred_option (policy_allows rfc action arn ctx) session"
  by (cases boundary; cases session)
    (auto simp: evaluate_with_def Let_def explicit_deny_matches_arc_def scan_policies_iff list_ex_iff policy_allows_def)

text \<open>
  C4: A request is allowed exactly when no policy in force, boundary and session included, has a \<open>Deny\<close> that applies,
  some identity policy grants it, and the boundary and the session policy, where there is one, each grant it
  too.  So every explicit \<open>Deny\<close> wins, and a boundary or a session can only narrow what the identity allows.
\<close>

theorem evaluate_policies_Allow:
  "evaluate_policies rfc ids boundary session action arn ctx = Authz_Allow \<longleftrightarrow>
     \<not> explicit_deny_matches_arc rfc ids boundary session action arn ctx \<and>
     list_ex (policy_allows rfc action arn ctx) ids \<and>
     pred_option (policy_allows rfc action arn ctx) boundary \<and> pred_option (policy_allows rfc action arn ctx) session"
  unfolding evaluate_policies_def by (rule evaluate_with_Allow)

subsection \<open>Failing closed\<close>

lemma resource_matches_refines:
  assumes "context_refines ctx ctx'"
  shows "effect stmt = Deny \<Longrightarrow> resource_matches policy stmt arn ctx' \<Longrightarrow> resource_matches policy stmt arn ctx"
    "effect stmt = Allow \<Longrightarrow> resource_matches policy stmt arn ctx \<Longrightarrow> resource_matches policy stmt arn ctx'"
proof -
  let ?e = "expands_policy_variables policy"
  note R = resource_pattern_refines [OF assms, of _ ?e]
  have up: "resource_pattern_matches p arn ?e ctx'" if "resource_pattern_matches p arn ?e ctx" for p
    using R(1) [of p arn] unresolvable_pattern_no_match [of p ?e ctx arn] that by blast
  have down: "resource_pattern_matches p arn ?e ctx \<or> resource_pattern_is_unresolvable p ?e ctx"
    if "resource_pattern_matches p arn ?e ctx' \<or> resource_pattern_is_unresolvable p ?e ctx'" for p
    using R [of p] that by blast
  show "resource_matches policy stmt arn ctx" if "effect stmt = Deny" "resource_matches policy stmt arn ctx'"
    using that up down
    by (cases "resource_match stmt") (auto simp: resource_matches_def list_ex_iff Let_def)
  show "resource_matches policy stmt arn ctx'" if "effect stmt = Allow" "resource_matches policy stmt arn ctx"
    using that up down
    by (cases "resource_match stmt") (auto simp: resource_matches_def list_ex_iff Let_def)
qed

lemma deny_applies_refines:
  assumes "context_refines ctx ctx'" "deny_applies rfc action arn ctx' policy stmt"
  shows "deny_applies rfc action arn ctx policy stmt"
proof -
  have "deny_conditions_apply rfc policy stmt ctx"
    using assms(2)
      statement_conditions_refines [OF assms(1), of rfc "conditions stmt" "expands_policy_variables policy"]
    by (cases "statement_conditions rfc policy stmt ctx")
      (auto simp: deny_applies_def deny_conditions_apply_def statement_conditions_def)
  with assms resource_matches_refines(1) [OF assms(1)] show ?thesis by (auto simp: deny_applies_def)
qed

lemma allow_grants_refines:
  assumes "context_refines ctx ctx'" "allow_grants rfc action arn ctx policy stmt"
  shows "allow_grants rfc action arn ctx' policy stmt"
proof -
  have "allow_conditions_grant rfc policy stmt ctx'"
    using assms(2)
      statement_conditions_refines [OF assms(1), of rfc "conditions stmt" "expands_policy_variables policy"]
    by (auto simp: allow_grants_def allow_conditions_grant_def statement_conditions_def)
  with assms resource_matches_refines(2) [OF assms(1)] show ?thesis by (auto simp: allow_grants_def)
qed

text \<open>
  C3: Whatever values the keys turn out to have that a context reports as unresolvable, in a condition, in a
  variable of a condition value or in a variable of a resource pattern: a request that is allowed without
  knowing them is allowed with them.  A key that cannot be resolved never makes a decision wider.
\<close>

theorem unresolvable_fails_closed:
  assumes "context_refines ctx ctx'"
    and "evaluate_policies rfc ids boundary session action arn ctx = Authz_Allow"
  shows "evaluate_policies rfc ids boundary session action arn ctx' = Authz_Allow"
proof -
  have grant: "policy_allows rfc action arn ctx' policy" if "policy_allows rfc action arn ctx policy" for policy
    using that allow_grants_refines [OF assms(1)] unfolding policy_allows_def by blast
  note A = assms(2) [unfolded evaluate_policies_def evaluate_with_Allow]
  have "\<not> explicit_deny_matches_arc rfc ids boundary session action arn ctx'"
    using A deny_applies_refines [OF assms(1)] unfolding explicit_deny_matches_arc_def list_ex_iff by blast
  with A grant show ?thesis
    unfolding evaluate_policies_def evaluate_with_Allow
    by (auto simp: list_ex_iff option.pred_set)
qed

text \<open>
  A request with an ambiguous tag, and what the service might know of it: every unresolvable key has a value.
\<close>

definition knows_value :: "string \<Rightarrow> ConditionContext \<Rightarrow> ConditionContext" where
  "knows_value v ctx = ctx\<lparr>resolve_key := (\<lambda>k. if is_unresolvable k ctx then Some [v] else resolve_key ctx k),
     is_unresolvable_key := (\<lambda>_. False)\<rparr>"

lemma knows_value_refines: "context_refines ctx (knows_value v ctx)"
  by (simp add: context_refines_def knows_value_def is_unresolvable_def)

definition guarded_policy :: PolicyDocument where
  "guarded_policy = \<lparr>version = Some version_2012, statements =
     [\<lparr>sid = None, effect = Allow, action_match = Actions [''dynamodb:*''], resource_match = Resources [''*''],
       conditions = [], principal_match = None\<rparr>,
      \<lparr>sid = None, effect = Deny, action_match = Actions [''dynamodb:TagResource''], resource_match = Resources [''*''],
       conditions = [\<lparr>operator = StringEquals, cond_key = ''aws:RequestTag/env'', cond_values = [''prod'']\<rparr>],
       principal_match = None\<rparr>]\<rparr>"

lemma guarded_policy_decisions:
  "evaluate_policies (\<lambda>_. None) [guarded_policy] None None ''dynamodb:ListTables'' ''x''
     (sample_request [(''Env'', ''prod''), (''env'', ''dev'')]) = Authz_Allow"
  "evaluate_policies (\<lambda>_. None) [guarded_policy] None None ''dynamodb:TagResource'' ''x''
     (sample_request [(''Env'', ''prod''), (''env'', ''dev'')]) = Authz_Deny"
  by code_simp+

theorem unresolvable_fails_closed_witness:
  "evaluate_policies (\<lambda>_. None) [guarded_policy] None None ''dynamodb:ListTables'' ''x''
     (knows_value ''prod'' (sample_request [(''Env'', ''prod''), (''env'', ''dev'')])) = Authz_Allow"
  by (rule unresolvable_fails_closed [OF knows_value_refines guarded_policy_decisions(1)])

end
