(* ===== verification/Rate_Limit.thy ===== *)
theory Rate_Limit
  imports Rust_Prelude
begin

text \<open>
  \<open>crates/server/src/rate_limit.rs\<close>: the login limiter.  Attempts of many clients run at the same time; each one
  reserves a slot in the in-flight registry, reads the store twice, and later writes a failure or not before its
  reservation is dropped.  An attempt is a small state machine, \<open>Exec\<close> is one step of one of them, and the
  reachable states are those of every interleaving, with the clock and the cleanup of the store running beside.
  The store is the table of the SQLite backend (\<open>catalog_store.rs\<close>): its rows, counted as its queries count them.
  The number of an attempt, kept in the row it writes, is the order of reservation; no decision reads it.
\<close>

subsection \<open>The in-flight registry\<close>

record SourceInFlight =
  total :: int
  by_principal :: "string \<rightharpoonup> int"

type_synonym registry = "string \<rightharpoonup> SourceInFlight"




subsection \<open>The store\<close>

record login_row =
  r_principal :: string
  r_source :: string
  r_attempted_at :: int
  r_attempt :: nat

definition WINDOW_SECONDS :: int where "WINDOW_SECONDS = 900"

definition in_window :: "int \<Rightarrow> login_row \<Rightarrow> bool" where
  "in_window now r \<longleftrightarrow> now - WINDOW_SECONDS < r_attempted_at r"




subsection \<open>Attempts\<close>

datatype LoginRefusal = Principal_Limited | Source_Limited | Internal | InvalidCredentials

text \<open>
  Where an attempt stands: reserved with the two in-flight numbers it was given, past the check of the pair,
  admitted (the password is being checked), recorded as a failure, or refused.
\<close>

datatype phase =
    Reserved int int
  | Pair_Checked int
  | Admitted
  | Recorded
  | Refused LoginRefusal

record attempt =
  a_principal :: string
  a_source :: string
  a_phase :: phase

record limiter =
  sources :: registry
  attempts :: "nat \<rightharpoonup> attempt"
  next_attempt :: nat
  rows :: "login_row list"
  clock :: int


definition set_phase :: "nat \<Rightarrow> attempt \<Rightarrow> phase \<Rightarrow> limiter \<Rightarrow> limiter" where
  "set_phase i a ph s = s\<lparr>attempts := (attempts s)(i \<mapsto> a\<lparr>a_phase := ph\<rparr>)\<rparr>"




text \<open>
  \<open>record_failed_login\<close>: the time of the row is taken \<open>waited\<close> seconds before it is written, under the write lock;
  a write that fails (\<open>None\<close>) is only logged.
\<close>

definition record_failure :: "nat \<Rightarrow> attempt \<Rightarrow> nat option \<Rightarrow> limiter \<Rightarrow> limiter" where
  "record_failure i a written s =
     set_phase i a Recorded
       (case written of
          None \<Rightarrow> s
        | Some waited \<Rightarrow>
            s\<lparr>rows := rows s @ [\<lparr>r_principal = a_principal a, r_source = a_source a,
                r_attempted_at = clock s - int waited, r_attempt = i\<rparr>]\<rparr>)"






subsection \<open>Counting attempts\<close>

text \<open>The attempts in flight whose principal and source satisfy \<open>sel\<close>; \<open>upto\<close> keeps those reserved up to one of them.\<close>

definition flight :: "(string \<Rightarrow> string \<Rightarrow> bool) \<Rightarrow> limiter \<Rightarrow> nat set" where
  "flight sel s = {i. \<exists>a. attempts s i = Some a \<and> sel (a_principal a) (a_source a)}"

definition failed :: "(string \<Rightarrow> string \<Rightarrow> bool) \<Rightarrow> limiter \<Rightarrow> nat set" where
  "failed sel s = {r_attempt r | r. r \<in> set (rows s) \<and> in_window (clock s) r \<and> sel (r_principal r) (r_source r)}"








subsection \<open>Invariants\<close>





lemma flight_set_phase [simp]: "attempts s i = Some a \<Longrightarrow> flight sel (set_phase i a ph s) = flight sel s"
  by (auto simp: flight_def set_phase_def)

lemma flight_record [simp]: "attempts s i = Some a \<Longrightarrow> flight sel (record_failure i a w s) = flight sel s"
  by (auto simp: flight_def record_failure_def set_phase_def split: option.split)








subsection \<open>The caps\<close>




lemma failed_set_phase [simp]: "failed sel (set_phase i a ph s) = failed sel s"
  by (simp add: failed_def set_phase_def)























subsection \<open>What the limiter promises\<close>







end
