(* ===== verification/Number_Key.thy ===== *)
theory Number_Key
  imports Number
begin

text \<open>
  \<open>crates/storage-sqlite/src/number_key.rs\<close>: the text a number sort key is stored as, and that its byte order is
  the order of the numbers.  The crate \<open>bigdecimal\<close> is the record \<open>bd_key_ops\<close> of the operations the encoder calls;
  \<open>bd_key_lawful\<close> says, by the rational each decimal stands for, what they are documented to do.
\<close>

record 'd bd_key_ops =
  bdk_cmp :: "'d \<Rightarrow> 'd \<Rightarrow> Ordering"
  bdk_zero :: 'd
  bdk_is_zero :: "'d \<Rightarrow> bool"
  bdk_abs :: "'d \<Rightarrow> 'd"
  bdk_normalized :: "'d \<Rightarrow> 'd"
  bdk_as_bigint_and_exponent :: "'d \<Rightarrow> int \<times> int"

definition bd_key_lawful :: "'d bd_key_ops \<Rightarrow> ('d \<Rightarrow> rat) \<Rightarrow> bool" where
  "bd_key_lawful B v \<longleftrightarrow>
     (\<forall>x y. bdk_cmp B x y = cmp_ord (v x) (v y)) \<and> v (bdk_zero B) = 0 \<and> (\<forall>x. bdk_is_zero B x \<longleftrightarrow> v x = 0) \<and>
     (\<forall>x. v (bdk_abs B x) = \<bar>v x\<bar>) \<and> (\<forall>x. v (bdk_normalized B x) = v x) \<and>
     (\<forall>x. v x = of_int (fst (bdk_as_bigint_and_exponent B x)) * pow10 (- snd (bdk_as_bigint_and_exponent B x))) \<and>
     (\<forall>x. v x \<noteq> 0 \<longrightarrow> \<not> 10 dvd fst (bdk_as_bigint_and_exponent B (bdk_normalized B x)))"

lemma bd_key_lawfulD:
  assumes "bd_key_lawful B v"
  shows "bdk_cmp B x y = cmp_ord (v x) (v y)" "v (bdk_zero B) = 0" "bdk_is_zero B x \<longleftrightarrow> v x = 0" "v (bdk_abs B x) = \<bar>v x\<bar>"
    "v (bdk_normalized B x) = v x" "bdk_as_bigint_and_exponent B x = (m, s) \<Longrightarrow> v x = of_int m * pow10 (- s)"
    "bdk_as_bigint_and_exponent B (bdk_normalized B x) = (m, s) \<Longrightarrow> v x \<noteq> 0 \<Longrightarrow> \<not> 10 dvd m"
proof -
  note B = assms [unfolded bd_key_lawful_def]
  show "bdk_cmp B x y = cmp_ord (v x) (v y)" "v (bdk_zero B) = 0" "bdk_is_zero B x \<longleftrightarrow> v x = 0" "v (bdk_abs B x) = \<bar>v x\<bar>"
    "v (bdk_normalized B x) = v x"
    using B by blast+
  have "v x = of_int (fst (bdk_as_bigint_and_exponent B x)) * pow10 (- snd (bdk_as_bigint_and_exponent B x))"
    "v x \<noteq> 0 \<Longrightarrow> \<not> 10 dvd fst (bdk_as_bigint_and_exponent B (bdk_normalized B x))"
    using B by blast+
  then show "bdk_as_bigint_and_exponent B x = (m, s) \<Longrightarrow> v x = of_int m * pow10 (- s)"
    "bdk_as_bigint_and_exponent B (bdk_normalized B x) = (m, s) \<Longrightarrow> v x \<noteq> 0 \<Longrightarrow> \<not> 10 dvd m"
    by simp_all
qed

subsection \<open>The encoder\<close>

definition EXP_BIAS :: int where "EXP_BIAS = 100000"
definition EXP_WIDTH :: nat where "EXP_WIDTH = 6"
definition NEG_TERMINATOR :: char where "NEG_TERMINATOR = CHR '':''"

text \<open>\<open>format!("{:0width$}", i)\<close> pads after the sign; \<open>BigInt::to_string\<close> prints the sign of a negative number.\<close>

definition pad_zeros :: "nat \<Rightarrow> string \<Rightarrow> string" where
  "pad_zeros width s = replicate (width - length s) (CHR ''0'') @ s"

definition format_padded :: "nat \<Rightarrow> int \<Rightarrow> string" where
  "format_padded width i =
     (if i < 0 then ''-'' @ pad_zeros (width - 1) (show_nat (nat (- i))) else pad_zeros width (show_nat (nat i)))"

definition bigint_to_string :: "int \<Rightarrow> string" where
  "bigint_to_string i = (if i < 0 then ''-'' @ show_nat (nat (- i)) else show_nat (nat i))"

definition complement_digit :: "char \<Rightarrow> char" where
  "complement_digit b = char_of (of_char (CHR ''9'') - (of_char b - of_char (CHR ''0'')) :: nat)"

definition encode_orderable_number :: "'d bd_key_ops \<Rightarrow> 'd \<Rightarrow> string" where
  "encode_orderable_number B value =
     (if bdk_is_zero B value then ''1''
      else
        let negative = (bdk_cmp B value (bdk_zero B) = Less);
            magnitude = bdk_normalized B (bdk_abs B value);
            (mantissa_int, scale) = bdk_as_bigint_and_exponent B magnitude;
            digits = bigint_to_string mantissa_int;
            exponent = int (length digits) - scale
        in if negative
           then ''0'' @ format_padded EXP_WIDTH (EXP_BIAS - exponent) @ map complement_digit digits @ [NEG_TERMINATOR]
           else ''2'' @ format_padded EXP_WIDTH (EXP_BIAS + exponent) @ digits)"

subsection \<open>The order of digit strings\<close>

lemma digit_less_iff:
  assumes "is_ascii_digit c" "is_ascii_digit d"
  shows "c < d \<longleftrightarrow> digit_val c < digit_val d"
  using assms by (auto simp: is_ascii_digit_def less_char_def less_eq_char_def digit_val_def)

lemma append_less_append:
  fixes xs ys us vs :: string
  assumes "length xs = length ys"
  shows "xs @ us < ys @ vs \<longleftrightarrow> xs < ys \<or> xs = ys \<and> us < vs"
  using assms by (induction xs ys rule: list_induct2) auto

lemma digits_less_iff:
  assumes "length xs = length ys" "list_all is_ascii_digit xs" "list_all is_ascii_digit ys"
  shows "xs < ys \<longleftrightarrow> digits_val xs < digits_val ys"
  using assms
proof (induction xs ys rule: list_induct2)
  case (Cons x xs y ys)
  then have b: "digits_val xs < 10 ^ length xs" "digits_val ys < 10 ^ length xs"
    using digits_val_bound [of xs] digits_val_bound [of ys] by simp_all
  have lt: "digit_val p * 10 ^ length xs + m < digit_val q * 10 ^ length xs + n"
    if "digit_val p < digit_val q" "m < 10 ^ length xs" for p q m n
  proof -
    have "(digit_val p + 1) * 10 ^ length xs \<le> digit_val q * 10 ^ length xs" using that by (intro mult_right_mono) auto
    with that(2) show ?thesis by (simp add: algebra_simps)
  qed
  have xy: "x < y \<longleftrightarrow> digit_val x < digit_val y" "y < x \<longleftrightarrow> digit_val y < digit_val x"
    using Cons.prems by (simp_all add: digit_less_iff)
  consider "x < y" | "x = y" | "y < x" by fastforce
  then show ?case
  proof cases
    case 1
    with xy lt [OF _ b(1), of x y] Cons.hyps show ?thesis by (simp add: digits_val_Cons)
  next
    case 2
    with Cons show ?thesis by (simp add: digits_val_Cons)
  next
    case 3
    then have "\<not> x < y" "x \<noteq> y" by auto
    with 3 xy lt [OF _ b(2), of y x "digits_val xs"] Cons.hyps show ?thesis by (simp add: digits_val_Cons not_less less_imp_le)
  qed
qed simp

text \<open>The digits after a decimal point: \<open>0.d1d2...\<close>.\<close>

definition frac_val :: "string \<Rightarrow> rat" where
  "frac_val ds = of_nat (digits_val ds) / 10 ^ length ds"

lemma frac_val_Nil [simp]: "frac_val [] = 0"
  by (simp add: frac_val_def)

lemma frac_val_Cons: "frac_val (c # cs) = (of_nat (digit_val c) + frac_val cs) / 10"
  by (simp add: frac_val_def digits_val_Cons field_simps)

definition no_trailing_zero :: "string \<Rightarrow> bool" where
  "no_trailing_zero ds \<longleftrightarrow> list_all is_ascii_digit ds \<and> (ds = [] \<or> last ds \<noteq> CHR ''0'')"

lemma no_trailing_zero_Cons: "no_trailing_zero (c # cs) \<Longrightarrow> is_ascii_digit c \<and> no_trailing_zero cs"
  by (auto simp: no_trailing_zero_def)

lemma frac_val_bounds:
  "list_all is_ascii_digit ds \<Longrightarrow> 0 \<le> frac_val ds" "list_all is_ascii_digit ds \<Longrightarrow> frac_val ds < 1"
proof -
  show "0 \<le> frac_val ds" by (simp add: frac_val_def)
  assume "list_all is_ascii_digit ds"
  from digits_val_bound [OF this] have "(of_nat (digits_val ds) :: rat) < of_nat (10 ^ length ds)" by (simp only: of_nat_less_iff)
  then show "frac_val ds < 1" by (simp add: frac_val_def)
qed

lemma digit_val_pos: "is_ascii_digit c \<Longrightarrow> c \<noteq> CHR ''0'' \<Longrightarrow> 0 < digit_val c"
proof -
  assume "is_ascii_digit c" "c \<noteq> CHR ''0''"
  moreover have "digit_char 0 = CHR ''0''" by code_simp
  ultimately show "0 < digit_val c" using digit_char_digit_val [of c] by (metis gr0I)
qed

lemma frac_val_pos: "no_trailing_zero ds \<Longrightarrow> ds \<noteq> [] \<Longrightarrow> 0 < frac_val ds"
proof (induction ds)
  case (Cons c cs)
  show ?case
  proof (cases "cs = []")
    case True
    with Cons.prems digit_val_pos [of c] show ?thesis by (simp add: no_trailing_zero_def frac_val_Cons)
  next
    case False
    with Cons no_trailing_zero_Cons [of c cs] show ?thesis by (simp add: frac_val_Cons add_nonneg_pos)
  qed
qed simp

lemma frac_less_iff:
  assumes "no_trailing_zero xs" "no_trailing_zero ys"
  shows "frac_val xs < frac_val ys \<longleftrightarrow> xs < ys"
  using assms
proof (induction xs arbitrary: ys)
  case Nil
  then show ?case using frac_val_pos [of ys] by (cases "ys = []") (auto simp: neq_Nil_conv)
next
  case (Cons x xs)
  show ?case
  proof (cases ys)
    case Nil
    then show ?thesis using frac_val_bounds(1) [of "x # xs"] Cons.prems by (simp add: no_trailing_zero_def not_less)
  next
    case (Cons y zs)
    note p = no_trailing_zero_Cons [OF Cons.prems(1)] no_trailing_zero_Cons [of y zs]
    have b: "0 \<le> frac_val xs" "frac_val xs < 1" "0 \<le> frac_val zs" "frac_val zs < 1"
      using p Cons Cons.prems frac_val_bounds by (auto simp: no_trailing_zero_def)
    have "digit_val x < digit_val y \<Longrightarrow> (of_nat (digit_val x) :: rat) + 1 \<le> of_nat (digit_val y)"
      "digit_val y < digit_val x \<Longrightarrow> (of_nat (digit_val y) :: rat) + 1 \<le> of_nat (digit_val x)"
      by (metis Suc_leI of_nat_Suc of_nat_le_iff add.commute)+
    moreover have "x < y \<longleftrightarrow> digit_val x < digit_val y" "y < x \<longleftrightarrow> digit_val y < digit_val x"
      using p Cons Cons.prems by (auto simp: digit_less_iff)
    moreover have "frac_val xs < frac_val zs \<longleftrightarrow> xs < zs" using Cons p Cons.prems Cons.IH by blast
    ultimately show ?thesis
      using b Cons by (cases x y rule: linorder_cases) (auto simp: frac_val_Cons divide_less_cancel)
  qed
qed

lemma complement_digit:
  assumes "is_ascii_digit c"
  shows "of_char (complement_digit c) = (105 - of_char c :: nat)"
  using assms by (auto simp: complement_digit_def is_ascii_digit_of_char)

lemma complement_less_iff:
  assumes "is_ascii_digit c" "is_ascii_digit d"
  shows "complement_digit c < complement_digit d \<longleftrightarrow> d < c" "complement_digit c = complement_digit d \<longleftrightarrow> c = d"
    "complement_digit c < NEG_TERMINATOR"
proof -
  note c = complement_digit [OF assms(1)] complement_digit [OF assms(2)]
  have r: "48 \<le> (of_char c :: nat)" "(of_char c :: nat) \<le> 57" "48 \<le> (of_char d :: nat)" "(of_char d :: nat) \<le> 57"
    using assms by (simp_all add: is_ascii_digit_of_char)
  show "complement_digit c < complement_digit d \<longleftrightarrow> d < c" using r by (auto simp: less_char_def c)
  show "complement_digit c = complement_digit d \<longleftrightarrow> c = d"
  proof
    assume "complement_digit c = complement_digit d"
    then have "(105 - of_char c :: nat) = 105 - of_char d" using c by metis
    then have "(of_char c :: nat) = of_char d" using r by linarith
    then show "c = d" by simp
  qed simp
  show "complement_digit c < NEG_TERMINATOR" using r by (simp add: less_char_def c NEG_TERMINATOR_def)
qed

lemma complement_order:
  assumes "list_all is_ascii_digit xs" "list_all is_ascii_digit ys"
  shows "map complement_digit xs @ [NEG_TERMINATOR] < map complement_digit ys @ [NEG_TERMINATOR] \<longleftrightarrow> ys < xs"
  using assms
proof (induction xs arbitrary: ys)
  case Nil
  have "\<not> NEG_TERMINATOR < complement_digit y \<and> NEG_TERMINATOR \<noteq> complement_digit y" if "is_ascii_digit y" for y
    using complement_less_iff(3) [OF that that] by (metis less_irrefl order.asym)
  with Nil show ?case by (cases ys) auto
next
  case (Cons x xs)
  then show ?case using complement_less_iff by (cases ys) auto
qed

subsection \<open>The exponent field\<close>

lemma length_show_nat: "n < 10 ^ k \<Longrightarrow> 0 < k \<Longrightarrow> length (show_nat n) \<le> k"
proof (induction k arbitrary: n)
  case (Suc k)
  show ?case
  proof (cases "n < 10")
    case True
    then show ?thesis by (simp add: show_nat.simps)
  next
    case False
    then have "0 < k" using Suc.prems by (cases k) auto
    moreover have "n div 10 < 10 ^ k" using Suc.prems by auto
    ultimately have "length (show_nat (n div 10)) \<le> k" using Suc.IH by blast
    with False show ?thesis by (subst show_nat.simps) simp
  qed
qed simp

lemma format_padded_field:
  assumes "0 \<le> i" "i < 10 ^ EXP_WIDTH"
  shows "length (format_padded EXP_WIDTH i) = EXP_WIDTH" "list_all is_ascii_digit (format_padded EXP_WIDTH i)"
    "digits_val (format_padded EXP_WIDTH i) = nat i"
proof -
  have "nat i < 10 ^ EXP_WIDTH" using assms by (simp add: nat_less_iff)
  then have "length (show_nat (nat i)) \<le> EXP_WIDTH" by (rule length_show_nat) (simp add: EXP_WIDTH_def)
  with assms(1) show "length (format_padded EXP_WIDTH i) = EXP_WIDTH" "list_all is_ascii_digit (format_padded EXP_WIDTH i)"
    "digits_val (format_padded EXP_WIDTH i) = nat i"
    by (simp_all add: format_padded_def pad_zeros_def digits_val_append list_all_iff [of _ "replicate _ _"])
qed

lemma format_padded_order:
  assumes "0 \<le> i" "i < 10 ^ EXP_WIDTH" "0 \<le> j" "j < 10 ^ EXP_WIDTH"
  shows "format_padded EXP_WIDTH i @ us < format_padded EXP_WIDTH j @ vs \<longleftrightarrow> i < j \<or> i = j \<and> us < vs"
proof -
  note f = format_padded_field [OF assms(1,2)] format_padded_field [OF assms(3,4)]
  have "format_padded EXP_WIDTH i = format_padded EXP_WIDTH j \<longleftrightarrow> i = j" using f assms by (metis eq_nat_nat_iff)
  with f assms show ?thesis by (auto simp: append_less_append digits_less_iff)
qed

subsection \<open>Numbers as digits and exponent\<close>

lemma sig_frac_bounds:
  assumes "sig_ok ds"
  shows "1 / 10 \<le> frac_val ds" "frac_val ds < 1"
proof -
  have "(10 :: rat) ^ (length ds - 1) \<le> of_nat (digits_val ds)"
    using sig_ok_value(1) [OF assms] by (metis of_nat_le_iff of_nat_numeral of_nat_power)
  moreover have "(10 :: rat) ^ length ds = 10 * 10 ^ (length ds - 1)"
    using assms by (metis length_greater_0_conv power_eq_if not_gr_zero sig_ok_def)
  ultimately show "1 / 10 \<le> frac_val ds" by (simp add: frac_val_def field_simps)
  show "frac_val ds < 1" using assms frac_val_bounds(2) by (simp add: sig_ok_def)
qed

lemma magnitude_bounds:
  assumes "sig_ok ds"
  shows "pow10 (e - 1) \<le> frac_val ds * pow10 e" "frac_val ds * pow10 e < pow10 e"
proof -
  have "pow10 (e - 1) = 1 / 10 * pow10 e" using pow10_add [of "e - 1" 1] by (simp add: pow10_def [of 1])
  also have "\<dots> \<le> frac_val ds * pow10 e"
    using sig_frac_bounds(1) [OF assms] by (intro mult_right_mono) (auto intro: less_imp_le)
  finally show "pow10 (e - 1) \<le> frac_val ds * pow10 e" .
  have "frac_val ds * pow10 e < 1 * pow10 e" using sig_frac_bounds(2) [OF assms] by (intro mult_strict_right_mono) auto
  then show "frac_val ds * pow10 e < pow10 e" by simp
qed

text \<open>The magnitude \<open>0.d1d2... * 10^E\<close> of a number with significant digits \<open>ds\<close>.\<close>

lemma magnitude_less_iff:
  assumes "sig_ok xs" "sig_ok ys"
  shows "frac_val xs * pow10 d < frac_val ys * pow10 e \<longleftrightarrow> d < e \<or> d = e \<and> xs < ys"
proof -
  have far: "frac_val us * pow10 i < frac_val vs * pow10 j" if "i < j" "sig_ok us" "sig_ok vs" for us vs i j
    using magnitude_bounds(2) [OF that(2), of i] magnitude_bounds(1) [OF that(3), of j] pow10_mono [of i "j - 1"] that(1) by linarith
  have eq: "frac_val xs * pow10 d < frac_val ys * pow10 d \<longleftrightarrow> xs < ys"
    using assms frac_less_iff by (simp add: mult_less_cancel_right_pos sig_ok_def no_trailing_zero_def)
  show ?thesis
    using far [of d e xs ys] far [of e d ys xs] eq assms by (cases d e rule: linorder_cases) auto
qed

lemma show_nat_sig: "0 < n \<Longrightarrow> \<not> 10 dvd n \<Longrightarrow> sig_ok (show_nat n)"
proof -
  assume n: "0 < n" "\<not> 10 dvd n"
  have z: "digit_char d \<noteq> CHR ''0''" if "d < 10" "0 < d" for d
  proof
    assume "digit_char d = CHR ''0''"
    then have "digit_val (digit_char d) = digit_val (CHR ''0'')" by simp
    with that show False by (simp add: digit_val_def [of "CHR ''0''"])
  qed
  have "hd (show_nat k) \<noteq> CHR ''0''" if "0 < k" for k
    using that
  proof (induction k rule: show_nat.induct)
    case (1 k)
    then show ?case using z [of k] by (subst show_nat.simps) (auto simp: hd_append)
  qed
  moreover have "last (show_nat n) \<noteq> CHR ''0''"
    using n z [of "n mod 10"] z [of n] by (subst show_nat.simps) (auto simp: dvd_eq_mod_eq_0)
  ultimately show ?thesis using n by (simp add: sig_ok_def)
qed

definition pos_key :: "string \<Rightarrow> int \<Rightarrow> string" where
  "pos_key ds e = ''2'' @ format_padded EXP_WIDTH (EXP_BIAS + e) @ ds"

definition neg_key :: "string \<Rightarrow> int \<Rightarrow> string" where
  "neg_key ds e = ''0'' @ format_padded EXP_WIDTH (EXP_BIAS - e) @ map complement_digit ds @ [NEG_TERMINATOR]"

lemma encode_form:
  assumes "bd_key_lawful B v" "v x \<noteq> 0"
  obtains ds e where "sig_ok ds" "\<bar>v x\<bar> = frac_val ds * pow10 e"
    "encode_orderable_number B x = (if v x < 0 then neg_key ds e else pos_key ds e)"
proof -
  let ?y = "bdk_normalized B (bdk_abs B x)"
  obtain m s where ms: "bdk_as_bigint_and_exponent B ?y = (m, s)" by fastforce
  note ops = bd_key_lawfulD [OF assms(1)]
  have y: "\<bar>v x\<bar> = of_int m * pow10 (- s)" using ops(6) [OF ms] by (simp add: ops(4,5))
  have "\<not> 10 dvd m" using ops(7) [OF ms] assms(2) by (simp add: ops(4))
  moreover have "0 < m"
  proof -
    have "0 < of_int m * pow10 (- s)" using assms(2) y by (metis zero_less_abs_iff)
    then show ?thesis using pow10_pos [of "- s"] by (simp add: zero_less_mult_iff)
  qed
  ultimately have sig: "sig_ok (show_nat (nat m))"
    by (intro show_nat_sig) (auto simp: int_dvd_int_iff [of 10 "nat m", symmetric])
  let ?ds = "show_nat (nat m)" let ?e = "int (length (show_nat (nat m))) - s"
  have "\<bar>v x\<bar> = frac_val ?ds * pow10 ?e"
    using y \<open>0 < m\<close> pow10_add [of "int (length ?ds)" "- s"] by (simp add: frac_val_def pow10_of_nat of_nat_nat)
  moreover have "encode_orderable_number B x = (if v x < 0 then neg_key ?ds ?e else pos_key ?ds ?e)"
    using assms(2) ms \<open>0 < m\<close>
    by (simp add: ops(1-3) encode_orderable_number_def neg_key_def pos_key_def bigint_to_string_def Let_def)
  ultimately show ?thesis using sig that by blast
qed

text \<open>The numbers the exponent field has room for; every number the number validation accepts is one of them.\<close>

definition key_range :: "rat \<Rightarrow> bool" where
  "key_range x \<longleftrightarrow> x = 0 \<or> pow10 (- EXP_BIAS - 1) \<le> \<bar>x\<bar> \<and> \<bar>x\<bar> < pow10 EXP_BIAS"

lemma accepted_key_range:
  assumes "validate_and_normalize_number s = Inr r" "length s < 2 ^ 60"
  shows "\<exists>x. number_value s = Some x \<and> key_range x"
proof -
  have "pow10 (- EXP_BIAS - 1) \<le> pow10 (- 130)" "pow10 126 \<le> pow10 EXP_BIAS" by (rule pow10_mono; simp add: EXP_BIAS_def)+
  then have "key_range (dec_value n d e)" if "canon d e" for n d e
    using canon_value_bounds [OF that, of n] unfolding key_range_def by linarith
  with validate_cases [OF assms] show ?thesis by (metis key_range_def)
qed

lemma key_range_exponent:
  assumes "key_range x" "x \<noteq> 0" "sig_ok ds" "\<bar>x\<bar> = frac_val ds * pow10 e"
  shows "\<bar>e\<bar> \<le> EXP_BIAS"
proof -
  have "pow10 (e - 1) < pow10 EXP_BIAS" "pow10 (- EXP_BIAS - 1) < pow10 e"
    using assms(1,2,4) magnitude_bounds [OF assms(3), of e] unfolding key_range_def by linarith+
  then have "e - 1 < EXP_BIAS" "- EXP_BIAS - 1 < e" using pow10_mono by (meson not_less)+
  then show ?thesis by linarith
qed

lemma key_order:
  assumes "sig_ok xs" "sig_ok ys" "\<bar>d\<bar> \<le> EXP_BIAS" "\<bar>e\<bar> \<le> EXP_BIAS"
  shows "pos_key xs d < pos_key ys e \<longleftrightarrow> frac_val xs * pow10 d < frac_val ys * pow10 e"
    "neg_key xs d < neg_key ys e \<longleftrightarrow> frac_val ys * pow10 e < frac_val xs * pow10 d"
proof -
  have r: "0 \<le> EXP_BIAS + i" "EXP_BIAS + i < 10 ^ EXP_WIDTH" "0 \<le> EXP_BIAS - i" "EXP_BIAS - i < 10 ^ EXP_WIDTH" if "\<bar>i\<bar> \<le> EXP_BIAS" for i
    using that by (auto simp: EXP_BIAS_def EXP_WIDTH_def)
  show "pos_key xs d < pos_key ys e \<longleftrightarrow> frac_val xs * pow10 d < frac_val ys * pow10 e"
    using r [OF assms(3)] r [OF assms(4)] by (simp add: pos_key_def format_padded_order magnitude_less_iff [OF assms(1,2)])
  have "list_all is_ascii_digit xs" "list_all is_ascii_digit ys" using assms by (simp_all add: sig_ok_def)
  then show "neg_key xs d < neg_key ys e \<longleftrightarrow> frac_val ys * pow10 e < frac_val xs * pow10 d"
    using r [OF assms(3)] r [OF assms(4)]
    by (auto simp: neg_key_def format_padded_order magnitude_less_iff [OF assms(2,1)] complement_order)
qed

text \<open>The first byte orders the three classes.\<close>

lemma class_order:
  "neg_key xs d < ''1''" "\<not> ''1'' < neg_key xs d" "''1'' < pos_key xs d" "\<not> pos_key xs d < ''1''"
  "neg_key xs d < pos_key ys e" "\<not> pos_key ys e < neg_key xs d"
  by (simp_all add: neg_key_def pos_key_def less_char_def)

lemma encode_less_iff:
  assumes "bd_key_lawful B v" "key_range (v x)" "key_range (v y)"
  shows "encode_orderable_number B x < encode_orderable_number B y \<longleftrightarrow> v x < v y"
proof -
  have zero: "encode_orderable_number B z = ''1''" if "v z = 0" for z
    using that bd_key_lawfulD(3) [OF assms(1)] by (simp add: encode_orderable_number_def)
  have form: "\<exists>ds e. sig_ok ds \<and> \<bar>e\<bar> \<le> EXP_BIAS \<and> \<bar>v z\<bar> = frac_val ds * pow10 e \<and>
      encode_orderable_number B z = (if v z < 0 then neg_key ds e else pos_key ds e)" if "v z \<noteq> 0" "key_range (v z)" for z
    using encode_form [OF assms(1) that(1)] key_range_exponent [OF that(2,1)] by metis
  show ?thesis
  proof (cases "v x = 0 \<or> v y = 0")
    case True
    have "(encode_orderable_number B z < ''1'' \<longleftrightarrow> v z < 0) \<and> (''1'' < encode_orderable_number B z \<longleftrightarrow> 0 < v z)"
      if kr: "key_range (v z)" for z
    proof (cases "v z = 0")
      case nz: False
      obtain ds e where "encode_orderable_number B z = (if v z < 0 then neg_key ds e else pos_key ds e)"
        using form [OF nz kr] by blast
      with nz class_order show ?thesis by (cases "v z < 0") auto
    qed (simp add: zero)
    with True assms(2,3) zero show ?thesis by metis
  next
    case False
    then obtain xs d ys e where X: "sig_ok xs" "\<bar>d\<bar> \<le> EXP_BIAS" "\<bar>v x\<bar> = frac_val xs * pow10 d"
        "encode_orderable_number B x = (if v x < 0 then neg_key xs d else pos_key xs d)"
      and Y: "sig_ok ys" "\<bar>e\<bar> \<le> EXP_BIAS" "\<bar>v y\<bar> = frac_val ys * pow10 e"
        "encode_orderable_number B y = (if v y < 0 then neg_key ys e else pos_key ys e)"
      using form [of x] form [of y] assms(2,3) by blast
    note k = key_order [OF X(1) Y(1) X(2) Y(2)]
    show ?thesis
      using False X(3,4) Y(3,4) class_order k by (cases "v x < 0"; cases "v y < 0") (auto simp: abs_if)
  qed
qed

subsection \<open>A decimal type\<close>

text \<open>Pairs of a mantissa and a scale, as the crate has them.\<close>

function strip_zeros :: "int \<Rightarrow> int \<Rightarrow> int \<times> int" where
  "strip_zeros m s = (if m = 0 then (0, 0) else if m mod 10 = 0 then strip_zeros (m div 10) (s - 1) else (m, s))"
  by pat_completeness auto
termination by (relation "measure (\<lambda>(m, s). nat \<bar>m\<bar>)") auto

declare strip_zeros.simps [simp del]

definition pair_value :: "int \<times> int \<Rightarrow> rat" where
  "pair_value x = of_int (fst x) * pow10 (- snd x)"

definition pair_bd :: "(int \<times> int) bd_key_ops" where
  "pair_bd = \<lparr>bdk_cmp = (\<lambda>x y. cmp_ord (pair_value x) (pair_value y)), bdk_zero = (0, 0), bdk_is_zero = (\<lambda>x. fst x = 0),
     bdk_abs = (\<lambda>x. (\<bar>fst x\<bar>, snd x)), bdk_normalized = (\<lambda>x. strip_zeros (fst x) (snd x)), bdk_as_bigint_and_exponent = (\<lambda>x. x)\<rparr>"

lemma strip_zeros_value: "pair_value (strip_zeros m s) = pair_value (m, s)"
proof (induction m s rule: strip_zeros.induct)
  case (1 m s)
  show ?case
  proof (cases "m \<noteq> 0 \<and> m mod 10 = 0")
    case True
    then have "m = 10 * (m div 10)" by auto
    then have "of_int m = (10 :: rat) * of_int (m div 10)" by (metis of_int_mult of_int_numeral)
    moreover have "pow10 (- (s - 1)) = 10 * pow10 (- s)" using pow10_add [of 1 "- s"] by (simp add: pow10_def [of 1])
    ultimately have "pair_value (m div 10, s - 1) = pair_value (m, s)" by (simp add: pair_value_def)
    with 1 True show ?thesis by (subst strip_zeros.simps) simp
  qed (subst strip_zeros.simps, auto simp: pair_value_def)
qed

lemma strip_zeros_last: "m \<noteq> 0 \<Longrightarrow> \<not> 10 dvd fst (strip_zeros m s)"
proof (induction m s rule: strip_zeros.induct)
  case (1 m s)
  then show ?case by (subst strip_zeros.simps) (auto simp: dvd_eq_mod_eq_0)
qed

lemma pair_bd_lawful: "bd_key_lawful pair_bd pair_value"
proof -
  have "\<bar>pair_value x\<bar> = pair_value (\<bar>fst x\<bar>, snd x)" for x by (simp add: pair_value_def abs_mult abs_of_pos)
  moreover have "pair_value x = 0 \<longleftrightarrow> fst x = 0" for x by (simp add: pair_value_def)
  ultimately show ?thesis
    by (simp add: bd_key_lawful_def pair_bd_def strip_zeros_value strip_zeros_last) (simp add: pair_value_def)
qed

subsection \<open>The order of number sort keys\<close>

text \<open>
  C8: the byte order of the encodings is the order of the numbers, and two encodings are equal exactly for equal
  numbers, for all numbers whose decimal exponent is within the bias; so a \<open>TEXT\<close> column compared bytewise
  orders, ranges over and identifies number sort keys exactly.
\<close>

theorem number_key_order:
  assumes "bd_key_lawful B v" "key_range (v x)" "key_range (v y)"
  shows "cmp_ord (encode_orderable_number B x) (encode_orderable_number B y) = bdk_cmp B x y"
  using encode_less_iff [OF assms] encode_less_iff [OF assms(1,3,2)] bd_key_lawfulD(1) [OF assms(1), of x y]
  by (metis cmp_ord_def not_less_iff_gr_or_eq)

text \<open>Minus 20 (as \<open>-200\<close> with one decimal) sorts below minus 3.\<close>

theorem number_key_order_witness:
  "encode_orderable_number pair_bd (-200, 1) < encode_orderable_number pair_bd (-3, 0) \<and>
   cmp_ord (encode_orderable_number pair_bd (-200, 1)) (encode_orderable_number pair_bd (-3, 0)) =
     bdk_cmp pair_bd (-200, 1) (-3, 0)"
proof -
  have "pow10 (- EXP_BIAS - 1) \<le> pow10 0" "pow10 2 \<le> pow10 EXP_BIAS"
    by (rule pow10_mono; simp add: EXP_BIAS_def)+
  moreover have "pair_value (-200, 1) = -20" "pair_value (-3, 0) = -3" "pow10 2 = 100"
    by (simp_all add: pair_value_def pow10_def)
  ultimately have k: "key_range (pair_value (-200, 1))" "key_range (pair_value (-3, 0))"
    by (simp_all add: key_range_def)
  have "bdk_cmp pair_bd (-200, 1) (-3, 0) = Less"
    by (simp add: pair_bd_def pair_value_def pow10_def)
  with number_key_order [OF pair_bd_lawful k] show ?thesis by simp
qed

end
