(* ===== verification/Storage_Key.thy ===== *)
theory Storage_Key
  imports Key_Condition
begin

text \<open>
  \<open>crates/storage/src/util/key.rs\<close>: how the storage layer turns key values into columns.  Partition keys are one text,
  with the netstring encoding for several hash attributes; sort keys go to a column chosen by position and type; the
  attribute definitions of a table are merged and pruned by \<open>UpdateTable\<close> and recovered from the primary key columns.
  The crate \<open>base64\<close> is the parameter \<open>b64\<close>, the decimal parser the record \<open>bd_ops\<close>.
\<close>

text \<open>The errors of the storage layer that these functions return.\<close>

datatype StorageError = SE_Internal string | SE_Validation string

type_synonym 'a storage_result = "StorageError + 'a"

datatype 'd SortKeyValue = SKV_S string | SKV_N 'd | SKV_B "u8 list"

subsection \<open>Partition keys\<close>

fun hash_key_text :: "(u8 list \<Rightarrow> string) \<Rightarrow> AttributeValue \<Rightarrow> string option" where
  "hash_key_text b64 (AV_S s) = Some s"
| "hash_key_text b64 (AV_N n) = Some n"
| "hash_key_text b64 (AV_B b) = Some (b64 b)"
| "hash_key_text b64 _ = None"

definition pk_to_text :: "(u8 list \<Rightarrow> string) \<Rightarrow> AttributeValue \<Rightarrow> string storage_result" where
  "pk_to_text b64 v = ok_or (hash_key_text b64 v) (SE_Internal ''partition key must be S, N, or B'')"

definition netstring :: "string \<Rightarrow> string" where
  "netstring p = show_nat (length p) @ '':'' @ p @ '',''"

definition encode_netstring_composite :: "string list \<Rightarrow> string" where
  "encode_netstring_composite ps = foldl (\<lambda>out p. out @ netstring p) [] ps"

definition pk_part :: "(u8 list \<Rightarrow> string) \<Rightarrow> Item \<Rightarrow> KeySchemaElement \<Rightarrow> string storage_result" where
  "pk_part b64 item ks =
     bind_r (ok_or (bt_get item (ks_attribute_name ks)) (SE_Internal (''missing partition key attribute '' @ ks_attribute_name ks)))
       (pk_to_text b64)"

definition composite_pk_to_text :: "(u8 list \<Rightarrow> string) \<Rightarrow> Item \<Rightarrow> KeySchemaElement list \<Rightarrow> string storage_result" where
  "composite_pk_to_text b64 item key_schema =
     (let hash_elements = filter (\<lambda>ks. ks_key_type ks = Hash) key_schema
      in if length hash_elements = 1
         then bind_r (ok_or (bt_get item (ks_attribute_name (hd hash_elements))) (SE_Internal ''missing partition key''))
                (pk_to_text b64)
         else bind_r (try_map (pk_part b64 item) hash_elements) (\<lambda>ps. Inr (encode_netstring_composite ps)))"

subsection \<open>Sort keys\<close>

definition parse_sk :: "'d bd_ops \<Rightarrow> (string \<Rightarrow> string) \<Rightarrow> AttributeValue \<Rightarrow> ScalarAttributeType \<Rightarrow> 'd SortKeyValue storage_result" where
  "parse_sk B parse_error v sk_type =
     (case (sk_type, v) of
        (Scalar_S, AV_S s) \<Rightarrow> Inr (SKV_S s)
      | (Scalar_N, AV_N n) \<Rightarrow>
          bind_r (ok_or (bd_parse B n) (SE_Internal (''invalid numeric sort key: '' @ parse_error n))) (\<lambda>d. Inr (SKV_N d))
      | (Scalar_B, AV_B b) \<Rightarrow> Inr (SKV_B b)
      | _ \<Rightarrow> Inl (SE_Internal ''sort key type mismatch''))"

fun sk_column :: "ScalarAttributeType \<Rightarrow> string" where
  "sk_column Scalar_S = ''sk_s''"
| "sk_column Scalar_N = ''sk_n''"
| "sk_column Scalar_B = ''sk_b''"

fun sk_suffix :: "ScalarAttributeType \<Rightarrow> string" where
  "sk_suffix Scalar_S = ''s''"
| "sk_suffix Scalar_N = ''n''"
| "sk_suffix Scalar_B = ''b''"

definition sk_column_n :: "nat \<Rightarrow> ScalarAttributeType \<Rightarrow> string" where
  "sk_column_n index attr_type =
     (if index = 0 then ''sk_'' @ sk_suffix attr_type else ''sk'' @ show_nat (index + 1) @ ''_'' @ sk_suffix attr_type)"

definition sk_info :: "KeySchemaElement list \<Rightarrow> AttributeDefinition list \<Rightarrow> (string \<times> ScalarAttributeType) option" where
  "sk_info key_schema attr_defs =
     Option.bind (find (\<lambda>ks. ks_key_type ks = Range) key_schema) (\<lambda>sk_element.
       Option.bind (find (\<lambda>ad. ad_attribute_name ad = ks_attribute_name sk_element) attr_defs) (\<lambda>attr_def.
         Some (ks_attribute_name sk_element, ad_attribute_type attr_def)))"

definition cond_attr :: "(string \<times> string) list \<Rightarrow> PathElement list \<Rightarrow> string option" where
  "cond_attr names path =
     (case path of
        P_Attribute name # _ \<Rightarrow> (case strip_prefix name ''#'' of None \<Rightarrow> Some name | Some r \<Rightarrow> map_of names r)
      | _ \<Rightarrow> None)"

text \<open>\<open>Iterator::min\<close> of positions paired with names.\<close>

fun min_pair :: "(nat \<times> string) list \<Rightarrow> (nat \<times> string) option" where
  "min_pair [] = None"
| "min_pair (x # xs) =
     (case min_pair xs of
        None \<Rightarrow> Some x
      | Some y \<Rightarrow> Some (if fst y < fst x \<or> fst y = fst x \<and> snd y < snd x then y else x))"

definition refuse_conditions_beyond_first_range :: "KeyCondition \<Rightarrow> KeySchemaElement list \<Rightarrow> (string \<times> string) list \<Rightarrow>
    string \<Rightarrow> unit storage_result" where
  "refuse_conditions_beyond_first_range key_condition key_schema names backend =
     (let range_attrs = map ks_attribute_name (filter (\<lambda>ks. ks_key_type ks = Range) key_schema);
          conditioned = List.map_filter (\<lambda>(path, _). cond_attr names path) (extra_sk_conditions key_condition) @
            (case sk_condition key_condition of
               None \<Rightarrow> []
             | Some sk \<Rightarrow> (case cond_attr names (sk_path sk) of None \<Rightarrow> [] | Some attr \<Rightarrow> [attr]));
          beyond = min_pair (List.map_filter
            (\<lambda>attr. case position range_attrs attr of
                      None \<Rightarrow> None
                    | Some pos \<Rightarrow> if pos > 0 then Some (pos, attr) else None) conditioned)
      in case beyond of
           Some (_, attr) \<Rightarrow>
             Inl (SE_Validation (''Key condition on '' @ attr @ '': the '' @ backend @
               '' backend applies a key condition to the first RANGE attribute of a multi-attribute index only''))
         | None \<Rightarrow> Inr ())"

subsection \<open>Attribute definitions\<close>

definition add_definition :: "AttributeDefinition list \<Rightarrow> AttributeDefinition \<Rightarrow> AttributeDefinition list" where
  "add_definition merged new_def =
     (if list_ex (\<lambda>ad. ad_attribute_name ad = ad_attribute_name new_def) merged then merged else merged @ [new_def])"

definition merge_attribute_definitions :: "AttributeDefinition list \<Rightarrow> AttributeDefinition list \<Rightarrow> AttributeDefinition list" where
  "merge_attribute_definitions existing incoming = foldl add_definition existing incoming"

definition effective_attribute_definitions :: "AttributeDefinition list \<Rightarrow> AttributeDefinition list \<Rightarrow> KeySchemaElement list \<Rightarrow>
    KeySchemaElement list list \<Rightarrow> AttributeDefinition list" where
  "effective_attribute_definitions stored requested table_key_schema surviving_index_key_schemas =
     (let referenced = set (map ks_attribute_name table_key_schema) \<union>
            \<Union> (set (map (\<lambda>ks. set (map ks_attribute_name ks)) surviving_index_key_schemas))
      in filter (\<lambda>def. ad_attribute_name def \<in> referenced) (merge_attribute_definitions stored requested))"

text \<open>The primary key columns of a data table as the SQLite backend creates it.\<close>

definition all_sort_key_info :: "KeySchemaElement list \<Rightarrow> AttributeDefinition list \<Rightarrow> (string \<times> ScalarAttributeType) list" where
  "all_sort_key_info key_schema attr_defs =
     List.map_filter (\<lambda>ks. map_option (\<lambda>ad. (ks_attribute_name ks, ad_attribute_type ad))
         (find (\<lambda>ad. ad_attribute_name ad = ks_attribute_name ks) attr_defs))
       (filter (\<lambda>ks. ks_key_type ks = Range) key_schema)"

definition create_data_table_key_columns :: "KeySchemaElement list \<Rightarrow> AttributeDefinition list \<Rightarrow> string list" where
  "create_data_table_key_columns key_schema attr_defs =
     ''pk'' # map (\<lambda>(i, _, sk_type). sk_column_n i sk_type) (enumerate 0 (all_sort_key_info key_schema attr_defs))"

definition recover_element :: "AttributeDefinition list \<Rightarrow> string list \<Rightarrow> nat \<times> KeySchemaElement \<Rightarrow> AttributeDefinition option" where
  "recover_element attr_defs primary_key_columns pe =
     (if list_ex (\<lambda>ad. ad_attribute_name ad = ks_attribute_name (snd pe)) attr_defs then None
      else case find (\<lambda>candidate. list_ex (\<lambda>c. c = sk_column_n (fst pe) candidate) primary_key_columns)
                  [Scalar_S, Scalar_N, Scalar_B] of
             None \<Rightarrow> None
           | Some attr_type \<Rightarrow> Some \<lparr>ad_attribute_name = ks_attribute_name (snd pe), ad_attribute_type = attr_type\<rparr>)"

definition recover_sort_key_definitions :: "KeySchemaElement list \<Rightarrow> AttributeDefinition list \<Rightarrow> string list \<Rightarrow>
    AttributeDefinition list" where
  "recover_sort_key_definitions base_key_schema attr_defs primary_key_columns =
     List.map_filter (recover_element attr_defs primary_key_columns)
       (enumerate 0 (filter (\<lambda>ks. ks_key_type ks = Range) base_key_schema))"

subsection \<open>Composite partition keys\<close>

lemma encode_netstring_concat: "encode_netstring_composite ps = concat (map netstring ps)"
proof -
  have "foldl (\<lambda>out p. out @ netstring p) acc ps = acc @ concat (map netstring ps)" for acc
    by (induction ps arbitrary: acc) simp_all
  then show ?thesis by (simp add: encode_netstring_composite_def)
qed

lemma netstring_decodes:
  assumes "netstring p @ r = netstring q @ s"
  shows "p = q \<and> r = s"
proof -
  have digits: "takeWhile is_ascii_digit (show_nat n @ '':'' @ x) = show_nat n" for n x
    using show_nat_digits [of n] by (simp add: takeWhile_append list_all_iff is_ascii_digit_def less_eq_char_def)
  have e: "show_nat (length p) @ '':'' @ (p @ '','' @ r) = show_nat (length q) @ '':'' @ (q @ '','' @ s)"
    using assms by (simp add: netstring_def)
  then have "show_nat (length p) = show_nat (length q)" using digits by metis
  then have "length p = length q" by simp
  with e show ?thesis by simp
qed

lemma encode_netstring_inject: "encode_netstring_composite ps = encode_netstring_composite qs \<longleftrightarrow> ps = qs"
  unfolding encode_netstring_concat
proof (induction ps arbitrary: qs)
  case Nil
  then show ?case by (cases qs) (simp_all add: netstring_def)
next
  case (Cons p ps)
  show ?case
  proof (cases qs)
    case Nil
    then show ?thesis by (simp add: netstring_def)
  next
    case (Cons q rs)
    with Cons.IH netstring_decodes [of p "concat (map netstring ps)" q "concat (map netstring rs)"] show ?thesis by auto
  qed
qed

lemma hash_key_text_inject:
  assumes "inj b64" "hash_key_text b64 v = Some t" "hash_key_text b64 w = Some t" "attribute_type_code v = attribute_type_code w"
  shows "v = w"
  using assms by (cases v; cases w) (auto dest: injD)

lemma pk_part_Inr:
  "pk_part b64 item ks = Inr t \<longleftrightarrow> (\<exists>v. bt_get item (ks_attribute_name ks) = Some v \<and> hash_key_text b64 v = Some t)"
  by (auto simp: pk_part_def pk_to_text_def res_simps)

text \<open>The text of the parts: a single part stands for itself.\<close>

definition key_text :: "string list \<Rightarrow> string" where
  "key_text ps = (if length ps = 1 then hd ps else encode_netstring_composite ps)"

lemma key_text_inject: "length ps = length qs \<Longrightarrow> key_text ps = key_text qs \<longleftrightarrow> ps = qs"
  by (cases ps; cases qs) (auto simp: key_text_def encode_netstring_inject)

lemma composite_parts:
  assumes "composite_pk_to_text b64 item schema = Inr t"
  obtains ps where "list_all2 (\<lambda>ks p. pk_part b64 item ks = Inr p) (filter (\<lambda>ks. ks_key_type ks = Hash) schema) ps"
    "t = key_text ps"
proof (cases "length (filter (\<lambda>ks. ks_key_type ks = Hash) schema) = 1")
  case True
  then obtain ks where ks: "filter (\<lambda>ks. ks_key_type ks = Hash) schema = [ks]" by (auto simp: length_Suc_conv)
  with assms have "pk_part b64 item ks = Inr t"
    by (auto simp: composite_pk_to_text_def pk_part_Inr pk_to_text_def res_simps)
  with ks that [of "[t]"] show ?thesis by (simp add: key_text_def)
next
  case False
  then obtain ps where ps: "list_all2 (\<lambda>ks p. pk_part b64 item ks = Inr p) (filter (\<lambda>ks. ks_key_type ks = Hash) schema) ps"
      "t = encode_netstring_composite ps"
    using assms by (auto simp: composite_pk_to_text_def res_simps try_map_Inr_iff)
  from False ps(1) have "length ps \<noteq> 1" by (metis list_all2_lengthD)
  with ps that show ?thesis by (simp add: key_text_def)
qed

text \<open>
  C10: two items whose partition key attributes have the types of the table are stored under the same partition key
  text exactly when they agree on every partition key attribute, however many there are and whatever bytes they hold.
\<close>

theorem composite_pk_injective:
  assumes "inj b64" "composite_pk_to_text b64 item schema = Inr t" "composite_pk_to_text b64 item' schema = Inr t'"
    and "\<forall>ks \<in> set schema. ks_key_type ks = Hash \<longrightarrow>
       map_option attribute_type_code (bt_get item (ks_attribute_name ks)) =
       map_option attribute_type_code (bt_get item' (ks_attribute_name ks))"
  shows "t = t' \<longleftrightarrow> (\<forall>ks \<in> set schema. ks_key_type ks = Hash \<longrightarrow>
       bt_get item (ks_attribute_name ks) = bt_get item' (ks_attribute_name ks))"
proof -
  let ?hs = "filter (\<lambda>ks. ks_key_type ks = Hash) schema"
  obtain ps where ps: "list_all2 (\<lambda>ks p. pk_part b64 item ks = Inr p) ?hs ps"
    "t = key_text ps" by (rule composite_parts [OF assms(2)])
  obtain qs where qs: "list_all2 (\<lambda>ks p. pk_part b64 item' ks = Inr p) ?hs qs"
    "t' = key_text qs" by (rule composite_parts [OF assms(3)])
  have len: "length ps = length ?hs" "length qs = length ?hs" using ps(1) qs(1) by (metis list_all2_lengthD)+
  have "t = t' \<longleftrightarrow> ps = qs" using ps(2) qs(2) len key_text_inject [of ps qs] by simp
  also have "\<dots> \<longleftrightarrow> (\<forall>i < length ?hs. ps ! i = qs ! i)" using len by (simp add: list_eq_iff_nth_eq)
  also have "\<dots> \<longleftrightarrow> (\<forall>i < length ?hs. bt_get item (ks_attribute_name (?hs ! i)) = bt_get item' (ks_attribute_name (?hs ! i)))"
  proof (rule all_cong)
    fix i assume i: "i < length ?hs"
    then have "?hs ! i \<in> set ?hs" by (rule nth_mem)
    then have "?hs ! i \<in> set schema" "ks_key_type (?hs ! i) = Hash" by auto
    with assms(4) have ty: "map_option attribute_type_code (bt_get item (ks_attribute_name (?hs ! i))) =
        map_option attribute_type_code (bt_get item' (ks_attribute_name (?hs ! i)))" by blast
    have "pk_part b64 item (?hs ! i) = Inr (ps ! i)" "pk_part b64 item' (?hs ! i) = Inr (qs ! i)"
      using i ps(1) qs(1) by (auto simp: list_all2_conv_all_nth)
    then show "ps ! i = qs ! i \<longleftrightarrow> bt_get item (ks_attribute_name (?hs ! i)) = bt_get item' (ks_attribute_name (?hs ! i))"
      using ty hash_key_text_inject [OF assms(1)] by (auto simp: pk_part_Inr)
  qed
  also have "\<dots> \<longleftrightarrow> (\<forall>ks \<in> set ?hs. bt_get item (ks_attribute_name ks) = bt_get item' (ks_attribute_name ks))"
    by (metis in_set_conv_nth)
  finally show ?thesis by auto
qed

text \<open>Two hash attributes whose values run into each other when written one after the other.\<close>

definition byte_text :: "u8 list \<Rightarrow> string" where
  "byte_text b = map (\<lambda>w. char_of (unat w)) b"

lemma inj_byte_text: "inj byte_text"
proof -
  have "inj (\<lambda>w :: u8. char_of (unat w) :: char)"
  proof (rule injI)
    fix x y :: u8 assume "char_of (unat x) = (char_of (unat y) :: char)"
    then have "unat x mod 256 = unat y mod 256" by (metis of_char_of)
    moreover have "unat x < 256" "unat y < 256" using unsigned_less [of x, where ?'a = nat] unsigned_less [of y, where ?'a = nat] by simp_all
    ultimately show "x = y" by (simp add: word_unat_eq_iff)
  qed
  then show ?thesis unfolding byte_text_def by (rule inj_mapI)
qed

theorem composite_pk_injective_witness:
  "composite_pk_to_text byte_text [(''a'', AV_S ''x''), (''b'', AV_S '',1:y'')]
     [\<lparr>ks_attribute_name = ''a'', ks_key_type = Hash\<rparr>, \<lparr>ks_attribute_name = ''b'', ks_key_type = Hash\<rparr>] = Inr ''1:x,4:,1:y,'' \<and>
   composite_pk_to_text byte_text [(''a'', AV_S ''x,4:''), (''b'', AV_S ''y'')]
     [\<lparr>ks_attribute_name = ''a'', ks_key_type = Hash\<rparr>, \<lparr>ks_attribute_name = ''b'', ks_key_type = Hash\<rparr>] = Inr ''4:x,4:,1:y,'' \<and>
   ''1:x,4:,1:y,'' \<noteq> ''4:x,4:,1:y,''"
proof -
  let ?s = "[\<lparr>ks_attribute_name = ''a'', ks_key_type = Hash\<rparr>, \<lparr>ks_attribute_name = ''b'', ks_key_type = Hash\<rparr>]"
  let ?i = "[(''a'', AV_S ''x''), (''b'', AV_S '',1:y'')]" let ?j = "[(''a'', AV_S ''x,4:''), (''b'', AV_S ''y'')]"
  have c: "composite_pk_to_text byte_text ?i ?s = Inr ''1:x,4:,1:y,''" "composite_pk_to_text byte_text ?j ?s = Inr ''4:x,4:,1:y,''"
    by code_simp+
  from composite_pk_injective [OF inj_byte_text c] have "''1:x,4:,1:y,'' \<noteq> ''4:x,4:,1:y,''"
    by (simp add: bt_get_def)
  with c show ?thesis by blast
qed

subsection \<open>Definitions of key attributes\<close>

abbreviation def_of :: "AttributeDefinition list \<Rightarrow> string \<Rightarrow> AttributeDefinition option" where
  "def_of defs n \<equiv> find (\<lambda>ad. ad_attribute_name ad = n) defs"

lemma def_of_append: "def_of (xs @ ys) n = (case def_of xs n of Some d \<Rightarrow> Some d | None \<Rightarrow> def_of ys n)"
  by (induction xs) auto

lemma def_of_None: "def_of defs n = None \<longleftrightarrow> \<not> list_ex (\<lambda>ad. ad_attribute_name ad = n) defs"
  by (induction defs) auto

lemma def_of_name: "def_of defs n = Some d \<Longrightarrow> ad_attribute_name d = n"
  by (auto simp: find_Some_iff)

lemma def_of_merge:
  "def_of (merge_attribute_definitions existing incoming) n =
     (case def_of existing n of Some d \<Rightarrow> Some d | None \<Rightarrow> def_of incoming n)"
  unfolding merge_attribute_definitions_def
proof (induction incoming arbitrary: existing)
  case Nil
  then show ?case by (simp split: option.split)
next
  case (Cons d ds)
  have "def_of (add_definition existing d) n = (case def_of existing n of Some e \<Rightarrow> Some e | None \<Rightarrow> def_of [d] n)"
    using def_of_None [of "ad_attribute_name d" existing]
    by (cases "def_of existing n") (auto simp: add_definition_def def_of_append)
  with Cons.IH [of "add_definition existing d"] show ?case by (auto split: option.split)
qed

lemma merge_distinct:
  "distinct (map ad_attribute_name existing) \<Longrightarrow> distinct (map ad_attribute_name (merge_attribute_definitions existing incoming))"
  unfolding merge_attribute_definitions_def
proof (induction incoming arbitrary: existing)
  case (Cons d ds)
  then have "distinct (map ad_attribute_name (add_definition existing d))" by (auto simp: add_definition_def list_ex_iff)
  with Cons.IH show ?case by simp
qed simp

lemma def_of_filter: "def_of (filter (\<lambda>d. P (ad_attribute_name d)) defs) n = (if P n then def_of defs n else None)"
  by (induction defs) auto

lemma def_of_effective:
  "def_of (effective_attribute_definitions stored requested schema indexes) n =
     (if \<exists>ks \<in> insert schema (set indexes). n \<in> ks_attribute_name ` set ks
      then (case def_of stored n of Some d \<Rightarrow> Some d | None \<Rightarrow> def_of requested n) else None)"
  using def_of_filter [of n "\<lambda>m. m \<in> ks_attribute_name ` set schema \<or> (\<exists>x \<in> set indexes. m \<in> ks_attribute_name ` set x)"
      "merge_attribute_definitions stored requested"]
  by (simp add: effective_attribute_definitions_def Let_def def_of_merge)

lemma sk_info_def_of:
  "sk_info schema defs =
     (case find (\<lambda>ks. ks_key_type ks = Range) schema of
        None \<Rightarrow> None
      | Some ks \<Rightarrow> map_option (\<lambda>d. (ks_attribute_name ks, ad_attribute_type d)) (def_of defs (ks_attribute_name ks)))"
  by (auto simp: sk_info_def map_option_case Option.bind_def split: option.split)

text \<open>
  C39: the attribute definitions after an \<open>UpdateTable\<close> hold a key attribute of the table or of a surviving index as
  it was stored, or as requested when it is new, and nothing else; so the sort key of the table and of every
  surviving index keeps its type whatever the request declares, and names stay distinct.
\<close>

theorem effective_definitions_keep_keys:
  "def_of (effective_attribute_definitions stored requested schema indexes) n =
     (if \<exists>ks \<in> insert schema (set indexes). n \<in> ks_attribute_name ` set ks
      then (case def_of stored n of Some d \<Rightarrow> Some d | None \<Rightarrow> def_of requested n) else None) \<and>
   (ks \<in> insert schema (set indexes) \<and> sk_info ks stored = Some info \<longrightarrow>
      sk_info ks (effective_attribute_definitions stored requested schema indexes) = Some info) \<and>
   (distinct (map ad_attribute_name stored) \<longrightarrow>
      distinct (map ad_attribute_name (effective_attribute_definitions stored requested schema indexes)))"
proof (intro conjI impI)
  assume a: "ks \<in> insert schema (set indexes) \<and> sk_info ks stored = Some info"
  then obtain e d where e: "find (\<lambda>ks. ks_key_type ks = Range) ks = Some e" "def_of stored (ks_attribute_name e) = Some d"
    by (auto simp: sk_info_def_of split: option.split_asm)
  then have "e \<in> set ks" by (auto simp: find_Some_iff)
  with a have "\<exists>ks \<in> insert schema (set indexes). ks_attribute_name e \<in> ks_attribute_name ` set ks" by blast
  with a e show "sk_info ks (effective_attribute_definitions stored requested schema indexes) = Some info"
    by (simp add: sk_info_def_of def_of_effective)
next
  assume "distinct (map ad_attribute_name stored)"
  then show "distinct (map ad_attribute_name (effective_attribute_definitions stored requested schema indexes))"
    by (simp add: effective_attribute_definitions_def Let_def distinct_map_filter merge_distinct)
qed (rule def_of_effective)

text \<open>A request that declares the sort key with another type, and adds an index on \<open>g\<close>.\<close>

theorem effective_definitions_keep_keys_witness:
  "sk_info [\<lparr>ks_attribute_name = ''h'', ks_key_type = Hash\<rparr>, \<lparr>ks_attribute_name = ''r'', ks_key_type = Range\<rparr>]
     (effective_attribute_definitions
       [\<lparr>ad_attribute_name = ''h'', ad_attribute_type = Scalar_S\<rparr>, \<lparr>ad_attribute_name = ''r'', ad_attribute_type = Scalar_N\<rparr>]
       [\<lparr>ad_attribute_name = ''r'', ad_attribute_type = Scalar_B\<rparr>, \<lparr>ad_attribute_name = ''g'', ad_attribute_type = Scalar_S\<rparr>]
       [\<lparr>ks_attribute_name = ''h'', ks_key_type = Hash\<rparr>, \<lparr>ks_attribute_name = ''r'', ks_key_type = Range\<rparr>]
       [[\<lparr>ks_attribute_name = ''g'', ks_key_type = Hash\<rparr>]]) = Some (''r'', Scalar_N)"
  by (rule effective_definitions_keep_keys [THEN conjunct2, THEN conjunct1, THEN mp]) (simp add: sk_info_def)

subsection \<open>Recovery of lost definitions\<close>

lemma sk_column_n_inject [simp]: "sk_column_n i t = sk_column_n j u \<longleftrightarrow> i = j \<and> t = u"
proof
  assume e: "sk_column_n i t = sk_column_n j u"
  let ?ds = "\<lambda>k. if k = 0 then [] else show_nat (k + 1)"
  have c: "sk_column_n k v = ''sk'' @ ?ds k @ ''_'' @ sk_suffix v" for k v by (simp add: sk_column_n_def)
  have digits: "takeWhile is_ascii_digit (?ds k @ ''_'' @ x) = ?ds k" for k x
    using show_nat_digits [of "k + 1"] by (simp add: takeWhile_append list_all_iff is_ascii_digit_def less_eq_char_def)
  from e have d: "?ds i @ ''_'' @ sk_suffix t = ?ds j @ ''_'' @ sk_suffix u" unfolding c by simp
  then have ij: "?ds i = ?ds j" using digits by metis
  then have "i = j" using show_nat_nonempty [of "i + 1"] show_nat_nonempty [of "j + 1"]
    by (cases "i = 0"; cases "j = 0") (simp_all add: eq_commute [of "[]"])
  moreover have "sk_suffix t = sk_suffix u" using d ij by simp
  then have "t = u" by (cases t; cases u) simp_all
  ultimately show "i = j \<and> t = u" by simp
qed simp

lemma sk_column_n_not_pk [simp]: "sk_column_n i t \<noteq> ''pk''" "''pk'' \<noteq> sk_column_n i t"
  by (simp_all add: sk_column_n_def)

lemma def_of_recovered:
  assumes "distinct (map ks_attribute_name rs)" "i < length rs"
  shows "def_of (List.map_filter (recover_element defs cols) (enumerate k rs)) (ks_attribute_name (rs ! i)) =
     recover_element defs cols (k + i, rs ! i)"
  using assms
proof (induction rs arbitrary: i k)
  case (Cons ks rs)
  have name: "ad_attribute_name d = ks_attribute_name (snd pe)" if "recover_element defs cols pe = Some d" for d pe
    using that by (auto simp: recover_element_def split: if_split_asm option.split_asm)
  show ?case
  proof (cases i)
    case 0
    have "d \<in> set (List.map_filter (recover_element defs cols) (enumerate m rs)) \<Longrightarrow> ad_attribute_name d \<in> ks_attribute_name ` set rs" for d m
      using name by (auto simp: map_filter_def in_set_enumerate_eq)
    then have "def_of (List.map_filter (recover_element defs cols) (enumerate (Suc k) rs)) (ks_attribute_name ks) = None"
      unfolding find_None_iff using Cons.prems(1) by (metis distinct.simps(2) list.map(2) list.set_map)
    with 0 name [of "(k, ks)"] show ?thesis by (auto simp: map_filter_simps split: option.split)
  next
    case (Suc j)
    then have "ks_attribute_name ks \<noteq> ks_attribute_name (rs ! j)" using Cons.prems by auto
    with Suc Cons.IH [of j "Suc k"] Cons.prems name [of "(k, ks)"] show ?thesis by (auto simp: map_filter_simps split: option.split)
  qed
qed simp

lemma all_sort_key_info_defined:
  assumes "\<And>ks. ks \<in> set schema \<Longrightarrow> ks_key_type ks = Range \<Longrightarrow> def_of defs (ks_attribute_name ks) = Some (f ks)"
  shows "all_sort_key_info schema defs =
     map (\<lambda>ks. (ks_attribute_name ks, ad_attribute_type (f ks))) (filter (\<lambda>ks. ks_key_type ks = Range) schema)"
  unfolding all_sort_key_info_def
  using assms by (induction schema) (simp_all add: map_filter_simps)

lemma key_columns_type:
  assumes "\<And>ks. ks \<in> set schema \<Longrightarrow> ks_key_type ks = Range \<Longrightarrow> def_of defs (ks_attribute_name ks) = Some (f ks)"
    and "i < length (filter (\<lambda>ks. ks_key_type ks = Range) schema)"
  shows "sk_column_n i t \<in> set (create_data_table_key_columns schema defs) \<longleftrightarrow>
     t = ad_attribute_type (f (filter (\<lambda>ks. ks_key_type ks = Range) schema ! i))"
  using assms(2)
  by (auto simp: create_data_table_key_columns_def all_sort_key_info_defined [OF assms(1)] in_set_enumerate_eq image_iff Bex_def)

lemma recover_element_type:
  assumes "def_of damaged (ks_attribute_name ks) = None" "\<And>t. sk_column_n i t \<in> set cols \<longleftrightarrow> t = ty"
  shows "recover_element damaged cols (i, ks) = Some \<lparr>ad_attribute_name = ks_attribute_name ks, ad_attribute_type = ty\<rparr>"
proof -
  have "list_ex (\<lambda>c. c = sk_column_n i t) cols \<longleftrightarrow> t = ty" for t using assms(2) by (auto simp: list_ex_iff)
  with assms(1) show ?thesis by (cases ty) (simp_all add: recover_element_def def_of_None)
qed

text \<open>
  C40: recovery is the inverse of the loss.  For a data table created from definitions that cover the sort keys, and a
  stored set from which any of them have been lost, adding the recovered definitions gives every sort key its type
  back, so that keyed reads and the column layout are those of the table as created.
\<close>

theorem recover_restores_sort_keys:
  assumes "\<forall>ks \<in> set schema. ks_key_type ks = Range \<longrightarrow> def_of defs (ks_attribute_name ks) \<noteq> None"
    and "distinct (map ks_attribute_name (filter (\<lambda>ks. ks_key_type ks = Range) schema))"
    and "\<forall>n. def_of damaged n = None \<or> def_of damaged n = def_of defs n"
  shows "let repaired = damaged @ recover_sort_key_definitions schema damaged (create_data_table_key_columns schema defs)
         in all_sort_key_info schema repaired = all_sort_key_info schema defs \<and> sk_info schema repaired = sk_info schema defs"
proof -
  let ?rs = "filter (\<lambda>ks. ks_key_type ks = Range) schema" let ?cols = "create_data_table_key_columns schema defs"
  define repaired where "repaired = damaged @ recover_sort_key_definitions schema damaged ?cols"
  have "\<exists>f. \<forall>ks \<in> {ks \<in> set schema. ks_key_type ks = Range}. def_of defs (ks_attribute_name ks) = Some (f ks)"
    using assms(1) by (intro bchoice) auto
  then obtain f where f: "def_of defs (ks_attribute_name ks) = Some (f ks)" if "ks \<in> set schema" "ks_key_type ks = Range" for ks
    by blast
  have rep: "def_of repaired (ks_attribute_name ks) = Some (f ks)" if ks: "ks \<in> set schema" "ks_key_type ks = Range" for ks
  proof (cases "def_of damaged (ks_attribute_name ks)")
    case (Some d)
    then have "d = f ks" using assms(3) [THEN spec, of "ks_attribute_name ks"] f [OF ks] by simp
    with Some show ?thesis by (simp add: repaired_def def_of_append)
  next
    case None
    from ks have "ks \<in> set ?rs" by simp
    then obtain i where i: "i < length ?rs" "?rs ! i = ks" by (auto simp only: in_set_conv_nth)
    have "recover_element damaged ?cols (i, ks) = Some \<lparr>ad_attribute_name = ks_attribute_name ks, ad_attribute_type = ad_attribute_type (f ks)\<rparr>"
      by (rule recover_element_type [OF None]) (use key_columns_type [OF f i(1)] i(2) in simp)
    also have "\<dots> = Some (f ks)" using def_of_name [OF f [OF ks]] by simp
    finally show ?thesis
      using def_of_recovered [OF assms(2) i(1), of damaged ?cols 0] None i(2)
      by (simp add: repaired_def recover_sort_key_definitions_def def_of_append)
  qed
  have "all_sort_key_info schema repaired = all_sort_key_info schema defs"
    using all_sort_key_info_defined [of schema repaired f, OF rep] all_sort_key_info_defined [of schema defs f, OF f] by simp
  moreover have "sk_info schema repaired = sk_info schema defs"
  proof (cases "find (\<lambda>ks. ks_key_type ks = Range) schema")
    case (Some ks)
    then have "ks \<in> set schema" "ks_key_type ks = Range" by (auto simp: find_Some_iff)
    with Some rep f show ?thesis by (simp add: sk_info_def_of)
  qed (simp add: sk_info_def_of)
  ultimately show ?thesis by (simp add: repaired_def Let_def)
qed

definition schema_h2 :: "KeySchemaElement list" where
  "schema_h2 = [\<lparr>ks_attribute_name = ''h'', ks_key_type = Hash\<rparr>, \<lparr>ks_attribute_name = ''r'', ks_key_type = Range\<rparr>,
     \<lparr>ks_attribute_name = ''q'', ks_key_type = Range\<rparr>]"

definition defs_h2 :: "AttributeDefinition list" where
  "defs_h2 = [\<lparr>ad_attribute_name = ''h'', ad_attribute_type = Scalar_S\<rparr>, \<lparr>ad_attribute_name = ''r'', ad_attribute_type = Scalar_N\<rparr>,
     \<lparr>ad_attribute_name = ''q'', ad_attribute_type = Scalar_B\<rparr>]"

text \<open>Both sort keys lost.\<close>

theorem recover_restores_sort_keys_witness:
  "recover_sort_key_definitions schema_h2 (take 1 defs_h2) [''pk'', ''sk_n'', ''sk2_b''] = drop 1 defs_h2 \<and>
   sk_info schema_h2 (take 1 defs_h2 @ recover_sort_key_definitions schema_h2 (take 1 defs_h2) [''pk'', ''sk_n'', ''sk2_b'']) =
     Some (''r'', Scalar_N)"
proof -
  have c: "create_data_table_key_columns schema_h2 defs_h2 = [''pk'', ''sk_n'', ''sk2_b'']"
    "recover_sort_key_definitions schema_h2 (take 1 defs_h2) [''pk'', ''sk_n'', ''sk2_b''] = drop 1 defs_h2"
    "sk_info schema_h2 defs_h2 = Some (''r'', Scalar_N)" by code_simp+
  have "let repaired = take 1 defs_h2 @ recover_sort_key_definitions schema_h2 (take 1 defs_h2) (create_data_table_key_columns schema_h2 defs_h2)
     in all_sort_key_info schema_h2 repaired = all_sort_key_info schema_h2 defs_h2 \<and> sk_info schema_h2 repaired = sk_info schema_h2 defs_h2"
    by (rule recover_restores_sort_keys) (auto simp: schema_h2_def defs_h2_def)
  with c show ?thesis by (simp add: Let_def)
qed

end
