(* ===== verification/Backup_Keys.thy ===== *)
theory Backup_Keys
  imports Storage_Key Number
begin

text \<open>
  \<open>crates/core/src/backup_format/key_order.rs\<close> and, of \<open>manifest.rs\<close>, the key range of a data file: the order of keys in a
  key-ordered backup, the tracker the writer runs over the items it encodes and the check the reader runs over those
  it decodes.  A reason that the code formats into a text is a value of \<open>KeyFault\<close>, one constructor for each text;
  the owned and the borrowed form of a range key are one type.
\<close>

datatype SchemaFault =
    No_Definition string
  | Several_Definitions string
  | Range_Before_Hash
  | Multi_Part_Key
  | No_Hash_Key
  | Same_Name string

datatype OrderFault =
    Not_After_Previous_File Item
  | Not_After nat
  | First_Differs
  | After_Last nat
  | No_Items
  | Last_Differs nat

datatype EntryFault = No_Key_Range

datatype ManifestFault =
    First_After_Last
  | Overlaps_Previous

text \<open>
  The type parameter of \<open>KeyFault\<close> is \<open>FormatError\<close>, for the reason that is another error printed.
  \<open>Panicked\<close> stands for the \<open>unreachable!\<close> and \<open>expect\<close> of \<open>checked_key\<close> and \<open>hash_text\<close>.
\<close>

datatype 'e KeyFault =
    Empty_Key string
  | Not_Scalar string
  | Type_Mismatch string ScalarAttributeType ScalarAttributeType
  | Invalid_Number string string DynamoDbError
  | Not_Normalized string string string
  | Unparsable_Number string string
  | Attribute_Count nat nat
  | Missing_Key string
  | Item_Lacks_Key string
  | Hash_Missing string
  | Hash_Not_Scalar string
  | Hash_Type string ScalarAttributeType ScalarAttributeType
  | Range_Missing string
  | Range_Type string ScalarAttributeType
  | Not_An_Endpoint Item "'e KeyFault"
  | Range_First_Invalid Item "'e KeyFault"
  | Range_Last_Invalid Item "'e KeyFault"
  | Other_Error 'e

datatype FormatError =
    InvalidKey "FormatError KeyFault"
  | UnorderableKeySchema SchemaFault
  | KeyOrderViolation OrderFault
  | InvalidDataFileEntry EntryFault
  | InvalidManifest ManifestFault
  | Panicked

type_synonym 'a format_result = "FormatError + 'a"

subsection \<open>The key order of a table\<close>

record KeyOrder =
  ko_hash :: "string \<times> ScalarAttributeType"
  ko_range :: "(string \<times> ScalarAttributeType) option"

definition type_of :: "AttributeDefinition list \<Rightarrow> string \<Rightarrow> ScalarAttributeType format_result" where
  "type_of attribute_definitions name =
     (case filter (\<lambda>d. ad_attribute_name d = name) attribute_definitions of
        [] \<Rightarrow> Inl (UnorderableKeySchema (No_Definition name))
      | [d] \<Rightarrow> Inr (ad_attribute_type d)
      | _ \<Rightarrow> Inl (UnorderableKeySchema (Several_Definitions name)))"

definition resolve_element :: "AttributeDefinition list \<Rightarrow>
    (string \<times> ScalarAttributeType) option \<times> (string \<times> ScalarAttributeType) option \<Rightarrow> KeySchemaElement \<Rightarrow>
    ((string \<times> ScalarAttributeType) option \<times> (string \<times> ScalarAttributeType) option) format_result" where
  "resolve_element defs hr element =
     (case hr of (hash, rng) \<Rightarrow>
        if ks_key_type element = Range \<and> hash = None then Inl (UnorderableKeySchema Range_Before_Hash)
        else if (case ks_key_type element of Hash \<Rightarrow> hash \<noteq> None | Range \<Rightarrow> rng \<noteq> None)
        then Inl (UnorderableKeySchema Multi_Part_Key)
        else bind_r (type_of defs (ks_attribute_name element)) (\<lambda>ty.
          let slot = Some (ks_attribute_name element, ty)
          in Inr (case ks_key_type element of Hash \<Rightarrow> (slot, rng) | Range \<Rightarrow> (hash, slot))))"

definition KeyOrder_resolve :: "KeySchemaElement list \<Rightarrow> AttributeDefinition list \<Rightarrow> KeyOrder format_result" where
  "KeyOrder_resolve key_schema defs =
     bind_r (try_fold (resolve_element defs) (None, None) key_schema) (\<lambda>(hash, rng).
       bind_r (ok_or hash (UnorderableKeySchema No_Hash_Key)) (\<lambda>h.
         if (case rng of Some (name, _) \<Rightarrow> name = fst h | None \<Rightarrow> False) then Inl (UnorderableKeySchema (Same_Name (fst h)))
         else Inr \<lparr>ko_hash = h, ko_range = rng\<rparr>))"

fun scalar_type :: "AttributeValue \<Rightarrow> ScalarAttributeType option" where
  "scalar_type (AV_S _) = Some Scalar_S"
| "scalar_type (AV_N _) = Some Scalar_N"
| "scalar_type (AV_B _) = Some Scalar_B"
| "scalar_type _ = None"

definition check_key_value :: "string \<Rightarrow> ScalarAttributeType \<Rightarrow> AttributeValue \<Rightarrow> unit format_result" where
  "check_key_value name ty v =
     (if v = AV_S [] \<or> v = AV_B [] then Inl (InvalidKey (Empty_Key name))
      else case scalar_type v of
        None \<Rightarrow> Inl (InvalidKey (Not_Scalar name))
      | Some actual \<Rightarrow>
          if actual \<noteq> ty then Inl (InvalidKey (Type_Mismatch name actual ty))
          else case v of
            AV_N n \<Rightarrow>
              bind_r (map_err (\<lambda>e. InvalidKey (Invalid_Number name n e)) (validate_and_normalize_number n)) (\<lambda>normalized.
                if normalized \<noteq> n then Inl (InvalidKey (Not_Normalized name n normalized)) else Inr ())
          | _ \<Rightarrow> Inr ())"

definition order_attributes :: "KeyOrder \<Rightarrow> (string \<times> ScalarAttributeType) list" where
  "order_attributes order = ko_hash order # (case ko_range order of None \<Rightarrow> [] | Some r \<Rightarrow> [r])"

definition validate_key_item :: "KeyOrder \<Rightarrow> Item \<Rightarrow> unit format_result" where
  "validate_key_item order key =
     (let expected = 1 + (if ko_range order \<noteq> None then 1 else 0)
      in if length key \<noteq> expected then Inl (InvalidKey (Attribute_Count (length key) expected))
         else try_each (\<lambda>(name, ty).
                bind_r (ok_or (bt_get key name) (InvalidKey (Missing_Key name))) (check_key_value name ty))
              (order_attributes order))"

definition key_item :: "KeyOrder \<Rightarrow> AttributeValue \<Rightarrow> AttributeValue option \<Rightarrow> Item" where
  "key_item order hash rng =
     (let key = bt_insert (fst (ko_hash order)) hash []
      in case (ko_range order, rng) of
           (Some (name, _), Some v) \<Rightarrow> bt_insert name v key
         | _ \<Rightarrow> key)"

definition key_values :: "KeyOrder \<Rightarrow> Item \<Rightarrow> (AttributeValue \<times> AttributeValue option) format_result" where
  "key_values order item =
     (let value_of = (\<lambda>name. ok_or (bt_get item name) (InvalidKey (Item_Lacks_Key name)))
      in bind_r (value_of (fst (ko_hash order))) (\<lambda>hash.
         bind_r (case ko_range order of Some (name, _) \<Rightarrow> bind_r (value_of name) (\<lambda>v. Inr (Some v)) | None \<Rightarrow> Inr None) (\<lambda>rng.
         bind_r
           (map_err (\<lambda>e. case e of InvalidKey reason \<Rightarrow> InvalidKey (Not_An_Endpoint (key_item order hash rng) reason) | other \<Rightarrow> other)
             (bind_r (check_key_value (fst (ko_hash order)) (snd (ko_hash order)) hash) (\<lambda>_.
                case (ko_range order, rng) of
                  (Some (name, ty), Some v) \<Rightarrow> check_key_value name ty v
                | _ \<Rightarrow> Inr ())))
           (\<lambda>_. Inr (hash, rng)))))"

definition endpoint_key :: "KeyOrder \<Rightarrow> Item \<Rightarrow> Item format_result" where
  "endpoint_key order item = bind_r (key_values order item) (\<lambda>(hash, rng). Inr (key_item order hash rng))"

definition parse_number :: "'d bd_ops \<Rightarrow> string \<Rightarrow> string \<Rightarrow> 'd format_result" where
  "parse_number B name n = ok_or (bd_parse B n) (InvalidKey (Unparsable_Number name n))"

definition hash_text :: "(u8 list \<Rightarrow> string) \<Rightarrow> Item \<Rightarrow> string \<times> ScalarAttributeType \<Rightarrow> string format_result" where
  "hash_text b64 item nt =
     (case nt of (name, ty) \<Rightarrow>
        bind_r (ok_or (bt_get item name) (InvalidKey (Hash_Missing name))) (\<lambda>v.
          case scalar_type v of
            None \<Rightarrow> Inl (InvalidKey (Hash_Not_Scalar name))
          | Some actual \<Rightarrow>
              if actual \<noteq> ty then Inl (InvalidKey (Hash_Type name actual ty)) else ok_or (hash_key_text b64 v) Panicked))"

definition compare_keys :: "'d bd_ops \<Rightarrow> (u8 list \<Rightarrow> string) \<Rightarrow> KeyOrder \<Rightarrow> Item \<Rightarrow> Item \<Rightarrow> Ordering format_result" where
  "compare_keys B b64 order a b =
     bind_r (hash_text b64 a (ko_hash order)) (\<lambda>ha.
     bind_r (hash_text b64 b (ko_hash order)) (\<lambda>hb.
       if cmp_ord ha hb \<noteq> Equal then Inr (cmp_ord ha hb)
       else case ko_range order of
         None \<Rightarrow> Inr Equal
       | Some (name, ty) \<Rightarrow>
           bind_r (ok_or (bt_get a name) (InvalidKey (Range_Missing name))) (\<lambda>ra.
           bind_r (ok_or (bt_get b name) (InvalidKey (Range_Missing name))) (\<lambda>rb.
             case (ty, ra, rb) of
               (Scalar_S, AV_S x, AV_S y) \<Rightarrow> Inr (cmp_ord x y)
             | (Scalar_B, AV_B x, AV_B y) \<Rightarrow> Inr (cmp_ord x y)
             | (Scalar_N, AV_N x, AV_N y) \<Rightarrow>
                 bind_r (parse_number B name x) (\<lambda>dx. bind_r (parse_number B name y) (\<lambda>dy. Inr (bd_cmp B dx dy)))
             | _ \<Rightarrow> Inl (InvalidKey (Range_Type name ty))))))"

subsection \<open>Checked and held keys\<close>

datatype 'd RangeKey = RK_S string | RK_B "u8 list" | RK_N string 'd

record 'd CheckedKey =
  ck_hash :: AttributeValue
  ck_hash_text :: string
  ck_range :: "'d RangeKey option"

definition checked_range :: "'d bd_ops \<Rightarrow> KeyOrder \<Rightarrow> AttributeValue option \<Rightarrow> 'd RangeKey option format_result" where
  "checked_range B order rng =
     (case (ko_range order, rng) of
        (Some (name, _), Some v) \<Rightarrow>
          (case v of
             AV_S s \<Rightarrow> Inr (Some (RK_S s))
           | AV_B b \<Rightarrow> Inr (Some (RK_B b))
           | AV_N n \<Rightarrow> bind_r (parse_number B name n) (\<lambda>d. Inr (Some (RK_N n d)))
           | _ \<Rightarrow> Inl Panicked)
      | _ \<Rightarrow> Inr None)"

definition checked_key :: "'d bd_ops \<Rightarrow> (u8 list \<Rightarrow> string) \<Rightarrow> KeyOrder \<Rightarrow> Item \<Rightarrow> 'd CheckedKey format_result" where
  "checked_key B b64 order item =
     bind_r (key_values order item) (\<lambda>(hash, rng).
     bind_r (checked_range B order rng) (\<lambda>r.
     bind_r (ok_or (hash_key_text b64 hash) Panicked) (\<lambda>text.
       Inr \<lparr>ck_hash = hash, ck_hash_text = text, ck_range = r\<rparr>)))"

text \<open>\<open>Ordering::then_with\<close>.\<close>

definition then_ord :: "Ordering \<Rightarrow> Ordering \<Rightarrow> Ordering" where
  "then_ord x y = (if x = Equal then y else x)"

fun range_cmp :: "'d bd_ops \<Rightarrow> 'd RangeKey option \<Rightarrow> 'd RangeKey option \<Rightarrow> Ordering" where
  "range_cmp B (Some (RK_S x)) (Some (RK_S y)) = cmp_ord x y"
| "range_cmp B (Some (RK_B x)) (Some (RK_B y)) = cmp_ord x y"
| "range_cmp B (Some (RK_N _ x)) (Some (RK_N _ y)) = bd_cmp B x y"
| "range_cmp B x y = cmp_ord (x \<noteq> None) (y \<noteq> None)"

definition checked_cmp :: "'d bd_ops \<Rightarrow> 'd CheckedKey \<Rightarrow> 'd CheckedKey \<Rightarrow> Ordering" where
  "checked_cmp B a b = then_ord (cmp_ord (ck_hash_text a) (ck_hash_text b)) (range_cmp B (ck_range a) (ck_range b))"

record 'd HeldKey =
  hk_hash :: AttributeValue
  hk_hash_b64 :: "string option"
  hk_range :: "'d RangeKey option"

fun is_binary :: "AttributeValue \<Rightarrow> bool" where
  "is_binary (AV_B _) = True"
| "is_binary _ = False"

definition HeldKey_new :: "'d CheckedKey \<Rightarrow> 'd HeldKey" where
  "HeldKey_new key =
     \<lparr>hk_hash = ck_hash key, hk_hash_b64 = (if is_binary (ck_hash key) then Some (ck_hash_text key) else None),
      hk_range = ck_range key\<rparr>"

text \<open>\<open>assign\<close> writes into the parts that are there and replaces the others.\<close>

fun assign_hash :: "AttributeValue \<Rightarrow> AttributeValue \<Rightarrow> AttributeValue" where
  "assign_hash (AV_S _) (AV_S src) = AV_S src"
| "assign_hash (AV_N _) (AV_N src) = AV_N src"
| "assign_hash (AV_B _) (AV_B src) = AV_B src"
| "assign_hash _ src = src"

fun assign_text :: "string option \<Rightarrow> bool \<Rightarrow> string \<Rightarrow> string option" where
  "assign_text (Some _) True text = Some text"
| "assign_text _ binary text = (if binary then Some text else None)"

fun assign_range :: "'d RangeKey option \<Rightarrow> 'd RangeKey option \<Rightarrow> 'd RangeKey option" where
  "assign_range (Some (RK_S _)) (Some (RK_S src)) = Some (RK_S src)"
| "assign_range (Some (RK_B _)) (Some (RK_B src)) = Some (RK_B src)"
| "assign_range (Some (RK_N _ _)) (Some (RK_N src parsed)) = Some (RK_N src parsed)"
| "assign_range _ src = src"

definition HeldKey_assign :: "'d HeldKey \<Rightarrow> 'd CheckedKey \<Rightarrow> 'd HeldKey" where
  "HeldKey_assign held key =
     \<lparr>hk_hash = assign_hash (hk_hash held) (ck_hash key),
      hk_hash_b64 = assign_text (hk_hash_b64 held) (is_binary (ck_hash key)) (ck_hash_text key),
      hk_range = assign_range (hk_range held) (ck_range key)\<rparr>"

definition as_checked :: "'d HeldKey \<Rightarrow> 'd CheckedKey" where
  "as_checked held =
     \<lparr>ck_hash = hk_hash held,
      ck_hash_text = (case (hk_hash_b64 held, hk_hash held) of
          (Some text, _) \<Rightarrow> text | (None, AV_S s) \<Rightarrow> s | (None, AV_N s) \<Rightarrow> s | (None, _) \<Rightarrow> []),
      ck_range = hk_range held\<rparr>"

fun range_value :: "'d RangeKey \<Rightarrow> AttributeValue" where
  "range_value (RK_S s) = AV_S s"
| "range_value (RK_B b) = AV_B b"
| "range_value (RK_N n _) = AV_N n"

definition to_item :: "KeyOrder \<Rightarrow> 'd HeldKey \<Rightarrow> Item" where
  "to_item order held =
     (let key = bt_insert (fst (ko_hash order)) (hk_hash held) []
      in case (ko_range order, hk_range held) of
           (Some (name, _), Some r) \<Rightarrow> bt_insert name (range_value r) key
         | _ \<Rightarrow> key)"

subsection \<open>The writer's tracker and the reader's check\<close>

record KeyRange =
  kr_first :: Item
  kr_last :: Item

record 'd KeyRangeTracker =
  kt_order :: KeyOrder
  kt_first :: "'d HeldKey option"
  kt_latest :: "'d HeldKey option"
  kt_items :: nat

definition tracker_new :: "KeyOrder \<Rightarrow> 'd KeyRangeTracker" where
  "tracker_new order = \<lparr>kt_order = order, kt_first = None, kt_latest = None, kt_items = 0\<rparr>"

text \<open>A refused item leaves the tracker as it was.\<close>

definition push_checked :: "'d bd_ops \<Rightarrow> 'd KeyRangeTracker \<Rightarrow> 'd CheckedKey \<Rightarrow> 'd KeyRangeTracker format_result" where
  "push_checked B t key =
     (let n = kt_items t + 1
      in bind_r
        (case kt_latest t of
           None \<Rightarrow> Inr (HeldKey_new key)
         | Some latest \<Rightarrow>
             if checked_cmp B (as_checked latest) key \<noteq> Less
             then Inl (KeyOrderViolation (if kt_items t = 0 then Not_After_Previous_File (to_item (kt_order t) latest) else Not_After n))
             else Inr (HeldKey_assign latest key))
        (\<lambda>latest. Inr (t\<lparr>kt_first := (if kt_items t = 0 then Some latest else kt_first t), kt_latest := Some latest, kt_items := n\<rparr>)))"

definition push :: "'d bd_ops \<Rightarrow> (u8 list \<Rightarrow> string) \<Rightarrow> 'd KeyRangeTracker \<Rightarrow> Item \<Rightarrow> 'd KeyRangeTracker format_result" where
  "push B b64 t item = bind_r (checked_key B b64 (kt_order t) item) (push_checked B t)"

definition next_file :: "'d KeyRangeTracker \<Rightarrow> KeyRange option \<times> 'd KeyRangeTracker" where
  "next_file t =
     (case (kt_latest t, kt_first t) of
        (Some latest, Some first) \<Rightarrow>
          (Some \<lparr>kr_first = to_item (kt_order t) first, kr_last = to_item (kt_order t) latest\<rparr>, t\<lparr>kt_first := None, kt_items := 0\<rparr>)
      | _ \<Rightarrow> (None, t))"

definition tracker_finish :: "'d KeyRangeTracker \<Rightarrow> KeyRange option" where
  "tracker_finish t =
     (case (kt_first t, kt_latest t) of
        (Some first, Some latest) \<Rightarrow> Some \<lparr>kr_first = to_item (kt_order t) first, kr_last = to_item (kt_order t) latest\<rparr>
      | _ \<Rightarrow> None)"

record 'd KeyRangeCheck =
  kc_tracker :: "'d KeyRangeTracker"
  kc_range :: "FormatError KeyFault + 'd HeldKey \<times> 'd HeldKey"

definition check_endpoint :: "'d bd_ops \<Rightarrow> (u8 list \<Rightarrow> string) \<Rightarrow> KeyOrder \<Rightarrow>
    (Item \<Rightarrow> FormatError KeyFault \<Rightarrow> FormatError KeyFault) \<Rightarrow> Item \<Rightarrow> FormatError KeyFault + 'd HeldKey" where
  "check_endpoint B b64 order which key =
     map_err (\<lambda>e. which key (case e of InvalidKey reason \<Rightarrow> reason | other \<Rightarrow> Other_Error other))
       (bind_r (validate_key_item order key) (\<lambda>_. bind_r (checked_key B b64 order key) (\<lambda>k. Inr (HeldKey_new k))))"

definition KeyRangeCheck_new :: "'d bd_ops \<Rightarrow> (u8 list \<Rightarrow> string) \<Rightarrow> KeyOrder \<Rightarrow> KeyRange \<Rightarrow> 'd KeyRangeCheck" where
  "KeyRangeCheck_new B b64 order rng =
     \<lparr>kc_tracker = tracker_new order,
      kc_range = bind_r (check_endpoint B b64 order Range_First_Invalid (kr_first rng)) (\<lambda>first.
        bind_r (check_endpoint B b64 order Range_Last_Invalid (kr_last rng)) (\<lambda>last. Inr (first, last)))\<rparr>"

definition check :: "'d bd_ops \<Rightarrow> (u8 list \<Rightarrow> string) \<Rightarrow> 'd KeyRangeCheck \<Rightarrow> Item \<Rightarrow> 'd KeyRangeCheck format_result" where
  "check B b64 c item =
     bind_r (map_err InvalidKey (kc_range c)) (\<lambda>(first, last).
     bind_r (checked_key B b64 (kt_order (kc_tracker c)) item) (\<lambda>key.
       let n = kt_items (kc_tracker c) + 1
       in if n = 1 \<and> checked_cmp B key (as_checked first) \<noteq> Equal then Inl (KeyOrderViolation First_Differs)
          else if checked_cmp B key (as_checked last) = Greater then Inl (KeyOrderViolation (After_Last n))
          else bind_r (push_checked B (kc_tracker c) key) (\<lambda>t. Inr (c\<lparr>kc_tracker := t\<rparr>))))"

definition check_finish :: "'d bd_ops \<Rightarrow> 'd KeyRangeCheck \<Rightarrow> unit format_result" where
  "check_finish B c =
     bind_r (map_err InvalidKey (kc_range c)) (\<lambda>(_, last).
       case kt_latest (kc_tracker c) of
         None \<Rightarrow> Inl (KeyOrderViolation No_Items)
       | Some latest \<Rightarrow>
           if checked_cmp B (as_checked latest) (as_checked last) \<noteq> Equal
           then Inl (KeyOrderViolation (Last_Differs (kt_items (kc_tracker c)))) else Inr ())"

text \<open>The key ranges of the data files, as \<open>validate_data_files\<close> checks them for a key-ordered manifest.\<close>

definition validate_range :: "'d bd_ops \<Rightarrow> (u8 list \<Rightarrow> string) \<Rightarrow> KeyOrder \<Rightarrow> Item option \<Rightarrow> KeyRange option \<Rightarrow> Item option format_result" where
  "validate_range B b64 order previous_last entry =
     bind_r (ok_or entry (InvalidDataFileEntry No_Key_Range)) (\<lambda>rng.
     bind_r (validate_key_item order (kr_first rng)) (\<lambda>_.
     bind_r (validate_key_item order (kr_last rng)) (\<lambda>_.
     bind_r (compare_keys B b64 order (kr_first rng) (kr_last rng)) (\<lambda>c.
       if c = Greater then Inl (InvalidManifest First_After_Last)
       else bind_r (case previous_last of None \<Rightarrow> Inr Less | Some prev \<Rightarrow> compare_keys B b64 order prev (kr_first rng)) (\<lambda>c.
         if c \<noteq> Less then Inl (InvalidManifest Overlaps_Previous) else Inr (Some (kr_last rng)))))))"

definition validate_key_ranges :: "'d bd_ops \<Rightarrow> (u8 list \<Rightarrow> string) \<Rightarrow> KeyOrder \<Rightarrow> KeyRange option list \<Rightarrow> unit format_result" where
  "validate_key_ranges B b64 order entries = bind_r (try_fold (validate_range B b64 order) None entries) (\<lambda>_. Inr ())"

text \<open>
  The writer pushes each item of a file and closes it with \<open>next_file\<close>, one tracker for all files; the reader runs the
  check of the recorded range over the items of one file, then its end.
\<close>

definition encode_file :: "'d bd_ops \<Rightarrow> (u8 list \<Rightarrow> string) \<Rightarrow> 'd KeyRangeTracker \<Rightarrow> Item list \<Rightarrow>
    (KeyRange option \<times> 'd KeyRangeTracker) format_result" where
  "encode_file B b64 t items = bind_r (try_fold (push B b64) t items) (\<lambda>t. Inr (next_file t))"

fun write_data_files :: "'d bd_ops \<Rightarrow> (u8 list \<Rightarrow> string) \<Rightarrow> 'd KeyRangeTracker \<Rightarrow> Item list list \<Rightarrow> KeyRange option list format_result" where
  "write_data_files B b64 t [] = Inr []"
| "write_data_files B b64 t (items # files) =
     bind_r (encode_file B b64 t items) (\<lambda>(rng, t).
       bind_r (write_data_files B b64 t files) (\<lambda>entries. Inr (rng # entries)))"

definition read_data_file :: "'d bd_ops \<Rightarrow> (u8 list \<Rightarrow> string) \<Rightarrow> KeyOrder \<Rightarrow> KeyRange \<Rightarrow> Item list \<Rightarrow> unit format_result" where
  "read_data_file B b64 order rng items =
     bind_r (try_fold (check B b64) (KeyRangeCheck_new B b64 order rng) items) (check_finish B)"

end
