(* ===== verification/Backup_Props.thy ===== *)
theory Backup_Props
  imports Backup_Keys
begin

text \<open>
  The order of a key-ordered backup: what the tracker accepts the check accepts, and a backup whose ranges and files
  pass has its keys in strictly ascending order, so that no key occurs twice.
\<close>

subsection \<open>Comparisons\<close>

text \<open>What a client of a comparison function relies on: a total preorder on the valid keys.\<close>

locale key_ordering =
  fixes valid :: "'k \<Rightarrow> bool" and kcmp :: "'k \<Rightarrow> 'k \<Rightarrow> Ordering"
  assumes cmp_refl: "valid x \<Longrightarrow> kcmp x x = Equal"
    and cmp_swap: "valid x \<Longrightarrow> valid y \<Longrightarrow> kcmp y x = reverse_ord (kcmp x y)"
    and cmp_trans: "valid x \<Longrightarrow> valid y \<Longrightarrow> valid z \<Longrightarrow> kcmp x y \<noteq> Greater \<Longrightarrow> kcmp y z \<noteq> Greater \<Longrightarrow> kcmp x z \<noteq> Greater"
begin

lemma equal_sym: "valid x \<Longrightarrow> valid y \<Longrightarrow> kcmp x y = Equal \<Longrightarrow> kcmp y x = Equal"
  using cmp_swap [of x y] by simp

lemma less_le_trans:
  assumes "valid x" "valid y" "valid z" "kcmp x y = Less" "kcmp y z \<noteq> Greater"
  shows "kcmp x z = Less"
proof (rule ccontr)
  assume "kcmp x z \<noteq> Less"
  moreover have "kcmp x z \<noteq> Greater" using cmp_trans [OF assms(1-3)] assms(4,5) by simp
  ultimately have "kcmp z x \<noteq> Greater" using cmp_swap [OF assms(1,3)] by (cases "kcmp x z") simp_all
  then have "kcmp y x \<noteq> Greater" using cmp_trans [OF assms(2,3,1)] assms(5) by simp
  then show False using cmp_swap [OF assms(1,2)] assms(4) by simp
qed

lemma le_less_trans:
  assumes "valid x" "valid y" "valid z" "kcmp x y \<noteq> Greater" "kcmp y z = Less"
  shows "kcmp x z = Less"
proof (rule ccontr)
  assume "kcmp x z \<noteq> Less"
  moreover have "kcmp x z \<noteq> Greater" using cmp_trans [OF assms(1-3)] assms(4,5) by simp
  ultimately have "kcmp z x \<noteq> Greater" using cmp_swap [OF assms(1,3)] by (cases "kcmp x z") simp_all
  then have "kcmp z y \<noteq> Greater" using cmp_trans [OF assms(3,1,2)] assms(4) by simp
  then show False using cmp_swap [OF assms(2,3)] assms(5) by simp
qed

text \<open>In an ascending sequence of keys the first is the least and the last the greatest.\<close>

lemma sorted_le_last:
  assumes "\<forall>k \<in> set ks. valid k" "sorted_wrt (\<lambda>x y. kcmp x y = Less) ks" "x \<in> set ks"
  shows "kcmp x (last ks) \<noteq> Greater"
proof (cases "x = last ks")
  case True
  with assms show ?thesis using cmp_refl by force
next
  case False
  obtain us where us: "ks = us @ [last ks]" using assms(3) by (metis append_butlast_last_id empty_iff list.set(1))
  with False assms(3) have "x \<in> set us" by (metis insert_iff list.set(2) list.set(1) Un_iff set_append empty_iff)
  moreover have "sorted_wrt (\<lambda>x y. kcmp x y = Less) (us @ [last ks])" using assms(2) us by simp
  ultimately show ?thesis by (simp add: sorted_wrt_append)
qed

lemma sorted_hd_le:
  assumes "\<forall>k \<in> set ks. valid k" "sorted_wrt (\<lambda>x y. kcmp x y = Less) ks" "x \<in> set ks"
  shows "kcmp (hd ks) x \<noteq> Greater"
  using assms cmp_refl by (cases ks) auto

end

text \<open>The comparison of the standard library's ordered types.\<close>

interpretation ord_cmp: key_ordering "\<lambda>_. True" "cmp_ord :: 'a::linorder \<Rightarrow> 'a \<Rightarrow> Ordering"
  by unfold_locales (auto simp: cmp_ord_swap [symmetric])

subsection \<open>Checked keys\<close>

lemma check_key_value_scalar: "check_key_value name ty v = Inr u \<Longrightarrow> scalar_type v = Some ty"
  by (auto simp: check_key_value_def split: if_split_asm option.split_asm)

fun range_of :: "'d bd_ops \<Rightarrow> AttributeValue \<Rightarrow> 'd RangeKey option" where
  "range_of B (AV_S s) = Some (RK_S s)"
| "range_of B (AV_B b) = Some (RK_B b)"
| "range_of B (AV_N n) = map_option (RK_N n) (bd_parse B n)"
| "range_of B _ = None"

lemma range_value_of: "range_of B v = Some r \<Longrightarrow> range_value r = v"
  by (cases v) auto

definition is_key :: "'d bd_ops \<Rightarrow> (u8 list \<Rightarrow> string) \<Rightarrow> KeyOrder \<Rightarrow> (string \<Rightarrow> AttributeValue option) \<Rightarrow> 'd CheckedKey \<Rightarrow> bool" where
  "is_key B b64 order get k \<longleftrightarrow>
     get (fst (ko_hash order)) = Some (ck_hash k) \<and>
     check_key_value (fst (ko_hash order)) (snd (ko_hash order)) (ck_hash k) = Inr () \<and>
     hash_key_text b64 (ck_hash k) = Some (ck_hash_text k) \<and>
     (case ko_range order of
        None \<Rightarrow> ck_range k = None
      | Some (name, ty) \<Rightarrow>
          (\<exists>v r. get name = Some v \<and> check_key_value name ty v = Inr () \<and> range_of B v = Some r \<and> ck_range k = Some r))"

lemma checked_range_some:
  assumes "ko_range order = Some (name, ty)"
  shows "checked_range B order (Some v) = Inr x \<longleftrightarrow> (\<exists>r. range_of B v = Some r \<and> x = Some r)"
  using assms by (cases v) (auto simp: checked_range_def parse_number_def res_simps)

lemma key_values_iff:
  "key_values order item = Inr (h, rng) \<longleftrightarrow>
     bt_get item (fst (ko_hash order)) = Some h \<and>
     check_key_value (fst (ko_hash order)) (snd (ko_hash order)) h = Inr () \<and>
     (case ko_range order of
        None \<Rightarrow> rng = None
      | Some (name, ty) \<Rightarrow> \<exists>v. bt_get item name = Some v \<and> check_key_value name ty v = Inr () \<and> rng = Some v)"
  by (cases "ko_range order") (auto simp: key_values_def Let_def res_simps)

lemma checked_key_iff: "checked_key B b64 order item = Inr k \<longleftrightarrow> is_key B b64 order (bt_get item) k"
proof (cases "ko_range order")
  case None
  then show ?thesis
    by (cases k) (auto simp: checked_key_def is_key_def res_simps key_values_iff checked_range_def split: prod.split_asm)
next
  case (Some nt)
  obtain name ty where nt: "nt = (name, ty)" by fastforce
  with Some show ?thesis
    by (cases k) (auto simp: checked_key_def is_key_def res_simps key_values_iff checked_range_some split: prod.split_asm)
qed

lemma endpoint_key_iff: "endpoint_key order item = Inr x \<longleftrightarrow> (\<exists>h rng. key_values order item = Inr (h, rng) \<and> x = key_item order h rng)"
  by (auto simp: endpoint_key_def res_simps)

text \<open>The keys of one order have one shape.\<close>

definition key_shape :: "KeyOrder \<Rightarrow> 'd CheckedKey \<Rightarrow> bool" where
  "key_shape order k \<longleftrightarrow>
     (case ko_range order of
        None \<Rightarrow> ck_range k = None
      | Some (_, ty) \<Rightarrow> (\<exists>r. ck_range k = Some r \<and> scalar_type (range_value r) = Some ty))"

lemma is_key_shape: "is_key B b64 order get k \<Longrightarrow> key_shape order k"
  by (auto simp: is_key_def key_shape_def split: option.split_asm dest!: check_key_value_scalar dest: range_value_of)

lemma range_cmp_ordering:
  assumes "bd_lawful B"
  shows "key_ordering (\<lambda>r. scalar_type (range_value r) = Some ty) (\<lambda>x y. range_cmp B (Some x) (Some y))"
proof -
  have N: "\<And>x. bd_cmp B x x = Equal" "\<And>x y. bd_cmp B y x = reverse_ord (bd_cmp B x y)"
    "\<And>x y z. bd_cmp B x y \<noteq> Greater \<Longrightarrow> bd_cmp B y z \<noteq> Greater \<Longrightarrow> bd_cmp B x z \<noteq> Greater"
    using assms unfolding bd_lawful_def by blast+
  have same: "(\<exists>s. r = RK_S s) \<and> ty = Scalar_S \<or> (\<exists>b. r = RK_B b) \<and> ty = Scalar_B \<or> (\<exists>n d. r = RK_N n d) \<and> ty = Scalar_N"
    if "scalar_type (range_value r) = Some ty" for r :: "'a RangeKey"
    using that by (cases r) auto
  show ?thesis
  proof
    fix x :: "'a RangeKey" assume "scalar_type (range_value x) = Some ty"
    then show "range_cmp B (Some x) (Some x) = Equal" using N(1) by (cases x) auto
  next
    fix x y :: "'a RangeKey" assume "scalar_type (range_value x) = Some ty" "scalar_type (range_value y) = Some ty"
    from this [THEN same] show "range_cmp B (Some y) (Some x) = reverse_ord (range_cmp B (Some x) (Some y))"
      by (auto simp: cmp_ord_swap [symmetric] intro: N(2))
  next
    fix x y z :: "'a RangeKey"
    assume "scalar_type (range_value x) = Some ty" "scalar_type (range_value y) = Some ty" "scalar_type (range_value z) = Some ty"
      and "range_cmp B (Some x) (Some y) \<noteq> Greater" "range_cmp B (Some y) (Some z) \<noteq> Greater"
    with this(1-3) [THEN same] show "range_cmp B (Some x) (Some z) \<noteq> Greater"
      by (auto dest: N(3))
  qed
qed

lemma checked_cmp_ordering:
  assumes "bd_lawful B"
  shows "key_ordering (key_shape order) (checked_cmp B)"
proof (cases "ko_range order")
  case None
  then show ?thesis
    by unfold_locales (auto simp: key_shape_def checked_cmp_def then_ord_def cmp_ord_swap [symmetric] split: if_split_asm)
next
  case (Some nt)
  obtain name ty where nt: "nt = (name, ty)" by fastforce
  note R = key_ordering.cmp_refl [OF range_cmp_ordering [OF assms, of ty]] key_ordering.cmp_swap [OF range_cmp_ordering [OF assms, of ty]]
    key_ordering.cmp_trans [OF range_cmp_ordering [OF assms, of ty]]
  have shape: "\<exists>r. ck_range k = Some r \<and> scalar_type (range_value r) = Some ty" if "key_shape order k" for k :: "'a CheckedKey"
    using that Some nt by (simp add: key_shape_def)
  show ?thesis
  proof
    fix x :: "'a CheckedKey" assume "key_shape order x"
    from shape [OF this] R(1) show "checked_cmp B x x = Equal" by (auto simp: checked_cmp_def then_ord_def)
  next
    fix x y :: "'a CheckedKey" assume "key_shape order x" "key_shape order y"
    from this [THEN shape] show "checked_cmp B y x = reverse_ord (checked_cmp B x y)"
      by (auto simp: checked_cmp_def then_ord_def cmp_ord_swap [symmetric] intro: R(2))
  next
    fix x y z :: "'a CheckedKey"
    assume k: "key_shape order x" "key_shape order y" "key_shape order z"
      and c: "checked_cmp B x y \<noteq> Greater" "checked_cmp B y z \<noteq> Greater"
    from k [THEN shape] obtain a b c' where r: "ck_range x = Some a" "ck_range y = Some b" "ck_range z = Some c'"
      "scalar_type (range_value a) = Some ty" "scalar_type (range_value b) = Some ty" "scalar_type (range_value c') = Some ty" by blast
    from c r(1-3) R(3) [OF r(4-6)] show "checked_cmp B x z \<noteq> Greater"
      by (auto simp: checked_cmp_def then_ord_def split: if_split_asm)
  qed
qed

text \<open>Comparing items is comparing their checked keys.\<close>

lemma hash_text_key: "is_key B b64 order (bt_get a) k \<Longrightarrow> hash_text b64 a (ko_hash order) = Inr (ck_hash_text k)"
  by (cases "ko_hash order") (auto simp: hash_text_def is_key_def dest!: check_key_value_scalar)

lemma compare_checked:
  assumes "is_key B b64 order (bt_get a) ka" "is_key B b64 order (bt_get b) kb"
  shows "compare_keys B b64 order a b = Inr (checked_cmp B ka kb)"
proof (cases "ko_range order")
  case None
  with assms show ?thesis
    by (simp add: compare_keys_def hash_text_key [OF assms(1)] hash_text_key [OF assms(2)] checked_cmp_def then_ord_def is_key_def)
next
  case (Some nt)
  obtain name ty where nt: "nt = (name, ty)" by fastforce
  from assms(1) Some nt obtain v r where v: "bt_get a name = Some v" "scalar_type v = Some ty" "range_of B v = Some r" "ck_range ka = Some r"
    by (auto simp: is_key_def dest: check_key_value_scalar)
  from assms(2) Some nt obtain w q where w: "bt_get b name = Some w" "scalar_type w = Some ty" "range_of B w = Some q" "ck_range kb = Some q"
    by (auto simp: is_key_def dest: check_key_value_scalar)
  have "(case (ty, v, w) of
      (Scalar_S, AV_S x, AV_S y) \<Rightarrow> Inr (cmp_ord x y)
    | (Scalar_B, AV_B x, AV_B y) \<Rightarrow> Inr (cmp_ord x y)
    | (Scalar_N, AV_N x, AV_N y) \<Rightarrow>
        bind_r (parse_number B name x) (\<lambda>dx. bind_r (parse_number B name y) (\<lambda>dy. Inr (bd_cmp B dx dy)))
    | _ \<Rightarrow> Inl (InvalidKey (Range_Type name ty))) = Inr (range_cmp B (Some r) (Some q))"
    using v(2,3) w(2,3) by (cases v; cases w) (auto simp: parse_number_def)
  with Some nt v w show ?thesis
    by (simp add: compare_keys_def hash_text_key [OF assms(1)] hash_text_key [OF assms(2)] checked_cmp_def then_ord_def)
qed

subsection \<open>Held keys\<close>

text \<open>Reusing the storage of a held key has no effect on what is held.\<close>

lemma HeldKey_assign [simp]: "HeldKey_assign held key = HeldKey_new key"
proof -
  have "assign_hash h h' = h'" for h h' by (cases h; cases h') simp_all
  moreover have "assign_text o' b t = (if b then Some t else None)" for o' b t by (cases o'; cases b) simp_all
  moreover have "assign_range r r' = r'" for r r' :: "'a RangeKey option"
    by (cases "(r, r')" rule: assign_range.cases) simp_all
  ultimately show ?thesis by (simp add: HeldKey_assign_def HeldKey_new_def)
qed

lemma as_checked_new: "is_key B b64 order get k \<Longrightarrow> as_checked (HeldKey_new k) = k"
  by (cases "ck_hash k") (auto simp: is_key_def as_checked_def HeldKey_new_def)

definition names_differ :: "KeyOrder \<Rightarrow> bool" where
  "names_differ order \<longleftrightarrow> (\<forall>name ty. ko_range order = Some (name, ty) \<longrightarrow> name \<noteq> fst (ko_hash order))"

lemma resolve_names_differ: "KeyOrder_resolve schema defs = Inr order \<Longrightarrow> names_differ order"
  by (auto simp: KeyOrder_resolve_def names_differ_def split: if_split_asm option.split_asm prod.split_asm)

lemma to_item_key:
  assumes "is_key B b64 order get k" "names_differ order"
  shows "is_key B b64 order (bt_get (to_item order (HeldKey_new k))) k"
    "validate_key_item order (to_item order (HeldKey_new k)) = Inr ()"
proof -
  have "is_key B b64 order (bt_get (to_item order (HeldKey_new k))) k \<and>
      validate_key_item order (to_item order (HeldKey_new k)) = Inr ()"
  proof (cases "ko_range order")
    case None
    with assms show ?thesis by (cases "ko_hash order") (simp add: is_key_def to_item_def HeldKey_new_def validate_key_item_def order_attributes_def)
  next
    case (Some nt)
    obtain name ty where nt: "nt = (name, ty)" by fastforce
    from assms Some nt obtain v r where v: "check_key_value name ty v = Inr ()" "range_of B v = Some r" "ck_range k = Some r"
      "name \<noteq> fst (ko_hash order)" by (auto simp: is_key_def names_differ_def)
    then show ?thesis using assms Some nt range_value_of [OF v(2)]
      by (cases "ko_hash order")
        (auto simp: is_key_def to_item_def HeldKey_new_def validate_key_item_def order_attributes_def bt_get_insert)
  qed
  then show "is_key B b64 order (bt_get (to_item order (HeldKey_new k))) k"
    "validate_key_item order (to_item order (HeldKey_new k)) = Inr ()" by blast+
qed

lemma endpoint_key_item:
  assumes "is_key B b64 order (bt_get item) k"
  shows "endpoint_key order item = Inr (to_item order (HeldKey_new k))"
proof (cases "ko_range order")
  case None
  with assms show ?thesis
    by (auto simp: endpoint_key_iff key_values_iff is_key_def to_item_def key_item_def HeldKey_new_def)
next
  case (Some nt)
  obtain name ty where nt: "nt = (name, ty)" by fastforce
  with assms Some show ?thesis
    by (auto simp: endpoint_key_iff key_values_iff is_key_def to_item_def key_item_def HeldKey_new_def dest: range_value_of)
qed

subsection \<open>What the tracker and the check do\<close>

definition ok_key :: "'d bd_ops \<Rightarrow> (u8 list \<Rightarrow> string) \<Rightarrow> KeyOrder \<Rightarrow> 'd CheckedKey \<Rightarrow> bool" where
  "ok_key B b64 order k \<longleftrightarrow> (\<exists>item. checked_key B b64 order item = Inr k)"

lemma ok_key_shape: "ok_key B b64 order k \<Longrightarrow> key_shape order k"
  by (auto simp: ok_key_def checked_key_iff is_key_shape)

lemma ok_key_held: "ok_key B b64 order k \<Longrightarrow> as_checked (HeldKey_new k) = k"
  by (auto simp: ok_key_def checked_key_iff as_checked_new)

lemma ok_keyI: "checked_key B b64 order item = Inr k \<Longrightarrow> ok_key B b64 order k"
  by (auto simp: ok_key_def)

text \<open>The tracker after the keys \<open>ks\<close> of a file, \<open>prev\<close> the last key of the file before.\<close>

definition latest_key :: "'k option \<Rightarrow> 'k list \<Rightarrow> 'k option" where
  "latest_key prev ks = (if ks = [] then prev else Some (last ks))"

definition tracker_of :: "KeyOrder \<Rightarrow> 'd CheckedKey option \<Rightarrow> 'd CheckedKey list \<Rightarrow> 'd KeyRangeTracker" where
  "tracker_of order prev ks =
     \<lparr>kt_order = order, kt_first = (if ks = [] then None else Some (HeldKey_new (hd ks))),
      kt_latest = map_option HeldKey_new (latest_key prev ks), kt_items = length ks\<rparr>"

definition follows :: "'d bd_ops \<Rightarrow> 'd CheckedKey option \<Rightarrow> 'd CheckedKey \<Rightarrow> bool" where
  "follows B l k \<longleftrightarrow> (case l of None \<Rightarrow> True | Some l \<Rightarrow> checked_cmp B l k = Less)"

lemma tracker_new_of: "tracker_new order = tracker_of order None []"
  by (simp add: tracker_new_def tracker_of_def latest_key_def)

lemma latest_key_snoc [simp]: "latest_key prev (ks @ [k]) = Some k"
  by (simp add: latest_key_def)

lemma push_checked_tracker:
  assumes "\<forall>k \<in> set_option (latest_key prev ks). ok_key B b64 order k"
  shows "push_checked B (tracker_of order prev ks) k = Inr t \<longleftrightarrow>
     follows B (latest_key prev ks) k \<and> t = tracker_of order prev (ks @ [k])"
proof (cases "latest_key prev ks")
  case None
  then have "ks = []" "prev = None" by (auto simp: latest_key_def split: if_split_asm)
  then show ?thesis by (auto simp: push_checked_def tracker_of_def latest_key_def follows_def)
next
  case (Some l)
  with assms have l: "as_checked (HeldKey_new l) = l" using ok_key_held by fastforce
  have "(case ks @ [k] of [] \<Rightarrow> None | x # _ \<Rightarrow> Some (HeldKey_new x)) = (if ks = [] then Some (HeldKey_new k) else Some (HeldKey_new (hd ks)))"
    by (cases ks) auto
  with Some l show ?thesis by (auto simp: push_checked_def Let_def tracker_of_def follows_def hd_append)
qed

text \<open>A loop whose state after the keys \<open>ks\<close> is \<open>S ks\<close>, and which takes one more key when \<open>P\<close> holds of it.\<close>

fun all_steps :: "('k list \<Rightarrow> 'k \<Rightarrow> bool) \<Rightarrow> 'k list \<Rightarrow> 'k list \<Rightarrow> bool" where
  "all_steps P ks [] = True"
| "all_steps P ks (j # js) = (P ks j \<and> all_steps P (ks @ [j]) js)"

lemma try_fold_collect:
  assumes "\<And>ks item s'. I ks \<Longrightarrow> step (S ks) item = Inr s' \<longleftrightarrow> (\<exists>k. key item = Inr k \<and> P ks k \<and> s' = S (ks @ [k]))"
    and "\<And>ks item k. I ks \<Longrightarrow> key item = Inr k \<Longrightarrow> I (ks @ [k])"
    and "I ks"
  shows "try_fold step (S ks) items = Inr s \<longleftrightarrow>
     (\<exists>js. list_all2 (\<lambda>item k. key item = Inr k) items js \<and> all_steps P ks js \<and> s = S (ks @ js))"
  using assms(3)
proof (induction items arbitrary: ks)
  case Nil
  then show ?case by auto
next
  case (Cons item items)
  have "try_fold step (S ks) (item # items) = Inr s \<longleftrightarrow>
      (\<exists>k. key item = Inr k \<and> P ks k \<and> try_fold step (S (ks @ [k])) items = Inr s)"
    by (simp add: res_simps assms(1) [OF Cons.prems]) blast
  also have "\<dots> \<longleftrightarrow> (\<exists>k js. key item = Inr k \<and> P ks k \<and> list_all2 (\<lambda>item k. key item = Inr k) items js \<and>
      all_steps P (ks @ [k]) js \<and> s = S (ks @ k # js))"
    using Cons.IH [OF assms(2) [OF Cons.prems]] by auto
  also have "\<dots> \<longleftrightarrow> (\<exists>js. list_all2 (\<lambda>item k. key item = Inr k) (item # items) js \<and> all_steps P ks js \<and> s = S (ks @ js))"
  proof safe
    fix k js assume "key item = Inr k" "P ks k" "list_all2 (\<lambda>item k. key item = Inr k) items js" "all_steps P (ks @ [k]) js"
    then show "\<exists>js'. list_all2 (\<lambda>item k. key item = Inr k) (item # items) js' \<and> all_steps P ks js' \<and> S (ks @ k # js) = S (ks @ js')"
      by (intro exI [of _ "k # js"]) simp
  qed (auto simp: list_all2_Cons1)
  finally show ?case .
qed

lemma all_steps_conj: "all_steps (\<lambda>ks k. P ks k \<and> Q ks k) ks js \<longleftrightarrow> all_steps P ks js \<and> all_steps Q ks js"
  by (induction js arbitrary: ks) auto

lemma all_steps_const: "all_steps (\<lambda>_. P) ks js \<longleftrightarrow> (\<forall>k \<in> set js. P k)"
  by (induction js arbitrary: ks) auto

lemma all_steps_first: "all_steps (\<lambda>ks k. ks = [] \<longrightarrow> P k) ks js \<longleftrightarrow> (ks = [] \<and> js \<noteq> [] \<longrightarrow> P (hd js))"
  by (induction js arbitrary: ks) auto

abbreviation keys_of :: "'d bd_ops \<Rightarrow> (u8 list \<Rightarrow> string) \<Rightarrow> KeyOrder \<Rightarrow> Item list \<Rightarrow> 'd CheckedKey list \<Rightarrow> bool" where
  "keys_of B b64 order items ks \<equiv> list_all2 (\<lambda>item k. checked_key B b64 order item = Inr k) items ks"

lemma keys_of_ok: "keys_of B b64 order items ks \<Longrightarrow> \<forall>k \<in> set ks. ok_key B b64 order k"
  by (induction items ks rule: list_all2_induct) (auto intro: ok_keyI)

text \<open>Every key follows the one before it.\<close>

abbreviation chain :: "'d bd_ops \<Rightarrow> 'd CheckedKey option \<Rightarrow> 'd CheckedKey list \<Rightarrow> 'd CheckedKey list \<Rightarrow> bool" where
  "chain B prev \<equiv> all_steps (\<lambda>ks. follows B (latest_key prev ks))"

lemma push_all:
  assumes "\<forall>k \<in> set_option prev. ok_key B b64 order k"
  shows "try_fold (push B b64) (tracker_of order prev []) items = Inr t \<longleftrightarrow>
     (\<exists>js. keys_of B b64 order items js \<and> chain B prev [] js \<and> t = tracker_of order prev js)"
proof -
  let ?I = "\<lambda>ks. \<forall>k \<in> set_option (latest_key prev ks). ok_key B b64 order k"
  have step: "push B b64 (tracker_of order prev ks) item = Inr t' \<longleftrightarrow>
      (\<exists>k. checked_key B b64 order item = Inr k \<and> follows B (latest_key prev ks) k \<and> t' = tracker_of order prev (ks @ [k]))"
    if "?I ks" for ks item t'
    using push_checked_tracker [OF that] by (simp add: push_def tracker_of_def [of order prev ks] res_simps)
  have "?I []" using assms by (simp add: latest_key_def)
  from try_fold_collect [where I = ?I and S = "tracker_of order prev" and key = "checked_key B b64 order", OF step _ this]
  show ?thesis by (simp add: ok_keyI)
qed

lemma encode_file_iff:
  assumes "\<forall>k \<in> set_option prev. ok_key B b64 order k" "items \<noteq> []"
  shows "encode_file B b64 (tracker_of order prev []) items = Inr (rng, t) \<longleftrightarrow>
     (\<exists>js. keys_of B b64 order items js \<and> chain B prev [] js \<and>
        rng = Some \<lparr>kr_first = to_item order (HeldKey_new (hd js)), kr_last = to_item order (HeldKey_new (last js))\<rparr> \<and>
        t = tracker_of order (Some (last js)) [])"
proof -
  have nf: "next_file (tracker_of order prev js) =
      (Some \<lparr>kr_first = to_item order (HeldKey_new (hd js)), kr_last = to_item order (HeldKey_new (last js))\<rparr>,
       tracker_of order (Some (last js)) [])" if "js \<noteq> []" for js
    using that by (simp add: next_file_def tracker_of_def latest_key_def)
  have "js \<noteq> []" if "keys_of B b64 order items js" for js using that assms(2) by auto
  then show ?thesis using nf by (auto simp: encode_file_def res_simps push_all [OF assms(1)])
qed

definition check_of :: "KeyOrder \<Rightarrow> 'd CheckedKey \<Rightarrow> 'd CheckedKey \<Rightarrow> 'd CheckedKey list \<Rightarrow> 'd KeyRangeCheck" where
  "check_of order f l ks = \<lparr>kc_tracker = tracker_of order None ks, kc_range = Inr (HeldKey_new f, HeldKey_new l)\<rparr>"

lemma tracker_of_sel [simp]:
  "kt_order (tracker_of order prev ks) = order" "kt_items (tracker_of order prev ks) = length ks"
  "kt_latest (tracker_of order prev ks) = map_option HeldKey_new (latest_key prev ks)"
  by (simp_all add: tracker_of_def)

lemma check_of_sel [simp]:
  "kc_tracker (check_of order f l ks) = tracker_of order None ks"
  "kc_range (check_of order f l ks) = Inr (HeldKey_new f, HeldKey_new l)"
  "check_of order f l ks\<lparr>kc_tracker := tracker_of order None js\<rparr> = check_of order f l js"
  by (simp_all add: check_of_def)

lemma check_step:
  assumes "ok_key B b64 order f" "ok_key B b64 order l" "\<forall>k \<in> set ks. ok_key B b64 order k"
  shows "check B b64 (check_of order f l ks) item = Inr c \<longleftrightarrow>
     (\<exists>k. checked_key B b64 order item = Inr k \<and>
        (((ks = [] \<longrightarrow> checked_cmp B k f = Equal) \<and> checked_cmp B k l \<noteq> Greater) \<and> follows B (latest_key None ks) k) \<and>
        c = check_of order f l (ks @ [k]))"
proof -
  have "\<forall>k \<in> set_option (latest_key None ks). ok_key B b64 order k"
    using assms(3) by (auto simp: latest_key_def split: if_split_asm)
  note p = push_checked_tracker [OF this]
  have h: "as_checked (HeldKey_new f) = f" "as_checked (HeldKey_new l) = l" using assms(1,2) ok_key_held by blast+
  show ?thesis by (auto simp: check_def Let_def h res_simps p split: if_split_asm)
qed

text \<open>The keys of a file under a range, the end of the file apart.\<close>

definition range_keys :: "'d bd_ops \<Rightarrow> (u8 list \<Rightarrow> string) \<Rightarrow> KeyOrder \<Rightarrow> 'd CheckedKey \<Rightarrow> 'd CheckedKey \<Rightarrow> Item list \<Rightarrow>
    'd CheckedKey list \<Rightarrow> bool" where
  "range_keys B b64 order f l items js \<longleftrightarrow>
     keys_of B b64 order items js \<and> (js \<noteq> [] \<longrightarrow> checked_cmp B (hd js) f = Equal) \<and>
     (\<forall>k \<in> set js. checked_cmp B k l \<noteq> Greater) \<and> chain B None [] js"

lemma check_all:
  assumes "ok_key B b64 order f" "ok_key B b64 order l"
  shows "try_fold (check B b64) (check_of order f l []) items = Inr c \<longleftrightarrow>
     (\<exists>js. range_keys B b64 order f l items js \<and> c = check_of order f l js)"
  using try_fold_collect [where I = "\<lambda>ks. \<forall>k \<in> set ks. ok_key B b64 order k" and S = "check_of order f l" and key = "checked_key B b64 order",
      OF check_step [OF assms], of "[]" items c]
  by (auto simp: all_steps_conj all_steps_const all_steps_first ok_keyI range_keys_def)

definition endpoint :: "'d bd_ops \<Rightarrow> (u8 list \<Rightarrow> string) \<Rightarrow> KeyOrder \<Rightarrow> Item \<Rightarrow> 'd CheckedKey \<Rightarrow> bool" where
  "endpoint B b64 order key k \<longleftrightarrow> validate_key_item order key = Inr () \<and> checked_key B b64 order key = Inr k"

lemma check_endpoint_iff: "check_endpoint B b64 order which key = Inr h \<longleftrightarrow> (\<exists>k. endpoint B b64 order key k \<and> h = HeldKey_new k)"
  by (auto simp: check_endpoint_def endpoint_def res_simps)

lemma check_finish_of:
  assumes "ok_key B b64 order l" "\<forall>k \<in> set js. ok_key B b64 order k"
  shows "check_finish B (check_of order f l js) = Inr () \<longleftrightarrow> js \<noteq> [] \<and> checked_cmp B (last js) l = Equal"
  using assms ok_key_held [of B b64 order] by (cases "js = []") (auto simp: check_finish_def latest_key_def)

lemma read_with_endpoints:
  assumes "endpoint B b64 order (kr_first rng) f" "endpoint B b64 order (kr_last rng) l"
  shows "read_data_file B b64 order rng items = Inr () \<longleftrightarrow>
     (\<exists>js. range_keys B b64 order f l items js \<and> js \<noteq> [] \<and> checked_cmp B (last js) l = Equal)"
proof -
  have ok: "ok_key B b64 order f" "ok_key B b64 order l" using assms by (auto simp: endpoint_def ok_keyI)
  have c: "KeyRangeCheck_new B b64 order rng = check_of order f l []"
  proof -
    have "check_endpoint B b64 order Range_First_Invalid (kr_first rng) = Inr (HeldKey_new f)"
      "check_endpoint B b64 order Range_Last_Invalid (kr_last rng) = Inr (HeldKey_new l)"
      unfolding check_endpoint_iff using assms by blast+
    then show ?thesis by (simp add: KeyRangeCheck_new_def check_of_def tracker_new_of)
  qed
  have "\<forall>k \<in> set js. ok_key B b64 order k" if "range_keys B b64 order f l items js" for js
    by (rule keys_of_ok [of B b64 order items]) (use that in \<open>simp add: range_keys_def\<close>)
  then show ?thesis
    unfolding read_data_file_def c bind_r_Inr_iff check_all [OF ok] using check_finish_of [OF ok(2)] by blast
qed

text \<open>
  What the reader accepts: a range of two keys, and items whose keys ascend from the first to the last.
\<close>

lemma read_data_file_iff:
  "read_data_file B b64 order rng items = Inr () \<longleftrightarrow>
     (\<exists>f l js. endpoint B b64 order (kr_first rng) f \<and> endpoint B b64 order (kr_last rng) l \<and>
        range_keys B b64 order f l items js \<and> js \<noteq> [] \<and> checked_cmp B (last js) l = Equal)"
proof (cases "\<exists>f l. endpoint B b64 order (kr_first rng) f \<and> endpoint B b64 order (kr_last rng) l")
  case True
  then obtain f l where fl: "endpoint B b64 order (kr_first rng) f" "endpoint B b64 order (kr_last rng) l" by blast
  then have "f' = f" "l' = l" if "endpoint B b64 order (kr_first rng) f'" "endpoint B b64 order (kr_last rng) l'" for f' l'
    using that by (auto simp: endpoint_def)
  with fl read_with_endpoints [OF fl, of items] show ?thesis by blast
next
  case False
  then have "kc_range (KeyRangeCheck_new B b64 order rng) \<noteq> Inr fl" for fl
    by (auto simp: KeyRangeCheck_new_def res_simps check_endpoint_iff)
  then obtain reason where "kc_range (KeyRangeCheck_new B b64 order rng) = Inl reason" by (metis old.sum.exhaust)
  then have "read_data_file B b64 order rng items \<noteq> Inr ()"
    by (cases items) (auto simp: read_data_file_def check_def check_finish_def res_simps)
  with False show ?thesis by blast
qed

subsection \<open>The files of a backup\<close>

lemma validate_range_iff:
  assumes "endpoint B b64 order (kr_first rng) f" "endpoint B b64 order (kr_last rng) l"
    and "\<forall>p \<in> set_option pp. checked_key B b64 order (fst p) = Inr (snd p)"
  shows "validate_range B b64 order (map_option fst pp) (Some rng) = Inr x \<longleftrightarrow>
     checked_cmp B f l \<noteq> Greater \<and> follows B (map_option snd pp) f \<and> x = Some (kr_last rng)"
proof -
  have "compare_keys B b64 order (kr_first rng) (kr_last rng) = Inr (checked_cmp B f l)"
    using assms(1,2) compare_checked by (auto simp: endpoint_def checked_key_iff)
  moreover have "compare_keys B b64 order (fst p) (kr_first rng) = Inr (checked_cmp B (snd p) f)" if "pp = Some p" for p
    using assms(1,3) that compare_checked by (auto simp: endpoint_def checked_key_iff)
  ultimately show ?thesis
    using assms(1,2) by (cases pp) (auto simp: validate_range_def endpoint_def follows_def split: if_split_asm)
qed

lemma chain_sorted:
  assumes "bd_lawful B" "\<forall>k \<in> set (ks @ js) \<union> set_option prev. ok_key B b64 order k" "chain B prev ks js"
  shows "sorted_wrt (\<lambda>x y. checked_cmp B x y = Less) js \<and> (\<forall>k \<in> set js. follows B (latest_key prev ks) k)"
  using assms(2,3)
proof (induction js arbitrary: ks)
  case (Cons j js)
  note less = key_ordering.less_le_trans [OF checked_cmp_ordering [OF assms(1), of order]]
  have IH: "sorted_wrt (\<lambda>x y. checked_cmp B x y = Less) js" "\<forall>k \<in> set js. checked_cmp B j k = Less"
    using Cons.IH [of "ks @ [j]"] Cons.prems by (auto simp: follows_def)
  have "follows B (latest_key prev ks) k" if "k \<in> set js" for k
  proof (cases "latest_key prev ks")
    case (Some p)
    then have "ok_key B b64 order p" using Cons.prems(1) by (auto simp: latest_key_def split: if_split_asm)
    moreover have "checked_cmp B p j = Less" using Cons.prems(2) Some by (simp add: follows_def)
    ultimately show ?thesis
      using less [of p j k] IH(2) that Some Cons.prems(1) ok_key_shape [of B b64 order] by (simp add: follows_def)
  qed (simp add: follows_def)
  with IH Cons.prems show ?case by simp
qed simp

lemma keys_of_concat: "list_all2 (keys_of B b64 order) files kss \<Longrightarrow> keys_of B b64 order (concat files) (concat kss)"
  by (induction files kss rule: list_all2_induct) (auto intro: list_all2_appendI)

lemma range_keys_sorted:
  assumes "bd_lawful B" "range_keys B b64 order f l items js"
  shows "sorted_wrt (\<lambda>x y. checked_cmp B x y = Less) js"
  using chain_sorted [OF assms(1), of "[]" js None b64 order] keys_of_ok [of B b64 order items js] assms(2)
  by (simp add: range_keys_def)

text \<open>One file more: its keys lie between the endpoints of its range, all before the keys of the files after it.\<close>

lemma files_ascend_step:
  assumes "bd_lawful B" "ok_key B b64 order f" "ok_key B b64 order l" "\<forall>k \<in> set_option prev. ok_key B b64 order k"
    and js: "range_keys B b64 order f l items js" and c: "checked_cmp B f l \<noteq> Greater" "follows B prev f"
    and rest: "\<forall>k \<in> set ks. ok_key B b64 order k" "sorted_wrt (\<lambda>x y. checked_cmp B x y = Less) ks" "\<forall>k \<in> set ks. follows B (Some l) k"
  shows "sorted_wrt (\<lambda>x y. checked_cmp B x y = Less) (js @ ks) \<and> (\<forall>k \<in> set (js @ ks). follows B prev k)"
proof -
  note O = checked_cmp_ordering [OF assms(1), of order]
  have okj: "\<forall>k \<in> set js. ok_key B b64 order k" by (rule keys_of_ok [of B b64 order items]) (use js in \<open>simp add: range_keys_def\<close>)
  have shape: "ok_key B b64 order k \<Longrightarrow> key_shape order k" for k by (rule ok_key_shape)
  have sj: "sorted_wrt (\<lambda>x y. checked_cmp B x y = Less) js" by (rule range_keys_sorted [OF assms(1) js])
  have "checked_cmp B x y = Less" if "x \<in> set js" "y \<in> set ks" for x y
    using key_ordering.le_less_trans [OF O, of x l y] that js rest(1,3) okj assms(3) shape by (auto simp: range_keys_def follows_def)
  moreover have "follows B prev k" if "k \<in> set js" for k
  proof -
    have "checked_cmp B f (hd js) \<noteq> Greater"
      using js that okj assms(2) shape key_ordering.equal_sym [OF O, of "hd js" f] by (cases js) (auto simp: range_keys_def)
    moreover have "checked_cmp B (hd js) k \<noteq> Greater"
      using key_ordering.sorted_hd_le [OF O _ sj that] okj shape by blast
    ultimately have "checked_cmp B f k \<noteq> Greater"
      using key_ordering.cmp_trans [OF O, of f "hd js" k] okj assms(2) shape that by (cases js) auto
    then show ?thesis
      using c(2) key_ordering.less_le_trans [OF O, of _ f k] assms(2,4) okj shape that by (cases prev) (auto simp: follows_def)
  qed
  moreover have "follows B prev k" if "k \<in> set ks" for k
  proof -
    have "checked_cmp B f k = Less"
      using key_ordering.le_less_trans [OF O, of f l k] c(1) that rest(1,3) assms(2,3) shape by (auto simp: follows_def)
    then show ?thesis
      using c(2) key_ordering.less_le_trans [OF O, of _ f k] assms(2,4) rest(1) shape that by (cases prev) (auto simp: follows_def)
  qed
  ultimately show ?thesis using sj rest(2) by (auto simp: sorted_wrt_append)
qed

lemma files_ascend:
  assumes "bd_lawful B" "try_fold (validate_range B b64 order) (map_option fst pp) (map Some ranges) = Inr x"
    and "list_all2 (\<lambda>rng items. read_data_file B b64 order rng items = Inr ()) ranges files"
    and "\<forall>p \<in> set_option pp. checked_key B b64 order (fst p) = Inr (snd p)"
  shows "\<exists>kss. list_all2 (keys_of B b64 order) files kss \<and> sorted_wrt (\<lambda>x y. checked_cmp B x y = Less) (concat kss) \<and>
     (\<forall>k \<in> set (concat kss). follows B (map_option snd pp) k)"
  using assms(2-)
proof (induction ranges arbitrary: files pp)
  case Nil
  then show ?case by simp
next
  case (Cons rng ranges)
  then obtain items files' where files: "files = items # files'" "read_data_file B b64 order rng items = Inr ()"
      "list_all2 (\<lambda>rng items. read_data_file B b64 order rng items = Inr ()) ranges files'"
    by (auto simp: list_all2_Cons1)
  from files(2) obtain f l js where r: "endpoint B b64 order (kr_first rng) f" "endpoint B b64 order (kr_last rng) l"
      "range_keys B b64 order f l items js" unfolding read_data_file_iff by blast
  note v = validate_range_iff [OF r(1,2) Cons.prems(3)]
  from Cons.prems(1) have c: "checked_cmp B f l \<noteq> Greater" "follows B (map_option snd pp) f"
      "try_fold (validate_range B b64 order) (Some (kr_last rng)) (map Some ranges) = Inr x"
    by (auto simp: res_simps v)
  have ok: "ok_key B b64 order f" "ok_key B b64 order l" "\<forall>k \<in> set_option (map_option snd pp). ok_key B b64 order k"
    using r(1,2) Cons.prems(3) by (auto simp: endpoint_def intro: ok_keyI)
  have "\<exists>kss. list_all2 (keys_of B b64 order) files' kss \<and> sorted_wrt (\<lambda>x y. checked_cmp B x y = Less) (concat kss) \<and>
      (\<forall>k \<in> set (concat kss). follows B (map_option snd (Some (kr_last rng, l))) k)"
    by (rule Cons.IH) (use c(3) files(3) r(2) in \<open>auto simp: endpoint_def\<close>)
  then obtain kss where kss: "list_all2 (keys_of B b64 order) files' kss" "sorted_wrt (\<lambda>x y. checked_cmp B x y = Less) (concat kss)"
      "\<forall>k \<in> set (concat kss). follows B (Some l) k" by auto
  have okk: "\<forall>k \<in> set (concat kss). ok_key B b64 order k" by (rule keys_of_ok [OF keys_of_concat [OF kss(1)]])
  have "keys_of B b64 order items js" using r(3) by (simp add: range_keys_def)
  with files(1) kss(1) have "list_all2 (keys_of B b64 order) files (js # kss)" by simp
  with files_ascend_step [OF assms(1) ok r(3) c(1,2) okk kss(2,3)] show ?case by (metis concat.simps(2))
qed

lemma to_item_inject:
  assumes "ok_key B b64 order k" "ok_key B b64 order k'" "names_differ order"
    and "to_item order (HeldKey_new k) = to_item order (HeldKey_new k')"
  shows "k = k'"
proof -
  obtain item item' where "is_key B b64 order (bt_get item) k" "is_key B b64 order (bt_get item') k'"
    using assms(1,2) by (auto simp: ok_key_def checked_key_iff)
  from to_item_key(1) [OF this(1) assms(3)] to_item_key(1) [OF this(2) assms(3)] assms(4)
  have "checked_key B b64 order (to_item order (HeldKey_new k)) = Inr k" "checked_key B b64 order (to_item order (HeldKey_new k)) = Inr k'"
    by (simp_all add: checked_key_iff)
  then show ?thesis by simp
qed

lemma ascending_items:
  assumes "bd_lawful B" "names_differ order" "keys_of B b64 order items ks" "sorted_wrt (\<lambda>x y. checked_cmp B x y = Less) ks"
  shows "sorted_wrt (\<lambda>x y. compare_keys B b64 order x y = Inr Less) items" "distinct (map (endpoint_key order) items)"
proof -
  have len: "length ks = length items" using assms(3) by (metis list_all2_lengthD)
  have key: "checked_key B b64 order (items ! i) = Inr (ks ! i)" if "i < length items" for i
    using assms(3) that by (simp add: list_all2_conv_all_nth)
  have less: "checked_cmp B (ks ! i) (ks ! j) = Less" if "i < j" "j < length items" for i j
    using assms(4) that len by (simp add: sorted_wrt_iff_nth_less)
  show "sorted_wrt (\<lambda>x y. compare_keys B b64 order x y = Inr Less) items"
    unfolding sorted_wrt_iff_nth_less
  proof (intro allI impI)
    fix i j assume ij: "i < j" "j < length items"
    then have "compare_keys B b64 order (items ! i) (items ! j) = Inr (checked_cmp B (ks ! i) (ks ! j))"
      using key [of i] key [of j] by (intro compare_checked) (simp_all add: checked_key_iff)
    with less [OF ij] show "compare_keys B b64 order (items ! i) (items ! j) = Inr Less" by simp
  qed
  have "endpoint_key order (items ! i) \<noteq> endpoint_key order (items ! j)" if ij: "i < j" "j < length items" for i j
  proof
    assume "endpoint_key order (items ! i) = endpoint_key order (items ! j)"
    then have "to_item order (HeldKey_new (ks ! i)) = to_item order (HeldKey_new (ks ! j))"
      using key [of i] key [of j] ij endpoint_key_item [of B b64 order] by (simp add: checked_key_iff)
    then have "ks ! i = ks ! j" using to_item_inject [OF _ _ assms(2)] key [of i] key [of j] ij ok_keyI by (metis order.strict_trans)
    then have "checked_cmp B (ks ! i) (ks ! i) = Less" using less [OF ij] by simp
    moreover have "key_shape order (ks ! i)" using key [of i] ij ok_key_shape ok_keyI by (metis order.strict_trans)
    ultimately show False using key_ordering.cmp_refl [OF checked_cmp_ordering [OF assms(1)]] by simp
  qed
  then show "distinct (map (endpoint_key order) items)"
    by (auto simp: distinct_conv_nth) (metis linorder_neqE_nat)
qed

text \<open>
  C2: when the manifest's key ranges pass their check and every data file passes the reader's check of its range, the
  keys of all items, file after file, ascend strictly in the key order of the table; so no primary key occurs twice in
  the restored data.
\<close>

theorem restored_keys_ascend:
  assumes "bd_lawful B" "KeyOrder_resolve schema defs = Inr order"
    and "validate_key_ranges B b64 order (map Some ranges) = Inr ()"
    and "list_all2 (\<lambda>rng items. read_data_file B b64 order rng items = Inr ()) ranges files"
  shows "sorted_wrt (\<lambda>x y. compare_keys B b64 order x y = Inr Less) (concat files) \<and>
    distinct (map (endpoint_key order) (concat files))"
proof -
  from assms(3) obtain x where x: "try_fold (validate_range B b64 order) None (map Some ranges) = Inr x"
    by (auto simp: validate_key_ranges_def)
  then obtain kss where "list_all2 (keys_of B b64 order) files kss" "sorted_wrt (\<lambda>x y. checked_cmp B x y = Less) (concat kss)"
    using files_ascend [OF assms(1), of b64 order None ranges x files] assms(4) by auto
  with ascending_items [OF assms(1) resolve_names_differ [OF assms(2)] keys_of_concat] show ?thesis by blast
qed

text \<open>Two files of a table with a number range key; \<open>2\<close> is before \<open>10\<close>.\<close>

definition song :: "string \<Rightarrow> string \<Rightarrow> Item" where
  "song h n = [(''h'', AV_S h), (''n'', AV_N n), (''x'', AV_Bool True)]"

definition song_key :: "string \<Rightarrow> string \<Rightarrow> Item" where
  "song_key h n = [(''h'', AV_S h), (''n'', AV_N n)]"

definition song_order :: KeyOrder where
  "song_order = \<lparr>ko_hash = (''h'', Scalar_S), ko_range = Some (''n'', Scalar_N)\<rparr>"

definition song_schema :: "KeySchemaElement list" where
  "song_schema = [\<lparr>ks_attribute_name = ''h'', ks_key_type = Hash\<rparr>, \<lparr>ks_attribute_name = ''n'', ks_key_type = Range\<rparr>]"

definition song_defs :: "AttributeDefinition list" where
  "song_defs = [\<lparr>ad_attribute_name = ''h'', ad_attribute_type = Scalar_S\<rparr>, \<lparr>ad_attribute_name = ''n'', ad_attribute_type = Scalar_N\<rparr>]"

definition song_ranges :: "KeyRange list" where
  "song_ranges = [\<lparr>kr_first = song_key ''a'' ''2'', kr_last = song_key ''a'' ''10''\<rparr>, \<lparr>kr_first = song_key ''b'' ''1'', kr_last = song_key ''b'' ''1''\<rparr>]"

lemma song_resolve: "KeyOrder_resolve song_schema song_defs = Inr song_order"
  by code_simp

theorem restored_keys_ascend_witness:
  "compare_keys int_bd byte_text song_order (song ''a'' ''2'') (song ''a'' ''10'') = Inr Less \<and>
   sorted_wrt (\<lambda>x y. compare_keys int_bd byte_text song_order x y = Inr Less) [song ''a'' ''2'', song ''a'' ''10'', song ''b'' ''1'']"
proof -
  let ?files = "[[song ''a'' ''2'', song ''a'' ''10''], [song ''b'' ''1'']]"
  have "validate_key_ranges int_bd byte_text song_order (map Some song_ranges) = Inr ()" by code_simp
  moreover have "list_all2 (\<lambda>rng items. read_data_file int_bd byte_text song_order rng items = Inr ()) song_ranges ?files" by code_simp
  ultimately have "sorted_wrt (\<lambda>x y. compare_keys int_bd byte_text song_order x y = Inr Less) (concat ?files)"
    using restored_keys_ascend [OF bd_lawful_int song_resolve] by blast
  then show ?thesis by simp
qed

lemma chain_None: "chain B prev ks js \<Longrightarrow> chain B None ks js"
proof (induction js arbitrary: ks)
  case (Cons j js)
  have "follows B (latest_key prev ks) j \<Longrightarrow> follows B (latest_key None ks) j"
    by (cases "ks = []") (simp_all add: latest_key_def follows_def)
  with Cons show ?case by simp
qed simp

lemma ok_key_endpoint:
  assumes "ok_key B b64 order k" "names_differ order"
  shows "endpoint B b64 order (to_item order (HeldKey_new k)) k"
proof -
  obtain item where "is_key B b64 order (bt_get item) k" using assms(1) by (auto simp: ok_key_def checked_key_iff)
  from to_item_key [OF this assms(2)] show ?thesis by (simp add: endpoint_def checked_key_iff)
qed

text \<open>The range the writer records for a file is one the reader accepts the file under.\<close>

lemma written_file_reads:
  assumes "bd_lawful B" "names_differ order" "\<forall>k \<in> set_option prev. ok_key B b64 order k"
    and js: "keys_of B b64 order items js" "chain B prev [] js" "js \<noteq> []"
  shows "read_data_file B b64 order \<lparr>kr_first = to_item order (HeldKey_new (hd js)), kr_last = to_item order (HeldKey_new (last js))\<rparr> items = Inr ()"
    "checked_cmp B (hd js) (last js) \<noteq> Greater" "follows B prev (hd js)"
proof -
  note O = checked_cmp_ordering [OF assms(1), of order]
  have ok: "\<forall>k \<in> set js. ok_key B b64 order k" by (rule keys_of_ok [OF js(1)])
  then have shape: "\<forall>k \<in> set js. key_shape order k" using ok_key_shape by blast
  have "\<forall>k \<in> set ([] @ js) \<union> set_option prev. ok_key B b64 order k" using ok assms(3) by auto
  from chain_sorted [OF assms(1) this js(2)] have s: "sorted_wrt (\<lambda>x y. checked_cmp B x y = Less) js" by blast
  have "checked_cmp B (hd js) (hd js) = Equal" using key_ordering.cmp_refl [OF O] shape js(3) by simp
  moreover have last: "\<forall>k \<in> set js. checked_cmp B k (last js) \<noteq> Greater" using key_ordering.sorted_le_last [OF O shape s] by blast
  ultimately have "range_keys B b64 order (hd js) (last js) items js"
    using js chain_None by (auto simp: range_keys_def)
  moreover have "checked_cmp B (last js) (last js) = Equal" using key_ordering.cmp_refl [OF O] shape js(3) by simp
  moreover have "endpoint B b64 order (to_item order (HeldKey_new (hd js))) (hd js)" "endpoint B b64 order (to_item order (HeldKey_new (last js))) (last js)"
    using ok js(3) assms(2) by (auto intro: ok_key_endpoint)
  ultimately show "read_data_file B b64 order \<lparr>kr_first = to_item order (HeldKey_new (hd js)), kr_last = to_item order (HeldKey_new (last js))\<rparr> items = Inr ()"
    unfolding read_data_file_iff using js(3) by (intro exI conjI) auto
  show "checked_cmp B (hd js) (last js) \<noteq> Greater" using last js(3) by simp
  show "follows B prev (hd js)" using js(2,3) by (cases js) (simp_all add: latest_key_def)
qed

lemma written_files_read:
  assumes "bd_lawful B" "names_differ order" "\<forall>k \<in> set_option prev. ok_key B b64 order k" "[] \<notin> set files"
    and "write_data_files B b64 (tracker_of order prev []) files = Inr entries"
  shows "\<exists>ranges x. entries = map Some ranges \<and>
     try_fold (validate_range B b64 order) (map_option (\<lambda>k. to_item order (HeldKey_new k)) prev) entries = Inr x \<and>
     list_all2 (\<lambda>rng items. read_data_file B b64 order rng items = Inr ()) ranges files"
  using assms(3-)
proof (induction files arbitrary: prev entries)
  case Nil
  then show ?case by auto
next
  case (Cons items files)
  have ne: "items \<noteq> []" using Cons.prems(2) by auto
  from Cons.prems(3) obtain rng t es where "encode_file B b64 (tracker_of order prev []) items = Inr (rng, t)"
      "write_data_files B b64 t files = Inr es" "entries = rng # es" by auto
  then obtain js r where js: "keys_of B b64 order items js" "chain B prev [] js"
      and r: "r = \<lparr>kr_first = to_item order (HeldKey_new (hd js)), kr_last = to_item order (HeldKey_new (last js))\<rparr>" "entries = Some r # es"
      and es: "write_data_files B b64 (tracker_of order (Some (last js)) []) files = Inr es"
    unfolding encode_file_iff [OF Cons.prems(1) ne] by blast
  have jn: "js \<noteq> []" using js(1) ne by auto
  note w = written_file_reads [OF assms(1,2) Cons.prems(1) js jn]
  have ok: "ok_key B b64 order (hd js)" "ok_key B b64 order (last js)" using keys_of_ok [OF js(1)] jn by simp_all
  obtain rs x where rs: "es = map Some rs" "try_fold (validate_range B b64 order) (Some (kr_last r)) es = Inr x"
      "list_all2 (\<lambda>rng items. read_data_file B b64 order rng items = Inr ()) rs files"
    using Cons.IH [of "Some (last js)" es] ok(2) Cons.prems(2) es r(1) by auto
  have "endpoint B b64 order (kr_first r) (hd js)" "endpoint B b64 order (kr_last r) (last js)"
    using ok assms(2) r(1) by (simp_all add: ok_key_endpoint)
  moreover have "\<forall>p \<in> set_option (map_option (\<lambda>k. (to_item order (HeldKey_new k), k)) prev). checked_key B b64 order (fst p) = Inr (snd p)"
    using Cons.prems(1) ok_key_endpoint [OF _ assms(2), of B b64] by (auto simp: endpoint_def)
  ultimately have "validate_range B b64 order (map_option fst (map_option (\<lambda>k. (to_item order (HeldKey_new k), k)) prev)) (Some r) = Inr (Some (kr_last r))"
    using w(2,3) by (simp only: validate_range_iff) (simp add: option.map_comp comp_def option.map_ident)
  then have "validate_range B b64 order (map_option (\<lambda>k. to_item order (HeldKey_new k)) prev) (Some r) = Inr (Some (kr_last r))"
    by (simp add: option.map_comp comp_def)
  with rs r w(1) show ?case by (intro exI [of _ "r # rs"] exI [of _ x]) simp
qed

text \<open>
  C9: what the writer's tracker accepts the reader accepts.  For data files written under one tracker, the recorded
  ranges pass the manifest's check and every file passes the reader's check of its range.
\<close>

theorem written_backup_reads:
  assumes "bd_lawful B" "KeyOrder_resolve schema defs = Inr order" "[] \<notin> set files"
    and "write_data_files B b64 (tracker_new order) files = Inr entries"
  shows "\<exists>ranges. entries = map Some ranges \<and> validate_key_ranges B b64 order entries = Inr () \<and>
    list_all2 (\<lambda>rng items. read_data_file B b64 order rng items = Inr ()) ranges files"
  using written_files_read [OF assms(1) resolve_names_differ [OF assms(2)], of None b64 files entries] assms(3,4)
  by (auto simp: validate_key_ranges_def tracker_new_of)

theorem written_backup_reads_witness:
  "write_data_files int_bd byte_text (tracker_new song_order) [[song ''a'' ''2'', song ''a'' ''10''], [song ''b'' ''1'']] =
     Inr (map Some song_ranges) \<and>
   validate_key_ranges int_bd byte_text song_order (map Some song_ranges) = Inr ()"
proof -
  have "write_data_files int_bd byte_text (tracker_new song_order) [[song ''a'' ''2'', song ''a'' ''10''], [song ''b'' ''1'']] =
      Inr (map Some song_ranges)" by code_simp
  with written_backup_reads [OF bd_lawful_int song_resolve _ this] show ?thesis by simp
qed

end
