(* ===== verification/Spec2Isabelle.thy ===== *)
theory Spec2Isabelle
  imports Update_Parser Projection Key_Condition Policy_Evaluator Rate_Limit Number_Key Backup_Props
begin

text \<open>
  A verification development of ExtendDB, a DynamoDB compatible database server written in Rust.  Paths below are
  relative to \<open>src/crates\<close>.

  \<^bold>\<open>The program.\<close>  A request reaches the server, is authenticated, is authorized by the policies of its
  principal (\<open>auth\<close>), and is executed by the engine.  The engine lexes and parses the expressions of the request,
  evaluates them on items and changes items (\<open>core/src/expression\<close>), and stores items under keys that a backend
  orders (\<open>storage\<close>, \<open>storage-sqlite\<close>).  Backups hold the items of a table in key order (\<open>core/src/backup_format\<close>).
  Logins of the management console pass a rate limiter (\<open>server/src/rate_limit.rs\<close>).

  \<^bold>\<open>Conventions.\<close>  A Rust \<open>String\<close> is the list of its UTF-8 bytes.  \<open>Result\<close> is the sum type with the error on the
  left, and \<open>bind_r\<close> is the operator \<open>?\<close>; \<open>Option\<close> is \<open>option\<close>.  A \<open>BTreeMap\<close> is a sorted association list, a
  \<open>HashMap\<close> a map or an association list.  \<open>usize\<close> is \<open>nat\<close>, with the bound written out where a value is parsed;
  saturating \<open>i64\<close> arithmetic is written out in \<open>Number\<close>.  A cursor into a token or byte slice is the unread suffix.
  A panic of the code is a value of its own where the code can reach it.

  \<^bold>\<open>Foundations.\<close>
  \<^item> \<open>Rust_Prelude\<close>: results, \<open>Ordering\<close>, byte strings, decimal printing and parsing; the collections \<open>res_simps\<close> and
    \<open>str_simps\<close>.
  \<^item> \<open>BTree\<close>: \<open>BTreeMap\<close> and \<open>BTreeSet\<close>.  The locales \<open>ordered_map\<close> and \<open>ordered_set\<close> state what their clients rely on
    and are interpreted on the model.
  \<^item> \<open>Attr_Value\<close>, \<open>DynamoDb_Error\<close>, \<open>Expr_Ast\<close>: the data of \<open>core/src/types\<close>, \<open>core/src/error/mod.rs\<close>,
    \<open>core/src/expression/ast.rs\<close> and \<open>kind.rs\<close>.

  \<^bold>\<open>Expressions\<close> (\<open>core/src/expression\<close>).
  \<^item> \<open>Tokenizer\<close> (\<open>tokenizer.rs\<close>): both lexers and the context of their errors.  An accepted text has a bounded number of
    tokens, and its tokens printed lex to the same tokens.
  \<^item> \<open>Parser\<close>, \<open>Parser_Print\<close> (\<open>parser_common.rs\<close>, \<open>parser.rs\<close>): the condition parser with its depth limit.  The locale
    \<open>progress_parser\<close> gives termination and suffix facts to every sub-parser.  The parser accepts exactly the conditions
    of a described language, and printing with minimal parentheses is inverted by parsing.
  \<^item> \<open>Resolver\<close> (\<open>resolver.rs\<close>): names, values and document paths.  The crate \<open>bigdecimal\<close> is the parameter \<open>bd_ops\<close> with
    the hypothesis \<open>bd_lawful\<close>; witnesses use the instance \<open>int_bd\<close>.
  \<^item> \<open>Evaluator\<close>, \<open>Evaluator_Props\<close> (\<open>evaluator.rs\<close>): evaluation of conditions.  Comparison is one total order, \<open>BETWEEN\<close> is
    two comparisons, parsed conditions raise no internal error, and a result depends only on the references collected.
  \<^item> \<open>Update_Parser\<close> (\<open>update_parser.rs\<close>): both entry points; round trip and agreement of the two.
  \<^item> \<open>Update_Evaluator\<close>, \<open>Update_Props\<close> (\<open>update_evaluator.rs\<close>): the four kinds of action.  The locale \<open>item_steps\<close> lifts a
    property of one action to the list of actions.  Items stay well-formed, only the attributes addressed change, \<open>SET\<close>
    reads the item from before the update, and \<open>ADD\<close> and \<open>DELETE\<close> of sets are inverse.
  \<^item> \<open>Projection\<close> (\<open>projection.rs\<close>): parsing, the trie of paths, its application; it refines selection by paths.
  \<^item> \<open>Key_Condition\<close> (\<open>key_condition.rs\<close>): clauses and their assignment to key attributes, which does not depend on their
    order on a multi-attribute key.
  \<^item> \<open>Number\<close> (\<open>core/src/validation/number.rs\<close>): normalisation keeps the value and is canonical.

  \<^bold>\<open>Authorization\<close> (\<open>auth/src/policy\<close>).
  \<^item> \<open>Wildcard\<close>, \<open>Matcher\<close> (\<open>matcher.rs\<close>): the backtracking loop is a \<open>partial_function\<close>; it returns on every input, and what
    it returns is the meaning of the pattern (the inductive relation \<open>glob\<close>).  Address ranges compare leading bits.
  \<^item> \<open>Policy_Document\<close> (\<open>document.rs\<close>): documents, operators, and the checks of the write path.
  \<^item> \<open>Policy_Context\<close> (\<open>context.rs\<close>, \<open>context/request_tags.rs\<close>, \<open>casefold.rs\<close>), \<open>Policy_Variables\<close> (\<open>variables.rs\<close>),
    \<open>Policy_Condition\<close> (\<open>condition.rs\<close>) over \<open>Rust_F64\<close> (the \<open>f64\<close> of the language, with rounding),
    \<open>Policy_Evaluator\<close> (\<open>evaluator.rs\<close>): the decision is characterised, supplied text is never read as a pattern, and an
    unresolvable key never widens access.  The case folding table, the RFC 3339 parser and the parser of JSON text are
    parameters.

  \<^bold>\<open>Storage and backups.\<close>
  \<^item> \<open>Number_Key\<close> (\<open>storage-sqlite/src/number_key.rs\<close>): the byte order of encoded number keys is the order of the numbers.
    The decimal type is the parameter \<open>bd_key_ops\<close> with the hypothesis \<open>bd_key_lawful\<close>, and \<open>pair_bd\<close> an instance.
  \<^item> \<open>Storage_Key\<close> (\<open>storage/src/util/key.rs\<close>): partition key texts are injective, and key definitions survive updates of
    a table and are recovered from its columns.  Base64 is a parameter assumed injective.
  \<^item> \<open>Backup_Keys\<close>, \<open>Backup_Props\<close> (\<open>core/src/backup_format/key_order.rs\<close>, \<open>manifest.rs\<close>): the tracker of the writer and the
    checks of the reader.  The locale \<open>key_ordering\<close> states the order laws.  What the checks accept ascends strictly
    across all files, and what the writer produces passes the checks.

  \<^bold>\<open>Login limiter.\<close>  \<open>Rate_Limit\<close> (\<open>server/src/rate_limit.rs\<close>, with the counting queries of the SQLite store): attempts
  interleave as sequences of events; \<open>reachable\<close> is the inductive set of states.  The caps hold in every reachable state
  (safety), and a lockout ends when its window has passed (liveness).  A failing store and a delay between reading the clock
  and writing a row are part of an event.

  \<^bold>\<open>Bounds and fuel.\<close>  Recursions over tokens and bytes are total, by a measure on the unread suffix.  Where a loop reads a
  separated list by way of another parser, its fuel is the number of tokens, and each round consumes one.  The loop of
  \<open>Wildcard\<close> has no fuel and is proved to return.  Results about exponents hold for literals shorter than \<open>2 ^ 60\<close> bytes,
  where no \<open>i64\<close> saturates into the accepted range, and those about number keys for the exponents the encoding can hold.

  \<^bold>\<open>Not modelled.\<close>
  \<^item> Wire types, their JSON, request validation and legacy parameters: the formats are those of \<open>serde_json\<close>, which the
    sources call.
  \<^item> The handlers of the engine (tables, items, transactions, streams, tags, TTL, import and export, backup jobs): they await
    storage backends and object stores; the expression and key code they call is modelled.
  \<^item> The PostgreSQL, MongoDB, Cassandra and SQLite backends, migrations and object stores: statements executed by other
    programs, apart from the key encodings and the counting queries above.
  \<^item> Throttling, the stale-while-revalidate cache and vector search: wall clocks, library concurrency and \<open>f32\<close> arithmetic of
    other crates.  \<open>apply_update_validated\<close> is left out with the vector checks it adds to an update.
  \<^item> Request signatures, HTTP, console, configuration, command line and metrics: hashes and formats of other crates, and
    input and output.
\<close>

end
